(* ===== verification/Oxidant_Prelude.thy ===== *)
theory Oxidant_Prelude
  imports Main "HOL-Library.Word" "HOL-Library.AList"
begin

text \<open>
  Shared vocabulary of the development: the error model of \<^verbatim>\<open>oxidant-common\<close>, the parts of
  Rust's standard library the modelled code uses (substring search, ASCII case folding, decimal
  parsing and printing, big- and little-endian integers, UTF-8 validation), and the generic lemmas
  on lists, maps and worklists the component theories rest on.

  A Rust \<^verbatim>\<open>str\<close> is the list of its UTF-8 bytes: a HOL \<^typ>\<open>char\<close> is one byte.
\<close>

section \<open>Errors\<close>

text \<open>\<^verbatim>\<open>oxidant_common::Error\<close>: four classes, each with a message.\<close>

datatype error = Plan string | Execution string | Unsupported string | Io string

type_synonym 'a result = "error + 'a"

primrec error_display :: "error \<Rightarrow> string" where
  "error_display (Plan m) = ''plan error: '' @ m"
| "error_display (Execution m) = ''execution error: '' @ m"
| "error_display (Unsupported m) = ''unsupported: '' @ m"
| "error_display (Io m) = ''io error: '' @ m"

primrec spark_error_class :: "error \<Rightarrow> string" where
  "spark_error_class (Plan m) = ''ANALYSIS''"
| "spark_error_class (Execution m) = ''EXECUTION''"
| "spark_error_class (Unsupported m) = ''UNSUPPORTED_FEATURE''"
| "spark_error_class (Io m) = ''IO''"

primrec sql_state :: "error \<Rightarrow> string" where
  "sql_state (Plan m) = ''42000''"
| "sql_state (Unsupported m) = ''0A000''"
| "sql_state (Execution m) = ''58030''"
| "sql_state (Io m) = ''58030''"

text \<open>The \<^verbatim>\<open>?\<close> operator on a \<^verbatim>\<open>Result\<close>: stop at the first error.\<close>

definition rbind :: "'e + 'a \<Rightarrow> ('a \<Rightarrow> 'e + 'b) \<Rightarrow> 'e + 'b" where
  "rbind r f = (case r of Inl e \<Rightarrow> Inl e | Inr x \<Rightarrow> f x)"

lemma rbind_simps [simp]: "rbind (Inl e) f = Inl e" "rbind (Inr x) f = f x"
  by (simp_all add: rbind_def)

lemma rbind_Inr_iff: "rbind r f = Inr y \<longleftrightarrow> (\<exists>x. r = Inr x \<and> f x = Inr y)"
  by (cases r) auto

lemma rbind_Inr_elim [elim!]:
  assumes "rbind r f = Inr y"
  obtains x where "r = Inr x" "f x = Inr y"
  using assms by (auto simp: rbind_Inr_iff)

lemma rbind_cong [fundef_cong]:
  "r = r' \<Longrightarrow> (\<And>x. r' = Inr x \<Longrightarrow> f x = g x) \<Longrightarrow> rbind r f = rbind r' g"
  by (cases r') auto

section \<open>Fact collections\<close>

named_theorems roundtrip_simps \<open>decoding an encoding, for the byte formats\<close>
named_theorems step_intros \<open>introduction rules of the step relations\<close>
named_theorems model_defs \<open>definitions a component unfolds for evaluation\<close>

section \<open>Strings\<close>

text \<open>\<^verbatim>\<open>str::contains\<close>, \<^verbatim>\<open>str::starts_with\<close> and \<^verbatim>\<open>str::ends_with\<close>.\<close>

definition starts_with :: "'a list \<Rightarrow> 'a list \<Rightarrow> bool" where
  "starts_with s p \<longleftrightarrow> take (length p) s = p"

definition ends_with :: "'a list \<Rightarrow> 'a list \<Rightarrow> bool" where
  "ends_with s p \<longleftrightarrow> length p \<le> length s \<and> drop (length s - length p) s = p"

fun str_contains :: "'a list \<Rightarrow> 'a list \<Rightarrow> bool" where
  "str_contains [] p \<longleftrightarrow> p = []"
| "str_contains (c # cs) p \<longleftrightarrow> starts_with (c # cs) p \<or> str_contains cs p"

lemma starts_with_iff: "starts_with s p \<longleftrightarrow> (\<exists>t. s = p @ t)"
  by (metis append_eq_conv_conj append_take_drop_id starts_with_def)

lemma starts_with_append [simp]: "starts_with (p @ t) p"
  by (simp add: starts_with_def)

lemma starts_with_Nil [simp]: "starts_with s []"
  by (simp add: starts_with_def)

lemma str_contains_iff: "str_contains s p \<longleftrightarrow> (\<exists>u v. s = u @ p @ v)"
proof (induction s)
  case Nil
  then show ?case by auto
next
  case (Cons c cs)
  have "(\<exists>u v. c # cs = u @ p @ v) \<longleftrightarrow> (\<exists>v. c # cs = p @ v) \<or> (\<exists>u v. cs = u @ p @ v)"
    by (metis append_Cons append_Nil list.exhaust list.inject)
  with Cons.IH show ?case by (simp add: starts_with_iff)
qed

text \<open>\<^verbatim>\<open>to_ascii_lowercase\<close> and \<^verbatim>\<open>eq_ignore_ascii_case\<close>.\<close>

definition ascii_lower :: "char \<Rightarrow> char" where
  "ascii_lower c = (let n = (of_char c :: nat) in if 65 \<le> n \<and> n \<le> 90 then char_of (n + 32) else c)"

definition to_ascii_lowercase :: "string \<Rightarrow> string" where
  "to_ascii_lowercase = map ascii_lower"

definition eq_ignore_ascii_case :: "string \<Rightarrow> string \<Rightarrow> bool" where
  "eq_ignore_ascii_case s t \<longleftrightarrow> to_ascii_lowercase s = to_ascii_lowercase t"

lemma length_to_ascii_lowercase [simp]: "length (to_ascii_lowercase s) = length s"
  by (simp add: to_ascii_lowercase_def)

lemma to_ascii_lowercase_append [simp]:
  "to_ascii_lowercase (s @ t) = to_ascii_lowercase s @ to_ascii_lowercase t"
  by (simp add: to_ascii_lowercase_def)

text \<open>ASCII white space, and \<^verbatim>\<open>str::trim\<close> restricted to it.\<close>

definition is_space :: "char \<Rightarrow> bool" where
  "is_space c \<longleftrightarrow> (let n = (of_char c :: nat) in n = 32 \<or> 9 \<le> n \<and> n \<le> 13)"

definition trim :: "string \<Rightarrow> string" where
  "trim s = rev (dropWhile is_space (rev (dropWhile is_space s)))"

text \<open>The dash of the messages, in UTF-8.\<close>

definition em_dash :: string where
  "em_dash = [CHR 0xE2, CHR 0x80, CHR 0x94]"

text \<open>\<^verbatim>\<open>str::split\<close> on one character: always at least one piece.\<close>

fun split_on :: "'a \<Rightarrow> 'a list \<Rightarrow> 'a list list" where
  "split_on d [] = [[]]"
| "split_on d (c # cs) =
     (if c = d then [] # split_on d cs
      else (case split_on d cs of [] \<Rightarrow> [[c]] | w # ws \<Rightarrow> (c # w) # ws))"

lemma split_on_nonempty [simp]: "split_on d s \<noteq> []"
  by (induction d s rule: split_on.induct) (auto split: list.splits)

lemma split_on_none: "d \<notin> set s \<Longrightarrow> split_on d s = [s]"
  by (induction d s rule: split_on.induct) auto

lemma split_on_append: "d \<notin> set w \<Longrightarrow> split_on d (w @ d # s) = w # split_on d s"
  by (induction w) auto

text \<open>\<^verbatim>\<open>str::split_once\<close>: the part before the first separator, and the rest.\<close>

fun split_once :: "'a \<Rightarrow> 'a list \<Rightarrow> ('a list \<times> 'a list) option" where
  "split_once d [] = None"
| "split_once d (c # cs) =
     (if c = d then Some ([], cs) else map_option (\<lambda>(a, b). (c # a, b)) (split_once d cs))"

lemma split_once_append: "d \<notin> set w \<Longrightarrow> split_once d (w @ d # s) = Some (w, s)"
  by (induction w) auto

lemma split_once_none: "split_once d s = None \<longleftrightarrow> d \<notin> set s"
  by (induction d s rule: split_once.induct) auto

text \<open>\<^verbatim>\<open>Path::join\<close> with a relative name.\<close>

definition path_join :: "string \<Rightarrow> string \<Rightarrow> string" where
  "path_join dir name = (if dir = [] \<or> last dir = CHR ''/'' then dir @ name else dir @ ''/'' @ name)"

text \<open>\<^verbatim>\<open>[String]::join\<close>.\<close>

fun join :: "'a list \<Rightarrow> 'a list list \<Rightarrow> 'a list" where
  "join sep [] = []"
| "join sep [w] = w"
| "join sep (w # v # ws) = w @ sep @ join sep (v # ws)"

section \<open>Decimal numbers\<close>

definition digit_char :: "nat \<Rightarrow> char" where
  "digit_char d = char_of (48 + d)"

definition is_digit :: "char \<Rightarrow> bool" where
  "is_digit c \<longleftrightarrow> (let n = (of_char c :: nat) in 48 \<le> n \<and> n \<le> 57)"

definition digit_value :: "char \<Rightarrow> nat" where
  "digit_value c = (of_char c :: nat) - 48"

text \<open>Decimal printing (\<^verbatim>\<open>u32::to_string\<close>).\<close>

fun show_nat :: "nat \<Rightarrow> string" where
  "show_nat n = (if n < 10 then [digit_char n] else show_nat (n div 10) @ [digit_char (n mod 10)])"

declare show_nat.simps [simp del]

text \<open>Signed decimal printing, upper-case hexadecimal digits, and padding with zeros on the left.\<close>

definition show_int :: "int \<Rightarrow> string" where
  "show_int i = (if i < 0 then CHR ''-'' # show_nat (nat (- i)) else show_nat (nat i))"

definition hex_char :: "nat \<Rightarrow> char" where
  "hex_char d = char_of (if d < 10 then 48 + d else 55 + d)"

definition pad_zeros :: "nat \<Rightarrow> string \<Rightarrow> string" where
  "pad_zeros w s = replicate (w - length s) CHR ''0'' @ s"

definition digits_value :: "string \<Rightarrow> nat" where
  "digits_value s = foldl (\<lambda>acc c. acc * 10 + digit_value c) 0 s"

text \<open>
  \<^verbatim>\<open>str::parse\<close> at an unsigned type whose largest value is \<^term>\<open>m\<close>: an optional plus sign,
  at least one digit, nothing else, and no overflow.
\<close>

definition parse_unsigned :: "nat \<Rightarrow> string \<Rightarrow> nat option" where
  "parse_unsigned m s =
     (let t = (case s of [] \<Rightarrow> [] | c # cs \<Rightarrow> if c = CHR ''+'' then cs else s) in
      if t \<noteq> [] \<and> list_all is_digit t \<and> digits_value t \<le> m then Some (digits_value t) else None)"

abbreviation u32_max :: nat where "u32_max \<equiv> 2 ^ 32 - 1"
abbreviation u64_max :: nat where "u64_max \<equiv> 2 ^ 64 - 1"

abbreviation parse_u32 :: "string \<Rightarrow> nat option" where "parse_u32 \<equiv> parse_unsigned u32_max"
abbreviation parse_u64 :: "string \<Rightarrow> nat option" where "parse_u64 \<equiv> parse_unsigned u64_max"

lemma of_char_digit_char: "d < 10 \<Longrightarrow> (of_char (digit_char d) :: nat) = 48 + d"
  by (simp add: digit_char_def)

lemma is_digit_digit_char [simp]: "d < 10 \<Longrightarrow> is_digit (digit_char d)"
  by (simp add: is_digit_def of_char_digit_char)

lemma digit_value_digit_char [simp]: "d < 10 \<Longrightarrow> digit_value (digit_char d) = d"
  by (simp add: digit_value_def of_char_digit_char)

lemma show_nat_nonempty [simp]: "show_nat n \<noteq> []"
  by (subst show_nat.simps) simp

lemma show_nat_digits: "list_all is_digit (show_nat n)"
proof (induction n rule: show_nat.induct)
  case (1 n)
  then show ?case by (subst show_nat.simps) auto
qed

lemma digits_value_show_nat [simp]: "digits_value (show_nat n) = n"
proof (induction n rule: show_nat.induct)
  case (1 n)
  show ?case
  proof (cases "n < 10")
    case True
    then show ?thesis by (subst show_nat.simps) (simp add: digits_value_def)
  next
    case False
    with 1 have "foldl (\<lambda>acc c. acc * 10 + digit_value c) 0 (show_nat (n div 10)) = n div 10"
      by (simp add: digits_value_def)
    with False show ?thesis by (subst show_nat.simps) (simp add: digits_value_def)
  qed
qed

lemma show_nat_inject [simp]: "show_nat m = show_nat n \<longleftrightarrow> m = n"
  by (metis digits_value_show_nat)

text \<open>A printed number ends where the digits end.\<close>

lemma show_nat_delimited:
  assumes "show_nat m @ c # x = show_nat n @ d # y" and "\<not> is_digit c" and "\<not> is_digit d"
  shows "m = n \<and> c = d \<and> x = y"
proof -
  have t: "takeWhile is_digit (show_nat k @ e # z) = show_nat k" if "\<not> is_digit e" for k e z
    using show_nat_digits [of k] that by (subst takeWhile_append2) (auto simp: list_all_iff)
  have "show_nat m = show_nat n" using arg_cong [OF assms(1), of "takeWhile is_digit"] t assms(2,3) by simp
  with assms(1) show ?thesis by simp
qed

lemma parse_show_nat: "n \<le> m \<Longrightarrow> parse_unsigned m (show_nat n) = Some n"
proof -
  assume n: "n \<le> m"
  obtain c cs where s: "show_nat n = c # cs"
    by (cases "show_nat n") auto
  with show_nat_digits [of n] have "is_digit c" by simp
  then have "c \<noteq> CHR ''+''" by (auto simp: is_digit_def)
  with s have "(case show_nat n of [] \<Rightarrow> [] | c # cs \<Rightarrow> if c = CHR ''+'' then cs else show_nat n) = show_nat n"
    by simp
  with n show ?thesis by (simp add: parse_unsigned_def show_nat_digits)
qed

lemma parse_unsigned_bound: "parse_unsigned m s = Some n \<Longrightarrow> n \<le> m"
  by (auto simp: parse_unsigned_def Let_def split: if_splits)

lemma upt_split: "i \<le> j \<Longrightarrow> j \<le> k \<Longrightarrow> [i..<k] = [i..<j] @ [j..<k]"
  using upt_add_eq_append [of i j "k - j"] by simp

section \<open>Worklists\<close>

text \<open>
  A loop that pops a node, passes over it when it is stopped or was seen, and otherwise marks it and
  pushes its successors. Started with nothing seen, and if it never meets a stopped node, it computes the
  nodes that can be reached.
\<close>

locale worklist =
  fixes succs :: "'a \<Rightarrow> 'a list" and stop :: "'a set" and loop :: "'a list \<Rightarrow> 'a set \<Rightarrow> 'a set"
  assumes loop_Nil: "loop [] seen = seen"
    and loop_Cons: "loop (x # st) seen =
      (if x \<in> stop \<or> x \<in> seen then loop st seen else loop (rev (succs x) @ st) (insert x seen))"
    and loop_induct: "(\<And>seen. P [] seen) \<Longrightarrow>
      (\<And>x st seen. (x \<in> stop \<or> x \<in> seen \<Longrightarrow> P st seen) \<Longrightarrow>
         (\<not> (x \<in> stop \<or> x \<in> seen) \<Longrightarrow> P (rev (succs x) @ st) (insert x seen)) \<Longrightarrow> P (x # st) seen) \<Longrightarrow>
      P st seen"
begin

lemma loop_sound: "loop st seen \<subseteq> seen \<union> {(x, y). y \<in> set (succs x)}\<^sup>* `` set st"
proof (induction st seen rule: loop_induct)
  case (2 x st seen)
  let ?R = "{(x, y). y \<in> set (succs x)}"
  have "?R\<^sup>* `` set (succs x) \<subseteq> ?R\<^sup>* `` {x}" by (auto intro: converse_rtrancl_into_rtrancl)
  moreover have "x \<in> ?R\<^sup>* `` {x}" by auto
  moreover have "?R\<^sup>* `` set (x # st) = ?R\<^sup>* `` {x} \<union> ?R\<^sup>* `` set st" by auto
  ultimately show ?case
    using 2 unfolding loop_Cons set_append set_rev Image_Un by (simp split: if_splits) blast+
qed (simp add: loop_Nil)

lemma loop_mono: "seen \<subseteq> loop st seen"
  by (induction st seen rule: loop_induct) (auto simp: loop_Nil loop_Cons)

lemma loop_start: "set st - stop \<subseteq> loop st seen"
proof (induction st seen rule: loop_induct)
  case (2 x st seen)
  then show ?case
    using loop_mono [of seen st] loop_mono [of "insert x seen" "rev (succs x) @ st"] by (auto simp: loop_Cons)
qed simp

lemma loop_closed:
  "\<forall>x \<in> seen. set (succs x) - stop \<subseteq> seen \<union> set st \<Longrightarrow> \<forall>x \<in> loop st seen. set (succs x) - stop \<subseteq> loop st seen"
proof (induction st seen rule: loop_induct)
  case (2 x st seen)
  show ?case
  proof (cases "x \<in> stop \<or> x \<in> seen")
    case True
    have "\<forall>y \<in> seen. set (succs y) - stop \<subseteq> seen \<union> set st" using 2(3) True by fastforce
    with 2(1) True show ?thesis by (simp add: loop_Cons)
  next
    case False
    have "\<forall>y \<in> insert x seen. set (succs y) - stop \<subseteq> insert x seen \<union> set (rev (succs x) @ st)"
      using 2(3) by fastforce
    with 2(2) False show ?thesis by (simp add: loop_Cons)
  qed
qed (simp add: loop_Nil)

lemma loop_closure:
  assumes "{(x, y). y \<in> set (succs x)}\<^sup>* `` set st \<inter> stop = {}"
  shows "loop st {} = {(x, y). y \<in> set (succs x)}\<^sup>* `` set st"
proof
  let ?R = "{(x, y). y \<in> set (succs x)}"
  show "loop st {} \<subseteq> ?R\<^sup>* `` set st" using loop_sound [of st "{}"] by simp
  have "y \<in> loop st {}" if "(x, y) \<in> ?R\<^sup>*" "x \<in> set st" for x y
    using that
  proof (induction rule: rtrancl_induct)
    case base
    with assms have "x \<notin> stop" by blast
    with base loop_start [of st "{}"] show ?case by auto
  next
    case (step y z)
    then have "z \<in> set (succs y)" by simp
    moreover from step assms have "z \<notin> stop" by (blast intro: rtrancl_into_rtrancl)
    ultimately show ?case using step loop_closed [of "{}" st] by blast
  qed
  then show "?R\<^sup>* `` set st \<subseteq> loop st {}" by auto
qed

end

end
