(* ===== verification/Stage_Plan.thy ===== *)
theory Stage_Plan
  imports Oxidant_Prelude
begin

text \<open>
  The stage vocabulary of the distributed driver (\<^verbatim>\<open>oxidant-execution/src/driver.rs\<close>): stage
  definitions, the tickets sent to workers, and the pure functions that turn one into the other.

  Stage ids and partition ids are \<^verbatim>\<open>u32\<close> in the code and are only compared and stored here, so
  they are natural numbers; \<^verbatim>\<open>HashMap\<close>s that are only looked up are partial functions.
\<close>

section \<open>Stages\<close>

datatype exchange_mode = ExHash | ExBroadcast | ExForward

record stage_def =
  stage_id :: nat
  sql :: string
  upstream_stage_ids :: "nat list"
  hash_key_cols :: "nat list"
  exchange :: exchange_mode
  plan_fragment :: "8 word list option"
  lakehouse_snapshot_pins :: string
  replicated_tables :: string
  lakeformation_required :: bool
  lakeformation_principal :: string

definition stage_def_default :: stage_def where
  "stage_def_default =
     \<lparr>stage_id = 0, sql = [], upstream_stage_ids = [], hash_key_cols = [], exchange = ExHash,
      plan_fragment = None, lakehouse_snapshot_pins = [], replicated_tables = [],
      lakeformation_required = False, lakeformation_principal = []\<rparr>"

definition stage_def_new :: "nat \<Rightarrow> string \<Rightarrow> nat list \<Rightarrow> nat list \<Rightarrow> stage_def" where
  "stage_def_new i q ups keys =
     stage_def_default\<lparr>stage_id := i, sql := q, upstream_stage_ids := ups, hash_key_cols := keys\<rparr>"

lemma stage_def_new_simps [simp]:
  "stage_id (stage_def_new i q ups keys) = i"
  "sql (stage_def_new i q ups keys) = q"
  "upstream_stage_ids (stage_def_new i q ups keys) = ups"
  "hash_key_cols (stage_def_new i q ups keys) = keys"
  "exchange (stage_def_new i q ups keys) = ExHash"
  by (simp_all add: stage_def_new_def stage_def_default_def)

definition SCALAR_TOKEN :: string where
  "SCALAR_TOKEN = ''__OXIDANT_SCALAR_STAGE__''"

definition stage_sql_has_scalar_token :: "string \<Rightarrow> bool" where
  "stage_sql_has_scalar_token q \<longleftrightarrow>
     str_contains q SCALAR_TOKEN \<or> str_contains q ''__OXIDANT_SCALAR_STAGE_''"

section \<open>Tickets\<close>

text \<open>\<^verbatim>\<open>StageTicket\<close>, field by field; the prefix keeps the names apart from those of a stage.\<close>

record stage_ticket =
  t_stage_id :: nat
  t_partition_id :: nat
  t_num_partitions :: nat
  t_upstream_endpoints :: "string list"
  t_stage_sql :: string
  t_plan_fragment :: "8 word list"
  t_hash_key_cols :: "nat list"
  t_upstream_stage_ids :: "nat list"
  t_produce :: bool
  t_lakehouse_snapshot_pins :: string
  t_replicated_tables :: string
  t_coalesce_read_modulus :: nat
  t_forward_upstream_stage_ids :: "nat list"
  t_upstream_bucket_rows :: "nat list"
  t_lakeformation_required :: bool
  t_lakeformation_principal :: string

definition forward_upstreams :: "stage_def \<Rightarrow> (nat \<rightharpoonup> stage_def) \<Rightarrow> nat list" where
  "forward_upstreams stage stages =
     filter (\<lambda>u. case stages u of Some d \<Rightarrow> exchange d = ExForward | None \<Rightarrow> False)
       (upstream_stage_ids stage)"

text \<open>The smallest read modulus recorded at any upstream's barrier.\<close>

definition consumer_read_modulus :: "stage_def \<Rightarrow> (nat \<rightharpoonup> nat) \<Rightarrow> nat option" where
  "consumer_read_modulus stage coalesced =
     (case List.map_filter coalesced (upstream_stage_ids stage) of
        [] \<Rightarrow> None
      | m # ms \<Rightarrow> Some (fold min ms m))"

fun collect_bucket_rows :: "nat \<Rightarrow> (nat \<rightharpoonup> nat list) \<Rightarrow> nat list \<Rightarrow> nat list \<Rightarrow> nat list" where
  "collect_bucket_rows np stage_rows [] acc = acc"
| "collect_bucket_rows np stage_rows (up # ups) acc =
     (case stage_rows up of
        None \<Rightarrow> []
      | Some rows \<Rightarrow>
          if length rows \<noteq> np then [] else collect_bucket_rows np stage_rows ups (acc @ rows))"

definition measured_upstream_bucket_rows ::
  "stage_def \<Rightarrow> nat \<Rightarrow> (nat \<rightharpoonup> nat list) \<Rightarrow> nat list" where
  "measured_upstream_bucket_rows stage np stage_rows =
     (if upstream_stage_ids stage = [] then []
      else collect_bucket_rows np stage_rows (upstream_stage_ids stage) [])"

definition build_stage_ticket ::
  "stage_def \<Rightarrow> nat \<Rightarrow> nat \<Rightarrow> nat \<Rightarrow> string list \<Rightarrow> bool \<Rightarrow> (nat \<rightharpoonup> stage_def) \<Rightarrow>
   (nat \<rightharpoonup> nat list) \<Rightarrow> stage_ticket" where
  "build_stage_ticket stage p np modulus workers produce stages stage_rows =
     \<lparr>t_stage_id = stage_id stage,
      t_partition_id = p,
      t_num_partitions = np,
      t_upstream_endpoints = (if upstream_stage_ids stage = [] then [] else workers),
      t_stage_sql = sql stage,
      t_plan_fragment = (case plan_fragment stage of None \<Rightarrow> [] | Some f \<Rightarrow> f),
      t_hash_key_cols = hash_key_cols stage,
      t_upstream_stage_ids = upstream_stage_ids stage,
      t_produce = produce,
      t_lakehouse_snapshot_pins = lakehouse_snapshot_pins stage,
      t_replicated_tables = replicated_tables stage,
      t_coalesce_read_modulus = modulus,
      t_forward_upstream_stage_ids = forward_upstreams stage stages,
      t_upstream_bucket_rows = measured_upstream_bucket_rows stage np stage_rows,
      t_lakeformation_required = lakeformation_required stage,
      t_lakeformation_principal = lakeformation_principal stage\<rparr>"

section \<open>Properties\<close>

lemma collect_bucket_rows_nonempty:
  "collect_bucket_rows np stage_rows ups acc \<noteq> [] \<Longrightarrow>
   collect_bucket_rows np stage_rows ups acc = acc @ concat (map (\<lambda>u. the (stage_rows u)) ups) \<and>
   (\<forall>u \<in> set ups. \<exists>rows. stage_rows u = Some rows \<and> length rows = np)"
proof (induction ups arbitrary: acc)
  case Nil
  then show ?case by simp
next
  case (Cons u ups)
  then obtain rows where r: "stage_rows u = Some rows" "length rows = np"
    by (auto split: option.splits if_splits)
  with Cons.prems Cons.IH [of "acc @ rows"] show ?case by simp
qed

lemma concat_equal_length_nth:
  "(\<And>x. x \<in> set xs \<Longrightarrow> length (f x) = n) \<Longrightarrow> i < length xs \<Longrightarrow> b < n \<Longrightarrow>
   concat (map f xs) ! (i * n + b) = f (xs ! i) ! b"
proof (induction xs arbitrary: i)
  case Nil
  then show ?case by simp
next
  case (Cons x xs)
  show ?case
  proof (cases i)
    case 0
    with Cons.prems show ?thesis by (simp add: nth_append)
  next
    case (Suc j)
    have "length (f x) = n" using Cons.prems(1) by simp
    moreover have "concat (map f xs) ! (j * n + b) = f (xs ! j) ! b"
      using Cons.prems Suc by (intro Cons.IH) auto
    ultimately show ?thesis using Suc by (simp add: nth_append)
  qed
qed

end
