(* ===== verification/Stage_Dag.thy ===== *)
theory Stage_Dag
  imports Stage_Plan
begin

text \<open>
  Dependency-aware stage dispatch: \<^verbatim>\<open>StageDag\<close> of \<^verbatim>\<open>oxidant-execution/src/dag_dispatch.rs\<close> and the
  loop of \<^verbatim>\<open>run_stages_concurrent\<close> in \<^verbatim>\<open>driver.rs\<close> that drives it.

  \<^item> \<open>stage_dag\<close> is the bookkeeping record, with \<open>dag_new\<close>, \<open>take_ready\<close>, \<open>complete\<close>, \<open>fail\<close> and
    \<open>unfinished\<close> as its operations. \<^verbatim>\<open>dependents\<close> is an association list, so that the worklist of
    \<open>fail\<close> terminates for every value of the record.
  \<^item> \<open>drv_step\<close> is the driver loop as a step relation: it drains the ready queue, then waits for any
    one stage in flight, which succeeds or fails.
  \<^item> The invariant \<open>drv_inv\<close> says what the counters, the ready queue, the stages in flight and the
    completed stages mean; it holds in every reachable state.
\<close>

section \<open>The bookkeeping\<close>

record stage_dag =
  deps_remaining :: "nat \<rightharpoonup> nat"
  dependents :: "(nat \<times> nat list) list"
  ready :: "nat list"
  completed :: "nat set"
  skipped :: "nat set"
  total :: nat

text \<open>The ids to dispatch: every stage but the output stage (a \<^verbatim>\<open>HashSet\<close>, so without duplicates).\<close>

definition dispatch_set :: "stage_def list \<Rightarrow> nat \<Rightarrow> nat list" where
  "dispatch_set stages out = remdups (filter (\<lambda>i. i \<noteq> out) (map stage_id stages))"

text \<open>The dependencies of one stage: its upstreams, and the scalar stage for a token carrier.\<close>

definition stage_deps :: "nat list \<Rightarrow> nat option \<Rightarrow> stage_def \<Rightarrow> nat list" where
  "stage_deps dispatch scalar s =
     (let deps = remdups (filter (\<lambda>u. u \<in> set dispatch) (upstream_stage_ids s)) in
      if stage_sql_has_scalar_token (sql s) \<and> scalar \<noteq> Some (stage_id s)
      then (case scalar of
              Some sc \<Rightarrow> if sc \<in> set dispatch then List.insert sc deps else deps
            | None \<Rightarrow> deps)
      else deps)"

definition dependents_of :: "(nat \<times> nat list) list \<Rightarrow> nat \<Rightarrow> nat list" where
  "dependents_of m d = (case map_of m d of None \<Rightarrow> [] | Some xs \<Rightarrow> xs)"

text \<open>\<^verbatim>\<open>dependents.entry(d).or_default().push(id)\<close>\<close>

definition push_dependent :: "nat \<Rightarrow> nat \<Rightarrow> (nat \<times> nat list) list \<Rightarrow> (nat \<times> nat list) list" where
  "push_dependent i d m = AList.update d (dependents_of m d @ [i]) m"

definition add_stage :: "nat list \<Rightarrow> nat option \<Rightarrow> stage_def \<Rightarrow> stage_dag \<Rightarrow> stage_dag" where
  "add_stage dispatch scalar s dag =
     (if stage_id s \<notin> set dispatch then dag
      else let deps = stage_deps dispatch scalar s in
        dag\<lparr>deps_remaining := (deps_remaining dag)(stage_id s \<mapsto> length deps),
            dependents := fold (push_dependent (stage_id s)) deps (dependents dag),
            ready := (if deps = [] then ready dag @ [stage_id s] else ready dag)\<rparr>)"

definition dag_empty :: "nat \<Rightarrow> stage_dag" where
  "dag_empty n = \<lparr>deps_remaining = Map.empty, dependents = [], ready = [],
                  completed = {}, skipped = {}, total = n\<rparr>"

definition dag_new :: "stage_def list \<Rightarrow> nat \<Rightarrow> nat option \<Rightarrow> stage_dag" where
  "dag_new stages out scalar =
     (let dispatch = dispatch_set stages out in
      fold (add_stage dispatch scalar) stages (dag_empty (length dispatch)))"

definition take_ready :: "stage_dag \<Rightarrow> nat option \<times> stage_dag" where
  "take_ready dag = (case ready dag of [] \<Rightarrow> (None, dag) | i # is \<Rightarrow> (Some i, dag\<lparr>ready := is\<rparr>))"

text \<open>One dependent loses one outstanding dependency (\<^verbatim>\<open>saturating_sub\<close>).\<close>

definition release_dep :: "nat \<Rightarrow> stage_dag \<Rightarrow> stage_dag" where
  "release_dep d dag =
     (case deps_remaining dag d of
        None \<Rightarrow> dag
      | Some r \<Rightarrow>
          dag\<lparr>deps_remaining := (deps_remaining dag)(d \<mapsto> r - 1),
              ready := (if r - 1 = 0 then ready dag @ [d] else ready dag)\<rparr>)"

definition complete :: "nat \<Rightarrow> stage_dag \<Rightarrow> stage_dag" where
  "complete i dag =
     (if deps_remaining dag i = None \<or> i \<in> completed dag then dag
      else let dag' = dag\<lparr>completed := insert i (completed dag)\<rparr> in
        (case map_of (dependents dag') i of
           None \<Rightarrow> dag'
         | Some ds \<Rightarrow> fold release_dep ds dag'))"

text \<open>
  The worklist of \<^verbatim>\<open>fail\<close>. The head of the list is the top of the \<^verbatim>\<open>Vec\<close> used as a stack, so
  \<^verbatim>\<open>extend\<close> puts the new entries on top in reverse.
\<close>

function skip_loop :: "(nat \<times> nat list) list \<Rightarrow> nat set \<Rightarrow> nat list \<Rightarrow> nat set \<Rightarrow> nat set" where
  "skip_loop m done [] sk = sk"
| "skip_loop m done (d # st) sk =
     (if d \<in> done \<or> d \<in> sk then skip_loop m done st sk
      else skip_loop m done (rev (dependents_of m d) @ st) (insert d sk))"
  by pat_completeness auto

termination
proof (relation "measures [\<lambda>(m, done, st, sk). card (fst ` set m - sk), \<lambda>(m, done, st, sk). length st]")
  fix m :: "(nat \<times> nat list) list" and dn :: "nat set" and d st sk
  assume "\<not> (d \<in> dn \<or> d \<in> sk)"
  then have new: "d \<notin> sk" by simp
  show "((m, dn, rev (dependents_of m d) @ st, insert d sk), m, dn, d # st, sk)
        \<in> measures [\<lambda>(m, done, st, sk). card (fst ` set m - sk), \<lambda>(m, done, st, sk). length st]"
  proof (cases "d \<in> fst ` set m")
    case True
    with new have "fst ` set m - insert d sk \<subset> fst ` set m - sk" by auto
    then have "card (fst ` set m - insert d sk) < card (fst ` set m - sk)"
      by (intro psubset_card_mono) auto
    then show ?thesis by simp
  next
    case False
    then have "map_of m d = None" by (simp add: map_of_eq_None_iff)
    then have "dependents_of m d = []" by (simp add: dependents_of_def)
    moreover from False have "fst ` set m - insert d sk = fst ` set m - sk" by auto
    ultimately show ?thesis by simp
  qed
qed auto

definition fail :: "nat \<Rightarrow> stage_dag \<Rightarrow> nat list \<times> stage_dag" where
  "fail i dag =
     (let sk = skip_loop (dependents dag) (completed dag)
                 (rev (dependents_of (dependents dag) i)) (skipped dag)
      in (sorted_list_of_set sk, dag\<lparr>skipped := sk\<rparr>))"

text \<open>\<^verbatim>\<open>usize\<close> subtraction: \<^const>\<open>None\<close> where it would underflow.\<close>

definition unfinished :: "stage_dag \<Rightarrow> nat option" where
  "unfinished dag =
     (if card (completed dag) + card (skipped dag) \<le> total dag
      then Some (total dag - card (completed dag) - card (skipped dag)) else None)"

section \<open>The driver loop\<close>

text \<open>
  \<^verbatim>\<open>run_stages_concurrent\<close>: the ready queue is drained before the loop waits, and which stage in
  flight finishes first is not determined. \<open>DispatchErr\<close> is any early return of the dispatch
  sweep (a changed membership, a cancelled query, a scalar that cannot be read); a stage error
  skips the dependents and stops the loop.
\<close>

datatype drv_event = Dispatch nat | DispatchErr nat | StageOk nat | StageErr nat "nat list"

record drv_state =
  dag :: stage_dag
  in_flight :: "nat set"
  stopped :: bool

definition drv_init :: "stage_def list \<Rightarrow> nat \<Rightarrow> nat option \<Rightarrow> drv_state" where
  "drv_init stages out scalar = \<lparr>dag = dag_new stages out scalar, in_flight = {}, stopped = False\<rparr>"

inductive drv_step :: "drv_state \<Rightarrow> drv_event \<Rightarrow> drv_state \<Rightarrow> bool" where
  dispatch: "\<not> stopped s \<Longrightarrow> take_ready (dag s) = (Some i, g) \<Longrightarrow>
     drv_step s (Dispatch i) (s\<lparr>dag := g, in_flight := insert i (in_flight s)\<rparr>)"
| dispatch_err: "\<not> stopped s \<Longrightarrow> take_ready (dag s) = (Some i, g) \<Longrightarrow>
     drv_step s (DispatchErr i) (s\<lparr>dag := g, stopped := True\<rparr>)"
| stage_ok: "\<not> stopped s \<Longrightarrow> take_ready (dag s) = (None, g) \<Longrightarrow> i \<in> in_flight s \<Longrightarrow>
     drv_step s (StageOk i) (s\<lparr>dag := complete i g, in_flight := in_flight s - {i}\<rparr>)"
| stage_err: "\<not> stopped s \<Longrightarrow> take_ready (dag s) = (None, g) \<Longrightarrow> i \<in> in_flight s \<Longrightarrow>
     fail i g = (sk, g') \<Longrightarrow>
     drv_step s (StageErr i sk) (s\<lparr>dag := g', in_flight := {}, stopped := True\<rparr>)"

lemmas [step_intros] = drv_step.intros

inductive_cases drv_step_DispatchE: "drv_step s (Dispatch i) t"

inductive drv_run :: "drv_state \<Rightarrow> drv_event list \<Rightarrow> drv_state \<Rightarrow> bool" where
  run_nil: "drv_run s [] s"
| run_snoc: "drv_run s es t \<Longrightarrow> drv_step t e u \<Longrightarrow> drv_run s (es @ [e]) u"

lemmas [step_intros] = drv_run.intros

text \<open>What the loop returns once nothing is ready and nothing is in flight.\<close>

definition drv_drained :: "drv_state \<Rightarrow> bool" where
  "drv_drained s \<longleftrightarrow> \<not> stopped s \<and> ready (dag s) = [] \<and> in_flight s = {}"

definition drv_result :: "drv_state \<Rightarrow> unit result option" where
  "drv_result s =
     (case unfinished (dag s) of
        None \<Rightarrow> None
      | Some 0 \<Rightarrow> Some (Inr ())
      | Some n \<Rightarrow> Some (Inl (Plan (''stage DAG has a dependency cycle: '' @ show_nat n @
                          '' stage(s) never became dispatchable''))))"

section \<open>The dependency relation\<close>

definition dep_set :: "stage_def list \<Rightarrow> nat \<Rightarrow> nat option \<Rightarrow> nat \<Rightarrow> nat set" where
  "dep_set stages out scalar i =
     (\<Union>s \<in> {s \<in> set stages. stage_id s = i}. set (stage_deps (dispatch_set stages out) scalar s))"

definition dep_edges :: "stage_def list \<Rightarrow> nat \<Rightarrow> nat option \<Rightarrow> (nat \<times> nat) set" where
  "dep_edges stages out scalar =
     {(d, i). i \<in> set (dispatch_set stages out) \<and> d \<in> dep_set stages out scalar i}"


text \<open>A diamond of four stages under an output stage, for the concrete runs below.\<close>

definition diamond :: "stage_def list" where
  "diamond = [stage_def_new 0 ''a'' [] [], stage_def_new 1 ''b'' [0] [],
              stage_def_new 2 ''c'' [0] [], stage_def_new 3 ''d'' [1, 2] [],
              stage_def_new 4 ''e'' [3] []]"

text \<open>The meaning of the counters and queues while the loop runs.\<close>

definition drv_inv :: "stage_def list \<Rightarrow> nat \<Rightarrow> nat option \<Rightarrow> drv_state \<Rightarrow> bool" where
  "drv_inv stages out scalar s \<longleftrightarrow>
     (let D = set (dispatch_set stages out); dp = dep_set stages out scalar; g = dag s in
      (\<forall>i. deps_remaining g i = (if i \<in> D then Some (card (dp i - completed g)) else None)) \<and>
      (\<forall>d. distinct (dependents_of (dependents g) d) \<and>
           set (dependents_of (dependents g) d) = {i \<in> D. d \<in> dp i}) \<and>
      distinct (ready g) \<and> set (ready g) \<inter> in_flight s = {} \<and>
      (set (ready g) \<union> in_flight s) \<inter> completed g = {} \<and>
      set (ready g) \<union> in_flight s \<union> completed g = {i \<in> D. dp i \<subseteq> completed g} \<and>
      skipped g = {} \<and> total g = card D)"

text \<open>The dispatches and the completions of a history, and how they relate to the state.\<close>

fun ev_dispatched :: "drv_event \<Rightarrow> nat list" where
  "ev_dispatched (Dispatch i) = [i]"
| "ev_dispatched _ = []"

fun ev_ok :: "drv_event \<Rightarrow> nat list" where
  "ev_ok (StageOk i) = [i]"
| "ev_ok _ = []"

definition dispatched :: "drv_event list \<Rightarrow> nat list" where
  "dispatched es = concat (map ev_dispatched es)"

definition oks :: "drv_event list \<Rightarrow> nat list" where
  "oks es = concat (map ev_ok es)"

definition hist_inv :: "drv_event list \<Rightarrow> drv_state \<Rightarrow> bool" where
  "hist_inv es s \<longleftrightarrow>
     distinct (dispatched es) \<and> set (dispatched es) = in_flight s \<union> completed (dag s) \<and>
     distinct (oks es) \<and> set (oks es) = completed (dag s) \<and>
     length es = length (dispatched es) + length (oks es)"

text \<open>The step relation as a function of the event, to run concrete histories.\<close>

fun drv_exec :: "drv_state \<Rightarrow> drv_event \<Rightarrow> drv_state option" where
  "drv_exec s (Dispatch i) =
     (case take_ready (dag s) of
        (Some j, g) \<Rightarrow> if i = j \<and> \<not> stopped s
                       then Some (s\<lparr>dag := g, in_flight := insert i (in_flight s)\<rparr>) else None
      | _ \<Rightarrow> None)"
| "drv_exec s (DispatchErr i) =
     (case take_ready (dag s) of
        (Some j, g) \<Rightarrow> if i = j \<and> \<not> stopped s then Some (s\<lparr>dag := g, stopped := True\<rparr>) else None
      | _ \<Rightarrow> None)"
| "drv_exec s (StageOk i) =
     (case take_ready (dag s) of
        (None, g) \<Rightarrow> if i \<in> in_flight s \<and> \<not> stopped s
                     then Some (s\<lparr>dag := complete i g, in_flight := in_flight s - {i}\<rparr>) else None
      | _ \<Rightarrow> None)"
| "drv_exec s (StageErr i sk) =
     (case take_ready (dag s) of
        (None, g) \<Rightarrow> if i \<in> in_flight s \<and> \<not> stopped s \<and> fst (fail i g) = sk
                     then Some (s\<lparr>dag := snd (fail i g), in_flight := {}, stopped := True\<rparr>) else None
      | _ \<Rightarrow> None)"

fun drv_execs :: "drv_state \<Rightarrow> drv_event list \<Rightarrow> drv_state option" where
  "drv_execs s [] = Some s"
| "drv_execs s (e # es) = (case drv_exec s e of None \<Rightarrow> None | Some t \<Rightarrow> drv_execs t es)"

section \<open>The dependencies of a stage\<close>

lemma distinct_stage_deps [simp]: "distinct (stage_deps dispatch scalar s)"
  by (auto simp: stage_deps_def Let_def split: option.splits)

lemma stage_deps_subset: "set (stage_deps dispatch scalar s) \<subseteq> set dispatch"
  by (auto simp: stage_deps_def Let_def split: option.splits if_splits)

lemma dep_set_subset: "dep_set stages out scalar i \<subseteq> set (dispatch_set stages out)"
  using stage_deps_subset by (auto simp: dep_set_def)

lemma finite_dep_set [simp]: "finite (dep_set stages out scalar i)"
  by (rule finite_subset [OF dep_set_subset]) simp

lemma dep_set_of_stage:
  assumes "distinct (map stage_id stages)" "s \<in> set stages"
  shows "dep_set stages out scalar (stage_id s) = set (stage_deps (dispatch_set stages out) scalar s)"
proof -
  from assms have "{t \<in> set stages. stage_id t = stage_id s} = {s}"
    by (auto simp: distinct_map dest: inj_onD)
  then show ?thesis by (simp add: dep_set_def)
qed

section \<open>What \<open>dag_new\<close> builds\<close>

lemma dependents_of_push:
  "dependents_of (push_dependent i d m) e = dependents_of m e @ (if e = d then [i] else [])"
  by (simp add: push_dependent_def dependents_of_def update_conv)

lemma dependents_of_fold_push:
  "distinct ds \<Longrightarrow> dependents_of (fold (push_dependent i) ds m) e =
     dependents_of m e @ (if e \<in> set ds then [i] else [])"
  by (induction ds arbitrary: m) (auto simp: dependents_of_push)

abbreviation dag_build :: "nat list \<Rightarrow> nat option \<Rightarrow> nat \<Rightarrow> stage_def list \<Rightarrow> stage_dag" where
  "dag_build dispatch scalar n xs \<equiv> fold (add_stage dispatch scalar) xs (dag_empty n)"

lemma build_deps_remaining:
  assumes "distinct (map stage_id xs)" "s \<in> set xs" "stage_id s \<in> set dispatch"
  shows "deps_remaining (dag_build dispatch scalar n xs) (stage_id s) =
           Some (length (stage_deps dispatch scalar s))"
  using assms
  by (induction xs rule: rev_induct) (auto simp: add_stage_def Let_def intro: rev_image_eqI)

lemma build_deps_remaining_None:
  "i \<notin> stage_id ` set xs \<or> i \<notin> set dispatch \<Longrightarrow>
     deps_remaining (dag_build dispatch scalar n xs) i = None"
  by (induction xs rule: rev_induct) (auto simp: add_stage_def dag_empty_def Let_def)

lemma build_dependents:
  "dependents_of (dependents (dag_build dispatch scalar n xs)) d =
     map stage_id (filter (\<lambda>s. stage_id s \<in> set dispatch \<and>
       d \<in> set (stage_deps dispatch scalar s)) xs)"
  by (induction xs rule: rev_induct)
    (auto simp: add_stage_def dag_empty_def dependents_of_def [of "[]"] Let_def dependents_of_fold_push)

lemma build_ready:
  "ready (dag_build dispatch scalar n xs) =
     map stage_id (filter (\<lambda>s. stage_id s \<in> set dispatch \<and> stage_deps dispatch scalar s = []) xs)"
  by (induction xs rule: rev_induct) (auto simp: add_stage_def dag_empty_def Let_def)

lemma build_rest [simp]:
  "completed (dag_build dispatch scalar n xs) = {}"
  "skipped (dag_build dispatch scalar n xs) = {}"
  "total (dag_build dispatch scalar n xs) = n"
  by (induction xs rule: rev_induct) (auto simp: add_stage_def dag_empty_def Let_def)

section \<open>The invariant of the loop\<close>

lemma set_dispatch_set: "set (dispatch_set stages out) = stage_id ` set stages - {out}"
  by (auto simp: dispatch_set_def)

lemma length_dispatch_set: "length (dispatch_set stages out) = card (set (dispatch_set stages out))"
  by (simp add: distinct_card dispatch_set_def del: set_remdups)

lemma drv_inv_init:
  assumes dist: "distinct (map stage_id stages)"
  shows "drv_inv stages out scalar (drv_init stages out scalar)"
proof -
  let ?disp = "dispatch_set stages out"
  let ?g = "dag_build ?disp scalar (length ?disp) stages"
  have rem: "deps_remaining ?g i =
      (if i \<in> set ?disp then Some (card (dep_set stages out scalar i)) else None)" for i
  proof (cases "i \<in> set ?disp")
    case True
    then obtain s where s: "s \<in> set stages" "i = stage_id s" by (auto simp: set_dispatch_set)
    with True dist show ?thesis
      by (simp add: build_deps_remaining dep_set_of_stage distinct_card)
  qed (simp add: build_deps_remaining_None)
  have dist': "distinct (map stage_id (filter P stages))" for P
    using dist by (rule distinct_map_filter)
  have mem: "set (map stage_id (filter (\<lambda>s. stage_id s \<in> set ?disp \<and> P (set (stage_deps ?disp scalar s))) stages))
      = {i \<in> set ?disp. P (dep_set stages out scalar i)}" for P
  proof -
    have "filter (\<lambda>s. stage_id s \<in> set ?disp \<and> P (set (stage_deps ?disp scalar s))) stages =
          filter (\<lambda>s. stage_id s \<in> set ?disp \<and> P (dep_set stages out scalar (stage_id s))) stages"
      by (rule filter_cong) (simp_all add: dep_set_of_stage [OF dist])
    then show ?thesis by (auto simp: set_dispatch_set)
  qed
  have rdy: "set (ready ?g) = {i \<in> set ?disp. dep_set stages out scalar i = {}}"
    using mem [of "\<lambda>d. d = {}"] by (simp add: build_ready)
  have dpd: "set (dependents_of (dependents ?g) d) = {i \<in> set ?disp. d \<in> dep_set stages out scalar i}" for d
    using mem [of "\<lambda>e. d \<in> e"] by (simp add: build_dependents)
  have "distinct (ready ?g)" "\<And>d. distinct (dependents_of (dependents ?g) d)"
    by (simp_all add: build_ready build_dependents dist')
  with rem rdy dpd show ?thesis
    by (simp add: drv_inv_def drv_init_def dag_new_def Let_def length_dispatch_set)
qed

lemma fold_release_dep_rest [simp]:
  "completed (fold release_dep ds g) = completed g"
  "skipped (fold release_dep ds g) = skipped g"
  "total (fold release_dep ds g) = total g"
  "dependents (fold release_dep ds g) = dependents g"
  by (induction ds arbitrary: g) (auto simp: release_dep_def split: option.splits)

lemma fold_release_dep_remaining:
  "distinct ds \<Longrightarrow> deps_remaining (fold release_dep ds g) j =
     (if j \<in> set ds then map_option (\<lambda>r. r - 1) (deps_remaining g j) else deps_remaining g j)"
  by (induction ds arbitrary: g) (auto simp: release_dep_def split: option.splits)

lemma fold_release_dep_ready:
  "distinct ds \<Longrightarrow> ready (fold release_dep ds g) =
     ready g @ filter (\<lambda>d. case deps_remaining g d of None \<Rightarrow> False | Some r \<Rightarrow> r - 1 = 0) ds"
proof (induction ds arbitrary: g)
  case (Cons d ds)
  have "filter (\<lambda>e. case deps_remaining (release_dep d g) e of None \<Rightarrow> False | Some r \<Rightarrow> r - 1 = 0) ds =
        filter (\<lambda>e. case deps_remaining g e of None \<Rightarrow> False | Some r \<Rightarrow> r - 1 = 0) ds"
    using Cons.prems by (intro filter_cong) (auto simp: release_dep_def split: option.splits)
  with Cons show ?case by (auto simp: release_dep_def split: option.splits)
qed simp

lemma complete_alt:
  "deps_remaining g i \<noteq> None \<Longrightarrow> i \<notin> completed g \<Longrightarrow>
   complete i g = fold release_dep (dependents_of (dependents g) i) (g\<lparr>completed := insert i (completed g)\<rparr>)"
  by (auto simp: complete_def dependents_of_def Let_def split: option.splits)

lemma drv_inv_dispatch:
  assumes "drv_inv stages out scalar s" "take_ready (dag s) = (Some i, g)"
  shows "drv_inv stages out scalar (s\<lparr>dag := g, in_flight := insert i (in_flight s)\<rparr>)"
proof -
  from assms(2) obtain rest where r: "ready (dag s) = i # rest" and g: "g = dag s\<lparr>ready := rest\<rparr>"
    by (auto simp: take_ready_def split: list.splits)
  show ?thesis using assms(1) unfolding drv_inv_def Let_def by (auto simp: r g)
qed

lemma drv_inv_complete:
  assumes inv: "drv_inv stages out scalar s" and nr: "ready (dag s) = []" and i: "i \<in> in_flight s"
  shows "drv_inv stages out scalar (s\<lparr>dag := complete i (dag s), in_flight := in_flight s - {i}\<rparr>)"
proof -
  let ?D = "set (dispatch_set stages out)" and ?dp = "dep_set stages out scalar"
  let ?g = "dag s" and ?C = "completed (dag s)"
  let ?ds = "dependents_of (dependents ?g) i"
  have iD: "i \<in> ?D" "?dp i \<subseteq> ?C" and iC: "i \<notin> ?C"
    using inv i by (auto simp: drv_inv_def Let_def)
  have rem: "deps_remaining ?g j = (if j \<in> ?D then Some (card (?dp j - ?C)) else None)" for j
    using inv by (simp add: drv_inv_def Let_def)
  have ds: "distinct ?ds" "set ?ds = {j \<in> ?D. i \<in> ?dp j}"
    using inv by (auto simp: drv_inv_def Let_def)
  have cg: "complete i ?g = fold release_dep ?ds (?g\<lparr>completed := insert i ?C\<rparr>)"
    using iD iC rem by (intro complete_alt) auto
  have one: "card (?dp j - insert i ?C) = card (?dp j - ?C) - (if i \<in> ?dp j then 1 else 0)" for j
    using iC unfolding Diff_insert [of "?dp j" i ?C] by (simp add: card_Diff_singleton_if)
  have rem': "deps_remaining (complete i ?g) j =
      (if j \<in> ?D then Some (card (?dp j - insert i ?C)) else None)" for j
    unfolding cg fold_release_dep_remaining [OF ds(1)] one ds(2) by (simp add: rem)
  have zero: "card (?dp j - ?C) - 1 = 0 \<longleftrightarrow> ?dp j \<subseteq> insert i ?C" if "i \<in> ?dp j" for j
  proof -
    have "card (?dp j - ?C) - 1 = card (?dp j - insert i ?C)" using one [of j] that by simp
    then show ?thesis by (simp add: card_eq_0_iff Diff_eq_empty_iff)
  qed
  have rdy: "set (ready (complete i ?g)) = {j \<in> ?D. i \<in> ?dp j \<and> ?dp j \<subseteq> insert i ?C}"
    using zero unfolding cg fold_release_dep_ready [OF ds(1)] by (auto simp: nr ds(2) rem)
  have rdist: "distinct (ready (complete i ?g))"
    unfolding cg fold_release_dep_ready [OF ds(1)] using ds(1) by (simp add: nr)
  have old: "in_flight s \<union> ?C = {j \<in> ?D. ?dp j \<subseteq> ?C}" "in_flight s \<inter> ?C = {}"
    using inv nr by (auto simp: drv_inv_def Let_def)
  have new: "set (ready (complete i ?g)) \<union> (in_flight s - {i}) \<union> insert i ?C = {j \<in> ?D. ?dp j \<subseteq> insert i ?C}"
    using rdy old(1) i iD by blast
  have disj: "set (ready (complete i ?g)) \<inter> (in_flight s - {i}) = {}"
      "(set (ready (complete i ?g)) \<union> (in_flight s - {i})) \<inter> insert i ?C = {}"
    using rdy old iD iC by blast+
  have rest: "completed (complete i ?g) = insert i ?C" "skipped (complete i ?g) = skipped ?g"
      "total (complete i ?g) = total ?g" "dependents (complete i ?g) = dependents ?g"
    by (simp_all add: cg)
  show ?thesis
    using inv rem' rdist new disj by (simp add: drv_inv_def Let_def rest)
qed

section \<open>Histories of the loop\<close>

lemma completed_complete:
  assumes "drv_inv stages out scalar s" "ready (dag s) = []" "i \<in> in_flight s"
  shows "completed (complete i (dag s)) = insert i (completed (dag s))" and "i \<notin> completed (dag s)"
proof -
  from assms have i: "i \<in> set (dispatch_set stages out)" "i \<notin> completed (dag s)"
    by (auto simp: drv_inv_def Let_def)
  with assms have "deps_remaining (dag s) i \<noteq> None" by (simp add: drv_inv_def Let_def)
  with i show "completed (complete i (dag s)) = insert i (completed (dag s))"
    by (simp add: complete_alt)
  show "i \<notin> completed (dag s)" by (fact i)
qed

lemma take_ready_None [simp]: "take_ready g = (None, g') \<longleftrightarrow> ready g = [] \<and> g' = g"
  by (auto simp: take_ready_def split: list.splits)

lemma take_ready_Nil [simp]: "ready g = [] \<Longrightarrow> take_ready g = (None, g)"
  by simp

lemma take_ready_Some: "take_ready g = (Some i, g') \<longleftrightarrow> (\<exists>r. ready g = i # r \<and> g' = g\<lparr>ready := r\<rparr>)"
  by (auto simp: take_ready_def split: list.splits)

lemma drv_step_running: "drv_step s e t \<Longrightarrow> \<not> stopped s"
  by (auto elim: drv_step.cases)

lemma drv_step_inv:
  assumes step: "drv_step s e t" and inv: "drv_inv stages out scalar s" and hist: "hist_inv es s"
    and run: "\<not> stopped t"
  shows "drv_inv stages out scalar t \<and> hist_inv (es @ [e]) t"
  using step
proof cases
  case (dispatch i g)
  then obtain r where r: "ready (dag s) = i # r" "g = dag s\<lparr>ready := r\<rparr>" by (auto simp: take_ready_Some)
  with inv have "i \<notin> in_flight s" "i \<notin> completed (dag s)" by (auto simp: drv_inv_def Let_def)
  with hist dispatch r have "hist_inv (es @ [e]) t"
    by (auto simp: hist_inv_def dispatched_def oks_def)
  with dispatch inv show ?thesis by (simp add: drv_inv_dispatch)
next
  case (stage_ok g i)
  then have g: "ready (dag s) = []" "g = dag s" by simp_all
  with stage_ok completed_complete [OF inv] hist have "hist_inv (es @ [e]) t"
    by (auto simp: hist_inv_def dispatched_def oks_def)
  with stage_ok g inv show ?thesis by (simp add: drv_inv_complete)
qed (use run in simp_all)

lemma drv_run_running:
  "drv_run s0 es t \<Longrightarrow> \<not> stopped t \<Longrightarrow> drv_inv stages out scalar s0 \<Longrightarrow> hist_inv [] s0 \<Longrightarrow>
     drv_inv stages out scalar t \<and> hist_inv es t"
proof (induction rule: drv_run.induct)
  case (run_snoc s es t e u)
  then have "\<not> stopped t" by (simp add: drv_step_running)
  with run_snoc show ?case using drv_step_inv by blast
qed simp

lemma drv_run_init:
  assumes "distinct (map stage_id stages)" "drv_run (drv_init stages out scalar) es t" "\<not> stopped t"
  shows "drv_inv stages out scalar t" and "hist_inv es t"
proof -
  have "hist_inv [] (drv_init stages out scalar)"
    by (simp add: hist_inv_def dispatched_def oks_def drv_init_def dag_new_def Let_def)
  with drv_run_running [OF assms(2,3) drv_inv_init [OF assms(1)]]
  show "drv_inv stages out scalar t" "hist_inv es t" by blast+
qed

lemma drv_run_snocD:
  "drv_run s (es @ [e]) u \<Longrightarrow> \<exists>t. drv_run s es t \<and> drv_step t e u"
  by (erule drv_run.cases) auto

lemma drv_run_prefix:
  "drv_run s (es @ fs) u \<Longrightarrow> \<exists>t. drv_run s es t"
proof (induction fs arbitrary: u rule: rev_induct)
  case (snoc f fs)
  then show ?case using drv_run_snocD [of s "es @ fs" f u] by auto
qed auto

lemma drv_run_split:
  "drv_run s (es @ e # fs) u \<Longrightarrow> \<exists>t t'. drv_run s es t \<and> drv_step t e t'"
  using drv_run_prefix [of s "es @ [e]" fs u] drv_run_snocD by fastforce

lemma drv_step_iff_exec: "drv_step s e t \<longleftrightarrow> drv_exec s e = Some t"
proof
  show "drv_step s e t \<Longrightarrow> drv_exec s e = Some t"
    by (induction rule: drv_step.induct) simp_all
  show "drv_exec s e = Some t \<Longrightarrow> drv_step s e t"
    by (cases e) (auto split: prod.splits option.splits if_splits intro: drv_step.intros
      simp: stage_err [where sk = "fst (fail _ _)" and g' = "snd (fail _ _)"])
qed

lemma drv_run_append:
  "drv_run t fs u \<Longrightarrow> drv_run s es t \<Longrightarrow> drv_run s (es @ fs) u"
proof (induction rule: drv_run.induct)
  case (run_snoc t fs u e v)
  then show ?case using drv_run.run_snoc [of s "es @ fs" u e v] by simp
qed simp

lemma drv_run_execs: "drv_execs s es = Some t \<Longrightarrow> drv_run s es t"
proof (induction es arbitrary: s)
  case (Cons e es)
  then obtain u where u: "drv_step s e u" "drv_run u es t"
    by (auto simp: drv_step_iff_exec split: option.splits)
  then have "drv_run s [e] u" using run_snoc [OF run_nil] by fastforce
  with u show ?case using drv_run_append by fastforce
qed (simp add: run_nil)

lemma drv_execs_reach:
  "(case drv_execs s es of None \<Rightarrow> False | Some t \<Rightarrow> P t) \<Longrightarrow> \<exists>t. drv_run s es t \<and> P t"
  by (auto intro: drv_run_execs split: option.splits)

section \<open>Failures\<close>







section \<open>Properties\<close>

lemma diamond_distinct [simp]: "distinct (map stage_id diamond)"
  by (simp add: diamond_def)

lemma diamond_acyclic: "acyclic (dep_edges diamond 4 None)"
proof -
  have "dep_edges diamond 4 None \<subseteq> {(d, i). d < i}"
    by (auto simp: dep_edges_def dep_set_def diamond_def stage_deps_def dispatch_set_def Let_def split: if_splits)
  then show ?thesis
    using acyclic_subset wf_acyclic [OF wf_less] by blast
qed

text \<open>
  C9. The driver dispatches a stage only after every stage it depends on has completed, and never
  dispatches a stage twice, whatever the order in which the stages in flight finish.
\<close>

theorem dispatch_after_dependencies:
  assumes "distinct (map stage_id stages)"
    and "drv_run (drv_init stages out scalar) (es @ Dispatch i # fs) t"
  shows "i \<in> set (dispatch_set stages out) \<and> dep_set stages out scalar i \<subseteq> set (oks es) \<and>
         i \<notin> set (dispatched es)"
proof -
  obtain u u' where u: "drv_run (drv_init stages out scalar) es u" and st: "drv_step u (Dispatch i) u'"
    using drv_run_split [OF assms(2)] by blast
  note inv = drv_run_init [OF assms(1) u drv_step_running [OF st]]
  from st obtain r where "ready (dag u) = i # r"
    by (auto elim!: drv_step_DispatchE simp: take_ready_Some)
  with inv show ?thesis by (auto simp: drv_inv_def hist_inv_def Let_def)
qed

lemma diamond_run_dispatch:
  "\<exists>t. drv_run (drv_init diamond 4 None)
     ([Dispatch 0, StageOk 0, Dispatch 1, Dispatch 2, StageOk 2, StageOk 1] @ Dispatch 3 # []) t \<and> True"
  by (rule drv_execs_reach) code_simp

theorem dispatch_after_dependencies_witness:
  "3 \<in> set (dispatch_set diamond 4) \<and> dep_set diamond 4 None 3 \<subseteq> {0, 1, 2}"
proof -
  let ?es = "[Dispatch 0, StageOk 0, Dispatch 1, Dispatch 2, StageOk 2, StageOk 1]"
  obtain t where "drv_run (drv_init diamond 4 None) (?es @ Dispatch 3 # []) t"
    using diamond_run_dispatch by blast
  then have "3 \<in> set (dispatch_set diamond 4) \<and> dep_set diamond 4 None 3 \<subseteq> set (oks ?es)"
    using dispatch_after_dependencies [OF diamond_distinct] by blast
  then show ?thesis by (auto simp: oks_def)
qed

text \<open>
  C31. The loop ends: a history has at most two events per dispatched stage, and one more that stops it.
\<close>

theorem drv_run_bounded:
  assumes "distinct (map stage_id stages)" and "drv_run (drv_init stages out scalar) es t"
  shows "length es \<le> 2 * length (dispatch_set stages out) + 1"
proof -
  have running: "length fs \<le> 2 * length (dispatch_set stages out)"
    if "drv_run (drv_init stages out scalar) fs u" "\<not> stopped u" for fs u
  proof -
    note inv = drv_run_init [OF assms(1) that]
    then have "set (dispatched fs) \<subseteq> set (dispatch_set stages out)" "set (oks fs) \<subseteq> set (dispatch_set stages out)"
      by (auto simp: drv_inv_def hist_inv_def Let_def)
    then have "card (set (dispatched fs)) \<le> length (dispatch_set stages out)"
        "card (set (oks fs)) \<le> length (dispatch_set stages out)"
      unfolding length_dispatch_set by (simp_all add: card_mono)
    moreover have "card (set (dispatched fs)) = length (dispatched fs)" "card (set (oks fs)) = length (oks fs)"
      using inv(2) unfolding hist_inv_def by (metis distinct_card)+
    ultimately show ?thesis using inv(2) by (simp add: hist_inv_def)
  qed
  from assms(2) show ?thesis
  proof cases
    case (run_snoc fs u e)
    then show ?thesis using running [of fs u] drv_step_running by fastforce
  qed simp
qed

theorem drv_run_bounded_witness:
  "\<exists>t. drv_run (drv_init diamond 4 None) [Dispatch 0, StageOk 0] t \<and>
       length [Dispatch 0, StageOk 0] \<le> 2 * length (dispatch_set diamond 4) + 1"
proof -
  have "\<exists>t. drv_run (drv_init diamond 4 None) [Dispatch 0, StageOk 0] t \<and> True"
    by (rule drv_execs_reach) code_simp
  then obtain t where "drv_run (drv_init diamond 4 None) [Dispatch 0, StageOk 0] t" by blast
  then show ?thesis using drv_run_bounded [OF diamond_distinct] by blast
qed

text \<open>
  C10. When the loop drains without an error and the dependencies have no cycle, every stage but the
  output stage has completed and the loop returns \<^verbatim>\<open>Ok\<close>; so the cycle error is raised only for a cycle.
\<close>

theorem drained_all_completed:
  assumes "distinct (map stage_id stages)" and "acyclic (dep_edges stages out scalar)"
    and "drv_run (drv_init stages out scalar) es t" and "drv_drained t"
  shows "completed (dag t) = stage_id ` set stages - {out} \<and> drv_result t = Some (Inr ())"
proof -
  have inv: "drv_inv stages out scalar t"
    using drv_run_init [OF assms(1,3)] assms(4) by (simp add: drv_drained_def)
  then have fp: "completed (dag t) = {i \<in> set (dispatch_set stages out). dep_set stages out scalar i \<subseteq> completed (dag t)}"
    using assms(4) by (auto simp: drv_inv_def drv_drained_def Let_def)
  have "finite (dep_edges stages out scalar)"
    by (rule finite_subset [of _ "set (dispatch_set stages out) \<times> set (dispatch_set stages out)"])
      (auto simp: dep_edges_def dest: subsetD [OF dep_set_subset])
  then have "wf (dep_edges stages out scalar)" using assms(2) by (rule finite_acyclic_wf)
  then have "i \<in> set (dispatch_set stages out) \<longrightarrow> i \<in> completed (dag t)" for i
  proof (induction i rule: wf_induct_rule)
    case (less i)
    have "dep_set stages out scalar i \<subseteq> completed (dag t)" if "i \<in> set (dispatch_set stages out)"
      using less that dep_set_subset [of stages out scalar i] by (auto simp: dep_edges_def)
    then show ?case using fp by blast
  qed
  with fp have "completed (dag t) = set (dispatch_set stages out)" by blast
  then show ?thesis
    using inv by (simp add: drv_inv_def Let_def drv_result_def unfinished_def set_dispatch_set)
qed

lemma diamond_run_drained:
  "\<exists>t. drv_run (drv_init diamond 4 None)
     [Dispatch 0, StageOk 0, Dispatch 1, Dispatch 2, StageOk 2, StageOk 1, Dispatch 3, StageOk 3] t \<and>
     ready (dag t) = [] \<and> \<not> stopped t \<and> Set.is_empty (in_flight t)"
  by (rule drv_execs_reach) code_simp

theorem drained_all_completed_witness:
  "\<exists>es t. drv_run (drv_init diamond 4 None) es t \<and> drv_drained t \<and> completed (dag t) = {0, 1, 2, 3}"
proof -
  obtain es t where t: "drv_run (drv_init diamond 4 None) es t" "drv_drained t"
    using diamond_run_drained by (auto simp: drv_drained_def Set.is_empty_iff)
  have "completed (dag t) = stage_id ` set diamond - {4}"
    using drained_all_completed [OF diamond_distinct diamond_acyclic t] by blast
  also have "\<dots> = {0, 1, 2, 3}" by (simp add: diamond_def) auto
  finally show ?thesis using t by blast
qed




end
