(* ===== verification/Cluster_Membership.thy ===== *)
theory Cluster_Membership
  imports Oxidant_Prelude "HOL-Library.List_Lexorder" "HOL-Library.Char_ord" "HOL-Library.Multiset"
begin

text \<open>
  The worker set behind a distributed query: \<^verbatim>\<open>oxidant-execution/src/membership.rs\<close>,
  \<^verbatim>\<open>lineage.rs\<close> and the \<^verbatim>\<open>Cluster\<close> snapshot of \<^verbatim>\<open>driver.rs\<close>.

  \<^item> \<open>rendezvous_weight\<close> is FNV-1a on 64-bit words; \<open>owner_of\<close> picks the endpoint of largest weight.
  \<^item> The trait \<^verbatim>\<open>ClusterMembership\<close> is the locale \<open>worker_view\<close>, interpreted for the static list and for
    the time-limited cache over it.
  \<^item> The environment is a parameter \<open>env\<close>, and the \<^verbatim>\<open>Debug\<close> text of a list of endpoints a parameter
    \<open>dbg\<close> of the error messages that print one.
\<close>

section \<open>Ownership\<close>

definition fnv_offset :: "64 word" where "fnv_offset = 0xcbf29ce484222325"
definition fnv_prime :: "64 word" where "fnv_prime = 0x00000100000001b3"

unbundle bit_operations_syntax

definition fnv_step :: "64 word \<Rightarrow> 64 word \<Rightarrow> 64 word" where
  "fnv_step h b = (h XOR b) * fnv_prime"

definition u32_le_bytes :: "nat \<Rightarrow> 64 word list" where
  "u32_le_bytes p =
     [word_of_nat (p mod 256), word_of_nat (p div 256 mod 256),
      word_of_nat (p div 65536 mod 256), word_of_nat (p div 16777216 mod 256)]"

definition rendezvous_weight :: "string \<Rightarrow> nat \<Rightarrow> 64 word" where
  "rendezvous_weight endpoint p =
     (let h = foldl fnv_step fnv_offset (map (\<lambda>c. word_of_nat (of_char c)) endpoint)
      in foldl fnv_step h (u32_le_bytes p))"

text \<open>\<^verbatim>\<open>Iterator::max_by_key\<close>: the last of the maximal elements.\<close>

fun max_by_key :: "('a \<Rightarrow> 'b::linorder) \<Rightarrow> 'a list \<Rightarrow> 'a option" where
  "max_by_key f [] = None"
| "max_by_key f (x # xs) =
     (case max_by_key f xs of
        None \<Rightarrow> Some x
      | Some y \<Rightarrow> if f x \<le> f y then Some y else Some x)"

definition owner_of :: "string list \<Rightarrow> nat \<Rightarrow> nat \<Rightarrow> string option" where
  "owner_of eps p np =
     (if eps = [] \<or> np = 0 then None
      else max_by_key (\<lambda>ep. rendezvous_weight ep p) eps)"

section \<open>The static list and the cache\<close>

record static_membership =
  s_endpoints :: "string list"

definition static_endpoints :: "static_membership \<Rightarrow> string list" where
  "static_endpoints m = s_endpoints m"

text \<open>
  Times are milliseconds of a monotonic clock. The view behind the cache is what it answers at each
  time: a constant for the static list, the DNS answers (code outside the repository) for Kubernetes.
  \<^verbatim>\<open>new\<close> reads the limit from the environment.
\<close>

record refreshing_membership =
  inner :: "nat \<Rightarrow> string list"
  ttl :: nat
  refreshed_at :: nat
  cache :: "string list"

definition membership_ttl :: "(string \<Rightarrow> string option) \<Rightarrow> nat" where
  "membership_ttl env =
     (case Option.bind (env ''OXIDANT_MEMBERSHIP_TTL_MS'') parse_u64 of None \<Rightarrow> 2000 | Some t \<Rightarrow> t)"

definition refreshing_new ::
  "(string \<Rightarrow> string option) \<Rightarrow> nat \<Rightarrow> (nat \<Rightarrow> string list) \<Rightarrow> refreshing_membership" where
  "refreshing_new env now m = \<lparr>inner = m, ttl = membership_ttl env, refreshed_at = now, cache = []\<rparr>"

text \<open>\<open>now\<close> is read by \<^verbatim>\<open>elapsed\<close> and \<open>now'\<close> by \<^verbatim>\<open>Instant::now\<close> after the inner view was consulted.\<close>

definition refresh_if_needed ::
  "nat \<Rightarrow> nat \<Rightarrow> refreshing_membership \<Rightarrow> string list \<times> refreshing_membership" where
  "refresh_if_needed now now' m =
     (let m' = (if cache m = [] \<or> ttl m \<le> now - refreshed_at m
                then m\<lparr>cache := inner m now, refreshed_at := now'\<rparr> else m)
      in (cache m', m'))"

definition resolve_membership ::
  "(string \<Rightarrow> string option) \<Rightarrow> (nat \<Rightarrow> string list) option \<Rightarrow> nat \<Rightarrow> string list \<Rightarrow> refreshing_membership" where
  "resolve_membership env k8s now static_workers =
     (if static_workers \<noteq> [] then refreshing_new env now (\<lambda>_. static_endpoints \<lparr>s_endpoints = static_workers\<rparr>)
      else (case k8s of
              Some view \<Rightarrow> refreshing_new env now view
            | None \<Rightarrow> refreshing_new env now (\<lambda>_. static_endpoints \<lparr>s_endpoints = []\<rparr>)))"

section \<open>The cluster snapshot\<close>

definition env_u32_pos :: "(string \<Rightarrow> string option) \<Rightarrow> string \<Rightarrow> nat option" where
  "env_u32_pos env k =
     (case Option.bind (env k) parse_u32 of Some n \<Rightarrow> if n > 0 then Some n else None | None \<Rightarrow> None)"

definition DEFAULT_SHUFFLE_PARTITIONS_FLOOR :: nat where
  "DEFAULT_SHUFFLE_PARTITIONS_FLOOR = 200"

definition default_shuffle_partitions :: "(string \<Rightarrow> string option) \<Rightarrow> nat \<Rightarrow> nat" where
  "default_shuffle_partitions env worker_count =
     (let workers = max worker_count 1 mod 2 ^ 32;
          worker_vcpus =
            (case env_u32_pos env ''OXIDANT_WORKER_VCPUS'' of
               Some n \<Rightarrow> n
             | None \<Rightarrow>
                 (case env_u32_pos env ''OXIDANT_WORKER_CORES'' of
                    Some cores \<Rightarrow> min (cores * workers) (2 ^ 32 - 1)
                  | None \<Rightarrow> workers))
      in max (max DEFAULT_SHUFFLE_PARTITIONS_FLOOR worker_vcpus) workers)"

definition shuffle_partitions :: "(string \<Rightarrow> string option) \<Rightarrow> nat \<Rightarrow> nat" where
  "shuffle_partitions env worker_count =
     (case env_u32_pos env ''OXIDANT_SHUFFLE_PARTITIONS'' of
        Some n \<Rightarrow> n
      | None \<Rightarrow>
          (case env_u32_pos env ''OXIDANT_DEFAULT_PARALLELISM'' of
             Some n \<Rightarrow> n
           | None \<Rightarrow> default_shuffle_partitions env worker_count))"

definition expected_worker_count_from_env :: "(string \<Rightarrow> string option) \<Rightarrow> nat option" where
  "expected_worker_count_from_env env =
     (case Option.bind (env ''OXIDANT_WORKER_COUNT'') parse_u64 of
        Some n \<Rightarrow> if n > 0 then Some n else None
      | None \<Rightarrow> None)"

record cluster =
  workers :: "string list"
  num_partitions :: nat
  expected_worker_count :: "nat option"
  membership :: refreshing_membership

text \<open>\<^verbatim>\<open>Cluster::from_membership\<close>, at the clock readings of the snapshot.\<close>

definition cluster_from_membership ::
  "(string \<Rightarrow> string option) \<Rightarrow> nat \<Rightarrow> nat \<Rightarrow> refreshing_membership \<Rightarrow> cluster" where
  "cluster_from_membership env now now' m =
     (let (ws, m') = refresh_if_needed now now' m
      in \<lparr>workers = ws, num_partitions = shuffle_partitions env (length ws),
          expected_worker_count = expected_worker_count_from_env env, membership = m'\<rparr>)"

definition owner_endpoint :: "nat \<Rightarrow> nat \<Rightarrow> cluster \<Rightarrow> nat \<Rightarrow> string result \<times> cluster" where
  "owner_endpoint now now' c p =
     (let (eps, m') = refresh_if_needed now now' (membership c)
      in ((case owner_of eps p (num_partitions c) of
             Some ep \<Rightarrow> Inr ep
           | None \<Rightarrow> Inl (Execution (''no owner for partition '' @ show_nat p))),
          c\<lparr>membership := m'\<rparr>))"

definition check_shard_modulus :: "cluster \<Rightarrow> unit result" where
  "check_shard_modulus c =
     (case expected_worker_count c of
        None \<Rightarrow> Inr ()
      | Some expected \<Rightarrow>
          if length (workers c) \<noteq> expected
          then Inl (Execution (''driver worker fan-out ('' @ show_nat (length (workers c)) @
                 '') does not match OXIDANT_WORKER_COUNT ('' @ show_nat expected @
                 ''); workers shard files as i-of-'' @ show_nat expected @
                 '', so continuing would silently drop data''))
          else Inr ())"

definition same_endpoint_set :: "string list \<Rightarrow> string list \<Rightarrow> bool" where
  "same_endpoint_set a b \<longleftrightarrow> (if length a \<noteq> length b then False else sort a = sort b)"

definition ensure_stable_membership ::
  "(string list \<Rightarrow> string) \<Rightarrow> nat \<Rightarrow> nat \<Rightarrow> cluster \<Rightarrow> string list \<Rightarrow> unit result \<times> cluster" where
  "ensure_stable_membership dbg now now' c planned =
     (let (fresh, m') = refresh_if_needed now now' (membership c); c' = c\<lparr>membership := m'\<rparr>
      in if fresh = [] then
           (Inl (Execution ''cluster membership became empty mid-query; refusing to continue''), c')
         else if \<not> same_endpoint_set fresh planned then
           (Inl (Execution (''cluster membership changed mid-query: expected '' @ dbg planned @
              '', observed '' @ dbg fresh @
              ''; refusing to continue to avoid silent shuffle row loss'')), c')
         else (Inr (), c'))"

section \<open>Lineage\<close>

record producer_key =
  pk_stage_id :: nat
  pk_partition_id :: nat

type_synonym stage_lineage = "producer_key \<rightharpoonup> string"

definition record_producer :: "nat \<Rightarrow> nat \<Rightarrow> string \<Rightarrow> stage_lineage \<Rightarrow> stage_lineage" where
  "record_producer stage p endpoint l =
     l(\<lparr>pk_stage_id = stage, pk_partition_id = p\<rparr> \<mapsto> endpoint)"

definition producer_endpoint :: "nat \<Rightarrow> nat \<Rightarrow> stage_lineage \<Rightarrow> string option" where
  "producer_endpoint stage p l = l \<lparr>pk_stage_id = stage, pk_partition_id = p\<rparr>"

section \<open>Facts about \<open>max_by_key\<close>\<close>

lemma max_by_key_None [simp]: "max_by_key f xs = None \<longleftrightarrow> xs = []"
  by (cases xs) (auto split: option.splits)

lemma max_by_key_Some:
  "max_by_key f xs = Some y \<Longrightarrow> y \<in> set xs \<and> (\<forall>x \<in> set xs. f x \<le> f y)"
proof (induction xs arbitrary: y)
  case (Cons x xs)
  show ?case
  proof (cases "max_by_key f xs")
    case (Some z)
    with Cons.IH [OF Some] Cons.prems show ?thesis by (force split: if_splits)
  qed (use Cons.prems in simp)
qed simp

lemma max_by_key_removeAll:
  "max_by_key f xs = Some y \<Longrightarrow> x \<noteq> y \<Longrightarrow> max_by_key f (removeAll x xs) = Some y"
proof (induction xs arbitrary: y)
  case (Cons z xs)
  show ?case
  proof (cases "max_by_key f xs")
    case None
    with Cons.prems show ?thesis by auto
  next
    case (Some w)
    show ?thesis
    proof (cases "f z \<le> f w")
      case True
      with Some Cons.prems have "w = y" by simp
      with Cons.IH [of w] Some Cons.prems True show ?thesis by auto
    next
      case False
      with Some Cons.prems have y: "y = z" by simp
      have "\<forall>v \<in> set (removeAll x xs). \<not> f z \<le> f v"
        using max_by_key_Some [OF Some] False by fastforce
      then have "max_by_key f (removeAll x xs) = Some v \<Longrightarrow> \<not> f z \<le> f v" for v
        using max_by_key_Some by fastforce
      with y Cons.prems show ?thesis by (auto split: option.splits)
    qed
  qed
qed simp

lemma max_by_key_insert:
  "max_by_key f (as @ x # bs) = Some y \<Longrightarrow> y = x \<or> max_by_key f (as @ bs) = Some y"
proof (induction as arbitrary: y)
  case (Cons a as)
  obtain w where w: "max_by_key f (as @ x # bs) = Some w"
    by (cases "max_by_key f (as @ x # bs)") auto
  show ?case
  proof (cases "w = x")
    case False
    with Cons.IH [OF w] w Cons.prems show ?thesis by (auto split: if_splits)
  next
    case True
    show ?thesis
    proof (cases "f a \<le> f x")
      case True
      with \<open>w = x\<close> w Cons.prems show ?thesis by simp
    next
      case False
      with \<open>w = x\<close> w Cons.prems have y: "y = a" by simp
      have "max_by_key f (as @ bs) = Some v \<Longrightarrow> \<not> f a \<le> f v" for v
        using max_by_key_Some [OF w] max_by_key_Some [of f "as @ bs" v] \<open>w = x\<close> False
        by (auto dest: order_trans)
      with y show ?thesis by (auto split: option.splits)
    qed
  qed
qed (auto split: option.splits if_splits)

lemma max_by_key_perm:
  assumes "set xs = set ys" "inj_on f (set xs)"
  shows "max_by_key f xs = max_by_key f ys"
proof (cases "max_by_key f xs")
  case None
  with assms show ?thesis by simp
next
  case (Some x)
  then obtain y where y: "max_by_key f ys = Some y"
    using assms by (cases "max_by_key f ys") auto
  have "f x = f y" using max_by_key_Some [OF Some] max_by_key_Some [OF y] assms by (auto intro: antisym)
  with assms max_by_key_Some [OF Some] max_by_key_Some [OF y] have "x = y" by (auto dest: inj_onD)
  with Some y show ?thesis by simp
qed

section \<open>The view as an interface\<close>

text \<open>
  What the driver relies on between the plan and the last stage: a view that gave a non-empty answer
  gives the same answer again while that answer is fresh.
\<close>

locale worker_view =
  fixes view :: "nat \<Rightarrow> nat \<Rightarrow> 'st \<Rightarrow> string list \<times> 'st"
    and fresh :: "nat \<Rightarrow> 'st \<Rightarrow> bool"
  assumes view_again: "view t t' st = (eps, st') \<Longrightarrow> eps \<noteq> [] \<Longrightarrow> fresh u st' \<Longrightarrow> view u u' st' = (eps, st')"
begin

lemma poll_constant:
  assumes "view t t' st = (eps, st')" "eps \<noteq> []"
  shows "\<forall>(u, u') \<in> set us. fresh u st' \<Longrightarrow>
    fold (\<lambda>(u, u') (ok, s). (ok \<and> fst (view u u' s) = eps, snd (view u u' s))) us (True, st') = (True, st')"
proof (induction us)
  case (Cons x us)
  then show ?case using view_again [OF assms] by (cases x) simp
qed simp

lemma owner_constant:
  "view t t' st = (eps, st') \<Longrightarrow> eps \<noteq> [] \<Longrightarrow> fresh u st' \<Longrightarrow>
     owner_of (fst (view u u' st')) p np = owner_of eps p np"
  by (simp add: view_again)

end

interpretation static_view: worker_view "\<lambda>_ _ m. (static_endpoints m, m)" "\<lambda>_ _. True"
  by unfold_locales simp

interpretation refreshing_view: worker_view refresh_if_needed "\<lambda>u m. u - refreshed_at m < ttl m"
  by unfold_locales (auto simp: refresh_if_needed_def Let_def split: if_splits)

section \<open>Properties\<close>

lemma owner_of_Some:
  "owner_of eps p np = Some e \<longleftrightarrow> np \<noteq> 0 \<and> max_by_key (\<lambda>ep. rendezvous_weight ep p) eps = Some e"
  by (auto simp: owner_of_def)

lemma rendezvous_weight_example:
  "rendezvous_weight ''a:1'' 0 = 18063370008532866425"
  "rendezvous_weight ''b:1'' 0 = 12203650460660839892"
  "rendezvous_weight ''c:1'' 0 = 10240530658366661659"
  "rendezvous_weight ''a:1'' 3 = 11144341282837598730"
  "rendezvous_weight ''b:1'' 3 = 9893308357284588423"
  "rendezvous_weight ''c:1'' 3 = 12550872761742913128"
  by (simp_all add: rendezvous_weight_def fnv_step_def fnv_offset_def fnv_prime_def u32_le_bytes_def)

lemma owner_of_example:
  "owner_of [''a:1'', ''b:1'', ''c:1''] 0 8 = Some ''a:1''"
  "owner_of [''a:1'', ''b:1'', ''c:1''] 3 8 = Some ''c:1''"
  "rendezvous_weight ''a:1'' 0 \<noteq> rendezvous_weight ''b:1'' 0"
  by (simp_all add: owner_of_def rendezvous_weight_example)

text \<open>
  C29. When a worker leaves, every partition it did not own keeps its owner.
\<close>

theorem owner_of_removal:
  assumes "owner_of eps p np = Some e" and "x \<noteq> e"
  shows "owner_of (removeAll x eps) p np = Some e"
  using assms by (simp add: owner_of_Some max_by_key_removeAll)

theorem owner_of_removal_witness:
  "owner_of (removeAll ''b:1'' [''a:1'', ''b:1'', ''c:1'']) 3 8 = Some ''c:1''"
  using owner_of_removal [OF owner_of_example(2), of "''b:1''"] by simp

text \<open>
  When a worker joins, a partition moves to it or stays where it was: no partition moves between
  the workers that were there before.
\<close>

theorem owner_of_join:
  assumes "owner_of (as @ x # bs) p np = Some e"
  shows "e = x \<or> owner_of (as @ bs) p np = Some e"
  using assms max_by_key_insert [of "\<lambda>ep. rendezvous_weight ep p" as x bs e]
  by (auto simp: owner_of_Some)

theorem owner_of_join_witness:
  "owner_of ([''a:1''] @ [''c:1'']) 0 8 = Some ''a:1''"
  using owner_of_join [of "[''a:1'']" "''b:1''" "[''c:1'']" 0 8 "''a:1''"] owner_of_example(1) by simp

text \<open>
  A membership that passes the comparison of \<^verbatim>\<open>same_endpoint_set\<close> has the planned endpoints with
  their multiplicities, in any order, and gives every partition the planned owner as long as no
  two endpoints have the same weight for it.
\<close>

theorem same_endpoint_set_owner:
  assumes "same_endpoint_set a b"
  shows "mset a = mset b \<and>
    (inj_on (\<lambda>ep. rendezvous_weight ep p) (set a) \<longrightarrow> owner_of a p np = owner_of b p np)"
proof -
  from assms have m: "mset a = mset b"
    unfolding same_endpoint_set_def by (metis mset_sort)
  then have "set a = set b" using mset_eq_setD by blast
  then have "inj_on (\<lambda>ep. rendezvous_weight ep p) (set a) \<longrightarrow> owner_of a p np = owner_of b p np"
    using max_by_key_perm [of a b "\<lambda>ep. rendezvous_weight ep p"] by (auto simp: owner_of_def)
  with m show ?thesis by blast
qed

theorem same_endpoint_set_owner_witness:
  "owner_of [''a:1'', ''b:1''] 0 4 = owner_of [''b:1'', ''a:1''] 0 4"
proof -
  have "same_endpoint_set [''a:1'', ''b:1''] [''b:1'', ''a:1'']" by code_simp
  moreover have "inj_on (\<lambda>ep. rendezvous_weight ep 0) (set [''a:1'', ''b:1''])"
    using owner_of_example(3) by simp
  ultimately show ?thesis using same_endpoint_set_owner by blast
qed

text \<open>
  Within the time limit of the cache, a query planned on a non-empty snapshot passes every
  membership check whatever the view behind the cache answers meanwhile, and the shard check it passed
  once it passes again.
\<close>

theorem snapshot_stable_within_ttl:
  assumes "c = cluster_from_membership env now now' m" and "workers c \<noteq> []"
    and "u - refreshed_at (membership c) < ttl (membership c)"
  shows "ensure_stable_membership dbg u u' c (workers c) = (Inr (), c)"
proof -
  obtain ws m' where r: "refresh_if_needed now now' m = (ws, m')" by fastforce
  with assms(1) have c: "workers c = ws" "membership c = m'"
    by (simp_all add: cluster_from_membership_def)
  with assms have "refresh_if_needed u u' m' = (ws, m')"
    using refreshing_view.view_again [OF r] by simp
  with c assms(2) show ?thesis
    by (cases c) (simp add: ensure_stable_membership_def same_endpoint_set_def)
qed

theorem snapshot_stable_within_ttl_witness:
  "ensure_stable_membership concat 1500 1500
     (cluster_from_membership (\<lambda>_. None) 0 0 (resolve_membership (\<lambda>_. None) None 0 [''a:1'']))
     [''a:1''] = (Inr (), cluster_from_membership (\<lambda>_. None) 0 0 (resolve_membership (\<lambda>_. None) None 0 [''a:1'']))"
proof -
  let ?c = "cluster_from_membership (\<lambda>_. None) 0 0 (resolve_membership (\<lambda>_. None) None 0 [''a:1''])"
  have c: "workers ?c = [''a:1'']" "refreshed_at (membership ?c) = 0" "ttl (membership ?c) = 2000"
    by (simp_all add: cluster_from_membership_def resolve_membership_def refreshing_new_def
      refresh_if_needed_def static_endpoints_def membership_ttl_def)
  show ?thesis
    using snapshot_stable_within_ttl [OF refl, of "\<lambda>_. None" 0 0 "resolve_membership (\<lambda>_. None) None 0 [''a:1'']" 1500 concat 1500] c
    by simp
qed

lemma env_u32_pos_bound:
  assumes "env_u32_pos env k = Some v" shows "0 < v \<and> v < 2 ^ 32"
proof -
  from assms obtain t where "parse_u32 t = Some v" "0 < v"
    by (cases "env k") (auto simp: env_u32_pos_def split: option.splits if_splits)
  with parse_unsigned_bound [of u32_max t v] show ?thesis by simp
qed

lemma default_shuffle_partitions_bound:
  "0 < default_shuffle_partitions env n \<and> default_shuffle_partitions env n < 2 ^ 32"
proof -
  define w where "w = max n 1 mod 2 ^ 32"
  have w: "w < 2 ^ 32" by (simp add: w_def)
  have mx: "0 < max (max DEFAULT_SHUFFLE_PARTITIONS_FLOOR v) w \<and>
      max (max DEFAULT_SHUFFLE_PARTITIONS_FLOOR v) w < 2 ^ 32" if "v < 2 ^ 32" for v
    using w that by (simp add: DEFAULT_SHUFFLE_PARTITIONS_FLOOR_def)
  have mn: "min x (2 ^ 32 - 1) < (2 ^ 32 :: nat)" for x by (simp add: min_def)
  show ?thesis
    unfolding default_shuffle_partitions_def Let_def w_def [symmetric]
    using mn w env_u32_pos_bound by (intro mx) (simp only: split: option.split, blast)
qed

text \<open>
  A query always has at least one shuffle partition, and the count fits its 32-bit field.
\<close>

theorem shuffle_partitions_pos: "0 < shuffle_partitions env n \<and> shuffle_partitions env n < 2 ^ 32"
  using default_shuffle_partitions_bound env_u32_pos_bound
  unfolding shuffle_partitions_def by (simp only: split: option.splits) blast

end
