(* ===== verification/Aqe.thy ===== *)
theory Aqe
  imports Stage_Plan Cluster_Membership
begin

text \<open>
  Adaptive coalescing of shuffle reads (\<^verbatim>\<open>oxidant-execution/src/aqe.rs\<close>) and the stage barrier of
  \<^verbatim>\<open>driver.rs\<close> that samples a stage's buckets, decides a read modulus and records the exact totals.

  Row and byte counts are natural numbers: their sums stay far below 64 bits. The casts to 32 bits of
  \<^verbatim>\<open>coalesced_partitions\<close> are written out, and its \<^verbatim>\<open>clamp\<close>, which panics on an empty range, is the
  \<^const>\<open>None\<close> of its result; the code's own \<^verbatim>\<open>Result\<close> is always \<^verbatim>\<open>Ok\<close>.
\<close>

section \<open>Switches\<close>

definition env_switch :: "(string \<Rightarrow> string option) \<Rightarrow> string \<Rightarrow> bool" where
  "env_switch env k =
     (case env k of
        None \<Rightarrow> True
      | Some v \<Rightarrow> \<not> (v = ''0'' \<or> eq_ignore_ascii_case v ''false'' \<or> eq_ignore_ascii_case v ''off'' \<or>
                   eq_ignore_ascii_case v ''no''))"

definition aqe_enabled :: "(string \<Rightarrow> string option) \<Rightarrow> bool" where
  "aqe_enabled env = env_switch env ''OXIDANT_AQE''"

definition stage_input_stats_enabled :: "(string \<Rightarrow> string option) \<Rightarrow> bool" where
  "stage_input_stats_enabled env = env_switch env ''OXIDANT_STAGE_INPUT_STATS''"

definition concentrated_coalesce_enabled :: "(string \<Rightarrow> string option) \<Rightarrow> bool" where
  "concentrated_coalesce_enabled env = env_switch env ''OXIDANT_AQE_CONCENTRATED''"

definition aqe_coalesce_max_rows :: "(string \<Rightarrow> string option) \<Rightarrow> nat" where
  "aqe_coalesce_max_rows env =
     (case Option.bind (env ''OXIDANT_AQE_COALESCE_MAX_ROWS'') parse_u64 of None \<Rightarrow> 4096 | Some n \<Rightarrow> n)"

definition DEFAULT_AQE_ADVISORY_PARTITION_BYTES :: nat where
  "DEFAULT_AQE_ADVISORY_PARTITION_BYTES = 64 * 1024 * 1024"

definition AQE_ADVISORY_ROW_WIDTH_BYTES :: nat where
  "AQE_ADVISORY_ROW_WIDTH_BYTES = 64"

definition aqe_advisory_partition_bytes :: "(string \<Rightarrow> string option) \<Rightarrow> nat" where
  "aqe_advisory_partition_bytes env =
     (case Option.bind (env ''OXIDANT_AQE_ADVISORY_PARTITION_BYTES'') parse_u64 of
        Some n \<Rightarrow> if n > 0 then n else DEFAULT_AQE_ADVISORY_PARTITION_BYTES
      | None \<Rightarrow> DEFAULT_AQE_ADVISORY_PARTITION_BYTES)"

definition aqe_advisory_partition_rows :: "(string \<Rightarrow> string option) \<Rightarrow> nat" where
  "aqe_advisory_partition_rows env = aqe_advisory_partition_bytes env div AQE_ADVISORY_ROW_WIDTH_BYTES"

section \<open>The decision\<close>

text \<open>\<^verbatim>\<open>Iterator::step_by\<close>: the first element and then every \<open>m\<close>-th.\<close>

fun step_by :: "nat \<Rightarrow> 'a list \<Rightarrow> 'a list" where
  "step_by m [] = []"
| "step_by m (x # xs) = x # step_by m (drop (m - 1) xs)"

definition worst_coalesced_load :: "nat list \<Rightarrow> nat \<Rightarrow> nat" where
  "worst_coalesced_load counts m =
     (let m = max m 1 in
      foldr max (map (\<lambda>p. sum_list (step_by m (drop p counts))) [0..<m]) 0)"

definition coalesced_read_buckets :: "nat \<Rightarrow> nat \<Rightarrow> nat \<Rightarrow> nat list" where
  "coalesced_read_buckets np m p =
     (let m = max m 1 in if p \<ge> m then [] else step_by m [p..<np])"

text \<open>\<^verbatim>\<open>Ord::clamp\<close>, which panics unless \<open>lo \<le> hi\<close>.\<close>

definition clamp :: "nat \<Rightarrow> nat \<Rightarrow> nat \<Rightarrow> nat option" where
  "clamp x lo hi = (if lo \<le> hi then Some (if x < lo then lo else if x > hi then hi else x) else None)"

definition coalesced_partitions ::
  "(string \<Rightarrow> string option) \<Rightarrow> nat \<Rightarrow> nat \<Rightarrow> nat list \<Rightarrow> nat option" where
  "coalesced_partitions env num_workers current counts =
     (if \<not> aqe_enabled env then Some current
      else if counts = [] then Some current
      else
        let max_rows = aqe_coalesce_max_rows env; total = sum_list counts in
        if total = 0 then Some 1
        else
          let max_bucket = foldr max counts 0;
              floor = max num_workers 1 mod 2 ^ 32;
              declined = ((max_bucket * 3 > total \<and> length counts > 2) \<or> max_bucket > max_rows \<or>
                          length counts \<le> floor)
          in if \<not> declined then
               (let rows_per_part = max (aqe_advisory_partition_rows env) 1;
                    target = (total + rows_per_part - 1) div rows_per_part mod 2 ^ 32
                in clamp target floor current)
             else if \<not> concentrated_coalesce_enabled env then Some current
             else (case List.find (\<lambda>m. worst_coalesced_load counts m \<le> max_bucket) [floor..<current] of
                     None \<Rightarrow> Some current
                   | Some m \<Rightarrow> Some m))"

section \<open>The stage barrier\<close>

record bucket_sample =
  bs_rows :: "nat list"
  bs_bytes :: "nat list option"

record stage_totals =
  st_rows :: nat
  st_bytes :: "nat option"

type_synonym worker_samples = "(string \<times> bucket_sample option) list"

definition sample_per_worker_bucket_counts ::
  "(string \<Rightarrow> bucket_sample option) \<Rightarrow> string list \<Rightarrow> worker_samples" where
  "sample_per_worker_bucket_counts rpc ws = fold (\<lambda>ep pw. AList.update ep (rpc ep) pw) ws []"

definition owner_bucket_row_counts ::
  "(nat \<Rightarrow> string option) \<Rightarrow> (string \<Rightarrow> nat \<Rightarrow> nat option) \<Rightarrow> nat \<Rightarrow> worker_samples \<Rightarrow> nat list" where
  "owner_bucket_row_counts owner pull np per_worker =
     map (\<lambda>p. case owner p of
            None \<Rightarrow> 0
          | Some ep \<Rightarrow>
              (case map_of per_worker ep of
                 Some (Some c) \<Rightarrow> if p < length (bs_rows c) then bs_rows c ! p else 0
               | _ \<Rightarrow> (case pull ep p of Some n \<Rightarrow> n | None \<Rightarrow> 0))) [0..<np]"

definition all_answered :: "worker_samples \<Rightarrow> bool" where
  "all_answered per_worker \<longleftrightarrow> list_all (\<lambda>(_, c). c \<noteq> None) per_worker"

definition answers :: "worker_samples \<Rightarrow> bucket_sample list" where
  "answers per_worker = List.map_filter snd per_worker"

definition exact_stage_totals :: "worker_samples \<Rightarrow> stage_totals option" where
  "exact_stage_totals per_worker =
     (if per_worker = [] \<or> \<not> all_answered per_worker then None
      else let cs = answers per_worker in
        Some \<lparr>st_rows = sum_list (map (\<lambda>c. sum_list (bs_rows c)) cs),
              st_bytes = (if list_all (\<lambda>c. bs_bytes c \<noteq> None) cs
                          then Some (sum_list (map (\<lambda>c. sum_list (the (bs_bytes c))) cs)) else None)\<rparr>)"

text \<open>\<^verbatim>\<open>as i64\<close>\<close>

definition as_i64 :: "nat \<Rightarrow> int" where
  "as_i64 n = sint (word_of_nat n :: 64 word)"

definition stage_finished_counters ::
  "stage_def \<Rightarrow> worker_samples option \<Rightarrow> (nat \<rightharpoonup> stage_totals) \<Rightarrow> int \<times> int \<times> int \<times> int" where
  "stage_finished_counters stage per_worker totals =
     (let own = Option.bind per_worker exact_stage_totals;
          ups = List.map_filter totals (upstream_stage_ids stage);
          bytes0 = (\<lambda>t. case st_bytes t of None \<Rightarrow> 0 | Some b \<Rightarrow> b)
      in (as_i64 (sum_list (map bytes0 ups)),
          as_i64 (case own of None \<Rightarrow> 0 | Some t \<Rightarrow> bytes0 t),
          as_i64 (sum_list (map st_rows ups)),
          as_i64 (case own of None \<Rightarrow> 0 | Some t \<Rightarrow> st_rows t)))"

datatype execution_event =
    StageFinished nat "int \<times> int \<times> int \<times> int"
  | AqeCoalesced nat nat nat

record barrier_state =
  coalesced :: "nat \<rightharpoonup> nat"
  stage_rows :: "nat \<rightharpoonup> nat list"
  totals_of :: "nat \<rightharpoonup> stage_totals"
  events :: "execution_event list"

text \<open>Bucket totals over the workers; a row count beyond the planned buckets is ignored.\<close>

definition rows_at :: "bucket_sample \<Rightarrow> nat \<Rightarrow> nat" where
  "rows_at c b = (if b < length (bs_rows c) then bs_rows c ! b else 0)"

definition add_counts :: "nat list \<Rightarrow> bucket_sample \<Rightarrow> nat list" where
  "add_counts totals c = map (\<lambda>b. totals ! b + rows_at c b) [0..<length totals]"

definition finish_stage_barrier ::
  "(string \<Rightarrow> string option) \<Rightarrow> string list \<Rightarrow> (nat \<Rightarrow> string option) \<Rightarrow>
   (string \<Rightarrow> bucket_sample option) \<Rightarrow> (string \<Rightarrow> nat \<Rightarrow> nat option) \<Rightarrow>
   bool \<Rightarrow> stage_def \<Rightarrow> nat \<Rightarrow> barrier_state \<Rightarrow> barrier_state option" where
  "finish_stage_barrier env ws owner rpc pull telemetry stage np b =
     (let i = stage_id stage;
          per_worker = (if aqe_enabled env \<or> stage_input_stats_enabled env \<or> telemetry
                        then Some (sample_per_worker_bucket_counts rpc ws) else None);
          b1 = (if telemetry
                then b\<lparr>events := events b @ [StageFinished i (stage_finished_counters stage per_worker (totals_of b))]\<rparr>
                else b);
          b2 = (case Option.bind per_worker exact_stage_totals of
                  Some t \<Rightarrow> b1\<lparr>totals_of := (totals_of b1)(i \<mapsto> t)\<rparr>
                | None \<Rightarrow> b1)
      in case per_worker of
           None \<Rightarrow> Some b2
         | Some pw \<Rightarrow>
             Option.bind
               (if aqe_enabled env then
                  map_option (\<lambda>new_p.
                      if new_p < np then
                        b2\<lparr>coalesced := (coalesced b2)(i \<mapsto> new_p),
                           events := (if telemetry then events b2 @ [AqeCoalesced i np new_p] else events b2)\<rparr>
                      else b2)
                    (coalesced_partitions env (length ws) np (owner_bucket_row_counts owner pull np pw))
                else Some b2)
               (\<lambda>b3. Some (if stage_input_stats_enabled env \<and> all_answered pw
                           then b3\<lparr>stage_rows := (stage_rows b3)(i \<mapsto>
                                  foldl add_counts (replicate np 0) (answers pw))\<rparr>
                           else b3)))"

section \<open>Strided reads\<close>

lemma step_by_map: "step_by m (map f xs) = map f (step_by m xs)"
  by (induction m xs rule: step_by.induct) (simp_all add: drop_map)

lemma step_by_upt:
  "0 < m \<Longrightarrow> step_by m [p..<n] = filter (\<lambda>b. b mod m = p mod m) [p..<n]"
proof (induction "n - p" arbitrary: p rule: less_induct)
  case less
  show ?case
  proof (cases "p < n")
    case True
    have "filter (\<lambda>b. b mod m = p mod m) [Suc p..<n] = filter (\<lambda>b. b mod m = (p + m) mod m) [p + m..<n]"
    proof -
      have "\<not> (b mod m = p mod m)" if "Suc p \<le> b" "b < p + m" for b
      proof
        assume "b mod m = p mod m"
        then have "m dvd b - p" using that by (simp add: mod_eq_dvd_iff_nat)
        with that show False by (auto dest: dvd_imp_le)
      qed
      then have "filter (\<lambda>b. b mod m = p mod m) [Suc p..<min (p + m) n] = []"
        by (auto simp: filter_empty_conv)
      moreover have "[Suc p..<n] = [Suc p..<min (p + m) n] @ [min (p + m) n..<n]"
        using True \<open>0 < m\<close> by (intro upt_split) auto
      moreover have "[min (p + m) n..<n] = [p + m..<n]" by (simp add: min_def)
      ultimately show ?thesis by simp
    qed
    moreover have "step_by m [p..<n] = p # step_by m [p + m..<n]"
      using True less.prems by (simp add: upt_conv_Cons [of p n])
    moreover have "step_by m [p + m..<n] = filter (\<lambda>b. b mod m = (p + m) mod m) [p + m..<n]"
      using less True by (intro less.hyps) auto
    ultimately show ?thesis using True by (simp add: upt_conv_Cons [of p n])
  qed simp
qed

lemma coalesced_read_buckets_step:
  "p < max m 1 \<Longrightarrow> coalesced_read_buckets np m p = step_by (max m 1) [p..<np]"
  unfolding coalesced_read_buckets_def Let_def by (rule if_not_P) (simp only: not_le)

lemma coalesced_read_buckets_filter:
  assumes "p < max m 1"
  shows "coalesced_read_buckets np m p = filter (\<lambda>b. b mod max m 1 = p) [0..<np]"
proof -
  let ?m = "max m 1"
  have "filter (\<lambda>b. b mod ?m = p) [0..<min p np] = []"
    using assms by (auto simp: filter_empty_conv)
  moreover have "[0..<np] = [0..<min p np] @ [min p np..<np]" by (intro upt_split) auto
  moreover have "[min p np..<np] = [p..<np]" by (simp add: min_def)
  ultimately have "filter (\<lambda>b. b mod ?m = p) [0..<np] = filter (\<lambda>b. b mod ?m = p) [p..<np]"
    by (metis append_Nil filter_append)
  with assms show ?thesis
    by (simp add: coalesced_read_buckets_step step_by_upt del: One_nat_def)
qed

lemma mset_buckets_by_class:
  "mset (concat (map (\<lambda>p. filter (\<lambda>x. f x = p) xs) [0..<m])) = filter_mset (\<lambda>x. f x < m) (mset xs)"
proof (induction m)
  case (Suc m)
  have "filter_mset (\<lambda>x. f x < Suc m) (mset xs) =
        filter_mset (\<lambda>x. f x < m) (mset xs) + filter_mset (\<lambda>x. f x = m) (mset xs)"
    by (rule multiset_eqI) auto
  with Suc show ?case by (simp add: mset_filter)
qed simp

lemma foldr_max_ge: "x \<in> set xs \<Longrightarrow> x \<le> foldr max xs (0::nat)"
  by (induction xs) auto

lemma foldr_max_le: "(\<And>x. x \<in> set xs \<Longrightarrow> x \<le> k) \<Longrightarrow> foldr max xs (0::nat) \<le> k"
  by (induction xs) auto

lemma foldr_max_in: "xs \<noteq> [] \<Longrightarrow> foldr max xs (0::nat) \<in> set xs"
proof (induction xs)
  case (Cons x xs)
  then show ?case by (cases xs) (auto simp: max_def)
qed simp

lemma step_by_subset: "set (step_by k xs) \<subseteq> set xs"
  by (induction k xs rule: step_by.induct) (auto dest: in_set_dropD)

lemma drop_as_map_nth: "drop p xs = map ((!) xs) [p..<length xs]"
  by (rule nth_equalityI) auto

lemma reader_load:
  "p < max m 1 \<Longrightarrow> sum_list (step_by (max m 1) (drop p counts)) =
     sum_list (map ((!) counts) (coalesced_read_buckets (length counts) m p))"
  by (simp add: drop_as_map_nth step_by_map coalesced_read_buckets_step del: One_nat_def)

section \<open>Properties of the decision\<close>

text \<open>
  C12. Across the readers a coalesced stage dispatches, every bucket the producers wrote is read exactly
  once: none is dropped and none is read twice.
\<close>

theorem coalesced_read_exactly_once:
  "mset (concat (map (coalesced_read_buckets np m) [0..<max m 1])) = mset [0..<np]"
proof -
  have "map (coalesced_read_buckets np m) [0..<max m 1] =
        map (\<lambda>p. filter (\<lambda>b. b mod max m 1 = p) [0..<np]) [0..<max m 1]"
    by (rule map_cong) (simp_all add: coalesced_read_buckets_filter)
  moreover have "filter_mset (\<lambda>b. b mod max m 1 < max m 1) (mset [0..<np]) = mset [0..<np]"
    by (rule filter_mset_True [THEN subst]) (auto intro!: filter_mset_cong)
  ultimately show ?thesis by (simp only: mset_buckets_by_class)
qed

text \<open>
  The load the decision computes is the load the readers have: the largest number of rows any one
  reader pulls through \<^verbatim>\<open>coalesced_read_buckets\<close>.
\<close>

theorem worst_coalesced_load_readers:
  "worst_coalesced_load counts m =
     Max ((\<lambda>p. \<Sum>b\<leftarrow>coalesced_read_buckets (length counts) m p. counts ! b) ` {..<max m 1})"
proof -
  let ?m = "max m 1"
  let ?ls = "map (\<lambda>p. \<Sum>b\<leftarrow>coalesced_read_buckets (length counts) m p. counts ! b) [0..<?m]"
  have "worst_coalesced_load counts m = foldr max ?ls 0"
    unfolding worst_coalesced_load_def Let_def
    by (rule arg_cong [where f = "\<lambda>l. foldr max l 0"], rule map_cong [OF refl], rule reader_load) simp
  also have "\<dots> = Max (set ?ls)"
  proof (rule Max_eqI [symmetric])
    show "foldr max ?ls 0 \<in> set ?ls" by (rule foldr_max_in) simp
  qed (use foldr_max_ge in auto)
  also have "set ?ls = (\<lambda>p. \<Sum>b\<leftarrow>coalesced_read_buckets (length counts) m p. counts ! b) ` {..<?m}"
    by (auto simp: atLeast0LessThan)
  finally show ?thesis .
qed

lemma clamp_range: "lo \<le> hi \<Longrightarrow> \<exists>m. clamp x lo hi = Some m \<and> lo \<le> m \<and> m \<le> hi"
  by (simp add: clamp_def)

lemma find_in_range: "List.find P [a..<b] = Some m \<Longrightarrow> a \<le> m \<and> m < b \<and> P m"
  by (induction "[a..<b]" arbitrary: a) (auto simp: find_Some_iff)

lemma worst_load_zero: "sum_list counts = 0 \<Longrightarrow> worst_coalesced_load counts m = 0"
proof -
  assume z: "sum_list counts = 0"
  have "sum_list (step_by k (drop p counts)) = 0" for k p
    using z step_by_subset [of k "drop p counts"] by (fastforce simp: sum_list_eq_0_iff dest: in_set_dropD)
  then have "worst_coalesced_load counts m \<le> 0"
    unfolding worst_coalesced_load_def Let_def by (intro foldr_max_le) auto
  then show ?thesis by simp
qed

lemma coalesced_partitions_total:
  assumes "length counts = current" and "0 < current" and "num_workers < 2 ^ 32"
  shows "\<exists>m. coalesced_partitions env num_workers current counts = Some m \<and> 1 \<le> m \<and> m \<le> current \<and>
    (m < current \<longrightarrow> worst_coalesced_load counts m \<le> foldr max counts 0 \<or>
       (num_workers \<le> m \<and> foldr max counts 0 \<le> aqe_coalesce_max_rows env \<and>
        (2 < length counts \<longrightarrow> foldr max counts 0 * 3 \<le> sum_list counts)))"
proof -
  define fl where "fl = max num_workers 1 mod 2 ^ 32"
  define mx where "mx = foldr max counts 0"
  define declined where "declined \<longleftrightarrow>
    (mx * 3 > sum_list counts \<and> length counts > 2) \<or> mx > aqe_coalesce_max_rows env \<or> length counts \<le> fl"
  have fl: "fl = max num_workers 1" "1 \<le> fl" using assms(3) by (auto simp: fl_def max_def)
  note defs = coalesced_partitions_def Let_def fl_def [symmetric] mx_def [symmetric] declined_def [symmetric]
  consider "\<not> aqe_enabled env" | "aqe_enabled env" "sum_list counts = 0"
    | "aqe_enabled env" "sum_list counts \<noteq> 0" "\<not> declined"
    | "aqe_enabled env" "sum_list counts \<noteq> 0" "declined" by blast
  then show ?thesis
  proof cases
    case 1
    then show ?thesis using assms(2) by (simp add: coalesced_partitions_def)
  next
    case 2
    then show ?thesis using assms(1,2) worst_load_zero by (auto simp: coalesced_partitions_def)
  next
    case 3
    then have "fl \<le> current" using assms(1) by (simp add: declined_def)
    moreover obtain x where "coalesced_partitions env num_workers current counts = clamp x fl current"
      using 3 assms(1,2) unfolding defs by (auto simp del: sum_list_eq_0_iff)
    ultimately obtain m where m: "coalesced_partitions env num_workers current counts = Some m" "fl \<le> m" "m \<le> current"
      using clamp_range by metis
    with 3(3) fl show ?thesis by (auto simp: declined_def mx_def)
  next
    case 4
    show ?thesis
    proof (cases "concentrated_coalesce_enabled env \<and> (\<exists>m. List.find (\<lambda>m. worst_coalesced_load counts m \<le> mx) [fl..<current] = Some m)")
      case True
      then obtain m where m: "List.find (\<lambda>m. worst_coalesced_load counts m \<le> mx) [fl..<current] = Some m" by blast
      with 4 True assms(1,2) have "coalesced_partitions env num_workers current counts = Some m"
        unfolding defs by (auto simp del: sum_list_eq_0_iff)
      with find_in_range [OF m] fl show ?thesis by (auto simp: mx_def)
    next
      case False
      with 4 assms(1,2) have "coalesced_partitions env num_workers current counts = Some current"
        unfolding defs by (auto simp del: sum_list_eq_0_iff split: option.splits)
      with assms(2) show ?thesis by simp
    qed
  qed
qed

text \<open>
  C30. With one count per partition the decision never panics, its modulus lies between one and the
  planned count, and where the size guards decline the stage it only merges buckets so that no reader
  holds more rows than the largest bucket held before.
\<close>

theorem coalesced_partitions_sound:
  assumes "length counts = current" and "0 < current" and "num_workers < 2 ^ 32"
  shows "\<exists>m. coalesced_partitions env num_workers current counts = Some m \<and> 1 \<le> m \<and> m \<le> current \<and>
    (m < current \<longrightarrow> worst_coalesced_load counts m \<le> foldr max counts 0 \<or>
       (num_workers \<le> m \<and> foldr max counts 0 \<le> aqe_coalesce_max_rows env \<and>
        (2 < length counts \<longrightarrow> foldr max counts 0 * 3 \<le> sum_list counts)))"
  using assms by (rule coalesced_partitions_total)

lemma coalesced_example:
  "worst_coalesced_load [5000, 0, 0, 0] 2 = 5000"
  "coalesced_partitions (\<lambda>_. None) 2 4 [5000, 0, 0, 0] = Some 2"
proof -
  show w: "worst_coalesced_load [5000, 0, 0, 0] 2 = 5000"
    by (simp add: worst_coalesced_load_def numeral_2_eq_2)
  have "[Suc (Suc 0)..<4] = [2, 3]" by (simp add: upt_rec)
  with w show "coalesced_partitions (\<lambda>_. None) 2 4 [5000, 0, 0, 0] = Some 2"
    by (simp add: coalesced_partitions_def aqe_enabled_def env_switch_def concentrated_coalesce_enabled_def
      aqe_coalesce_max_rows_def)
qed

theorem coalesced_partitions_sound_witness:
  "coalesced_partitions (\<lambda>_. None) 2 4 [5000, 0, 0, 0] = Some 2 \<and>
   worst_coalesced_load [5000, 0, 0, 0] 2 \<le> foldr max [5000, 0, 0, 0] 0"
  using coalesced_partitions_sound [of "[5000, 0, 0, 0]" 4 2 "\<lambda>_. None"] coalesced_example(2)
  by (auto simp: aqe_coalesce_max_rows_def)

section \<open>Properties of the barrier\<close>

lemma owner_bucket_row_counts_length [simp]: "length (owner_bucket_row_counts owner pull np pw) = np"
  by (simp add: owner_bucket_row_counts_def)

lemma sample_per_worker:
  "distinct (map fst (sample_per_worker_bucket_counts rpc ws)) \<and>
   set (sample_per_worker_bucket_counts rpc ws) = (\<lambda>w. (w, rpc w)) ` set ws"
proof (induction ws rule: rev_induct)
  case (snoc w ws)
  let ?pw = "sample_per_worker_bucket_counts rpc ws"
  have eq: "sample_per_worker_bucket_counts rpc (ws @ [w]) = AList.update w (rpc w) ?pw"
    by (simp add: sample_per_worker_bucket_counts_def)
  have dist: "distinct (map fst (AList.update w (rpc w) ?pw))"
    using snoc by (simp add: distinct_update)
  have "(k, v) \<in> set (AList.update w (rpc w) ?pw) \<longleftrightarrow> v = rpc k \<and> k \<in> set (ws @ [w])" for k v
  proof -
    have "(k, v) \<in> set (AList.update w (rpc w) ?pw) \<longleftrightarrow> map_of (AList.update w (rpc w) ?pw) k = Some v"
      using dist by simp
    also have "\<dots> \<longleftrightarrow> (if k = w then v = rpc w else (k, v) \<in> set ?pw)"
      using snoc by (auto simp: update_conv)
    finally show ?thesis using snoc by auto
  qed
  then have "set (AList.update w (rpc w) ?pw) = (\<lambda>w. (w, rpc w)) ` set (ws @ [w])"
    by (auto simp: image_iff)
  with dist eq show ?case by simp
qed (simp add: sample_per_worker_bucket_counts_def)

lemma all_answered_sample:
  "all_answered (sample_per_worker_bucket_counts rpc ws) \<longleftrightarrow> (\<forall>w \<in> set ws. rpc w \<noteq> None)"
  using sample_per_worker [of rpc ws] by (auto simp: all_answered_def list_all_iff)

lemma sum_answers:
  assumes "\<forall>w \<in> set ws. rpc w \<noteq> None"
  shows "(\<Sum>c\<leftarrow>answers (sample_per_worker_bucket_counts rpc ws). f c) = (\<Sum>w\<in>set ws. f (the (rpc w)))"
proof -
  let ?pw = "sample_per_worker_bucket_counts rpc ws"
  have all: "\<forall>x \<in> set ?pw. snd x \<noteq> None" using assms sample_per_worker [of rpc ws] by auto
  then have "answers ?pw = map (\<lambda>x. the (snd x)) ?pw"
    unfolding answers_def List.map_filter_def by (induction ?pw) (auto simp: filter_id_conv)
  then have "(\<Sum>c\<leftarrow>answers ?pw. f c) = (\<Sum>x\<leftarrow>?pw. f (the (snd x)))" by (simp add: o_def)
  also have "\<dots> = (\<Sum>x\<in>set ?pw. f (the (snd x)))"
    using sample_per_worker [of rpc ws] by (intro sum_list_distinct_conv_sum_set) (simp add: distinct_map)
  also have "\<dots> = (\<Sum>w\<in>set ws. f (the (rpc w)))"
    using sample_per_worker [of rpc ws] by (simp add: sum.reindex inj_on_def)
  finally show ?thesis .
qed

lemma foldl_add_counts:
  "length (foldl add_counts t cs) = length t \<and>
   (b < length t \<longrightarrow> foldl add_counts t cs ! b = t ! b + (\<Sum>c\<leftarrow>cs. rows_at c b))"
  by (induction cs arbitrary: t) (auto simp: add_counts_def)

lemma barrier_total:
  assumes "0 < np" and "length ws < 2 ^ 32"
  shows "\<exists>b'. finish_stage_barrier env ws owner rpc pull telemetry stage np b = Some b' \<and>
     (coalesced b' = coalesced b \<or>
      (\<exists>m. coalesced b' = (coalesced b)(stage_id stage \<mapsto> m) \<and> 1 \<le> m \<and> m < np))"
proof -
  have "\<exists>m. coalesced_partitions env (length ws) np (owner_bucket_row_counts owner pull np pw) = Some m \<and> 1 \<le> m" for pw
    using coalesced_partitions_total [of "owner_bucket_row_counts owner pull np pw" np "length ws" env] assms by auto
  then obtain m where "\<And>pw. coalesced_partitions env (length ws) np (owner_bucket_row_counts owner pull np pw) = Some (m pw) \<and> 1 \<le> m pw"
    by metis
  then show ?thesis
    by (auto simp: finish_stage_barrier_def Let_def split: option.splits)
qed

text \<open>
  The stage barrier always completes; the modulus it records for the stage's readers is at least one
  and below the planned partition count, and it records none for any other stage.
\<close>

theorem barrier_modulus:
  assumes "0 < np" and "length ws < 2 ^ 32"
  shows "\<exists>b'. finish_stage_barrier env ws owner rpc pull telemetry stage np b = Some b' \<and>
     (coalesced b' = coalesced b \<or>
      (\<exists>m. coalesced b' = (coalesced b)(stage_id stage \<mapsto> m) \<and> 1 \<le> m \<and> m < np))"
  using assms by (rule barrier_total)

theorem barrier_modulus_witness:
  "\<exists>b'. finish_stage_barrier (\<lambda>_. None) [''a:1''] (\<lambda>_. Some ''a:1'') (\<lambda>_. Some \<lparr>bs_rows = [3, 4], bs_bytes = None\<rparr>)
     (\<lambda>_ _. None) True (stage_def_new 7 ''q'' [] []) 2 \<lparr>coalesced = Map.empty, stage_rows = Map.empty,
     totals_of = Map.empty, events = []\<rparr> = Some b'"
  using barrier_modulus [of 2 "[''a:1'']"] by simp blast

text \<open>
  When statistics are on and every worker answered, the barrier records for each planned bucket the
  exact number of rows over all workers; when one did not answer it records nothing for the stage.
\<close>

theorem barrier_stage_rows:
  assumes "finish_stage_barrier env ws owner rpc pull telemetry stage np b = Some b'"
  shows "if stage_input_stats_enabled env \<and> (\<forall>w \<in> set ws. rpc w \<noteq> None)
    then \<exists>rows. stage_rows b' = (stage_rows b)(stage_id stage \<mapsto> rows) \<and> length rows = np \<and>
           (\<forall>k < np. rows ! k = (\<Sum>w\<in>set ws. rows_at (the (rpc w)) k))
    else stage_rows b' = stage_rows b"
proof (cases "stage_input_stats_enabled env \<and> (\<forall>w \<in> set ws. rpc w \<noteq> None)")
  case True
  let ?pw = "sample_per_worker_bucket_counts rpc ws"
  have "stage_rows b' = (stage_rows b)(stage_id stage \<mapsto> foldl add_counts (replicate np 0) (answers ?pw))"
    using True assms by (auto simp: finish_stage_barrier_def Let_def all_answered_sample bind_eq_Some_conv
        split: option.splits if_splits)
  moreover have "k < np \<longrightarrow> foldl add_counts (replicate np 0) (answers ?pw) ! k = (\<Sum>w\<in>set ws. rows_at (the (rpc w)) k)" for k
    using foldl_add_counts [of "replicate np 0" "answers ?pw" k] sum_answers [of ws rpc "\<lambda>c. rows_at c k"] True by simp
  ultimately show ?thesis using True foldl_add_counts [of "replicate np 0" "answers ?pw"] by auto
next
  case False
  then have "\<not> (stage_input_stats_enabled env \<and> all_answered (sample_per_worker_bucket_counts rpc ws))"
    by (simp add: all_answered_sample)
  then have "stage_rows b' = stage_rows b"
    using assms by (auto simp: finish_stage_barrier_def Let_def bind_eq_Some_conv
        split: option.splits if_splits)
  with False show ?thesis by auto
qed

theorem barrier_stage_rows_witness:
  "\<exists>b' rows. finish_stage_barrier (\<lambda>_. None) [''a:1'', ''b:1''] (\<lambda>_. Some ''a:1'')
     (\<lambda>_. Some \<lparr>bs_rows = [3, 4], bs_bytes = None\<rparr>)
     (\<lambda>_ _. None) False (stage_def_new 7 ''q'' [] []) 2 \<lparr>coalesced = Map.empty, stage_rows = Map.empty,
     totals_of = Map.empty, events = []\<rparr> = Some b' \<and> stage_rows b' 7 = Some rows \<and> rows ! 1 = 8"
proof -
  let ?c = "\<lparr>bs_rows = [3, 4], bs_bytes = None\<rparr>"
  let ?b = "\<lparr>coalesced = Map.empty, stage_rows = Map.empty, totals_of = Map.empty, events = []\<rparr> :: barrier_state"
  let ?f = "finish_stage_barrier (\<lambda>_. None) [''a:1'', ''b:1''] (\<lambda>_. Some ''a:1'') (\<lambda>_. Some ?c) (\<lambda>_ _. None) False
     (stage_def_new 7 ''q'' [] []) 2 ?b"
  obtain b' where f: "?f = Some b'"
    using barrier_total [of 2 "[''a:1'', ''b:1'']"] by simp blast
  have on: "stage_input_stats_enabled (\<lambda>_. None)" by (simp add: stage_input_stats_enabled_def env_switch_def)
  from barrier_stage_rows [OF f] on obtain rows where "stage_rows b' 7 = Some rows"
      "rows ! 1 = (\<Sum>w\<in>set [''a:1'', ''b:1'']. rows_at ?c 1)"
    by auto
  then show ?thesis using f by (auto simp: rows_at_def)
qed

end
