(* ===== verification/Byte_Codec.thy ===== *)
theory Byte_Codec
  imports Oxidant_Prelude
begin

text \<open>
  Reading and writing bytes: big-endian integers, UTF-8 validation as \<^verbatim>\<open>String::from_utf8\<close> does it, and
  readers over a byte stream with the interface \<open>codec\<close> (what was written is read back, and exactly
  what was written is consumed) that the Hive Thrift client and the pgoutput decoder instantiate.

  A byte is a HOL \<^typ>\<open>char\<close>, so the bytes of a Rust string are the string itself.
\<close>

section \<open>Big-endian integers\<close>

fun nat_be :: "nat \<Rightarrow> nat \<Rightarrow> string" where
  "nat_be 0 v = []"
| "nat_be (Suc n) v = nat_be n (v div 256) @ [char_of (v mod 256)]"

definition be_nat :: "string \<Rightarrow> nat" where
  "be_nat bs = foldl (\<lambda>acc b. acc * 256 + of_char b) 0 bs"

text \<open>Two's complement at \<open>w\<close> bits.\<close>

definition to_signed :: "nat \<Rightarrow> nat \<Rightarrow> int" where
  "to_signed w n = (if n < 2 ^ (w - 1) then int n else int n - 2 ^ w)"

text \<open>The range test of \<^const>\<open>to_signed\<close> on integers, for evaluation.\<close>

lemma to_signed_int [code]: "to_signed w n = (let i = int n in if i < 2 ^ (w - 1) then i else i - 2 ^ w)"
  by (simp add: to_signed_def flip: of_nat_less_iff)

definition of_signed :: "nat \<Rightarrow> int \<Rightarrow> nat" where
  "of_signed w i = nat (i mod 2 ^ w)"

section \<open>UTF-8\<close>

definition is_cont :: "char \<Rightarrow> bool" where
  "is_cont c \<longleftrightarrow> 128 \<le> (of_char c :: nat) \<and> (of_char c :: nat) < 192"

text \<open>The second byte a three- or four-byte sequence may have after its first byte.\<close>

definition second_ok :: "nat \<Rightarrow> nat \<Rightarrow> bool" where
  "second_ok b c \<longleftrightarrow>
     (if b = 224 then 160 \<le> c \<and> c < 192
      else if b = 237 then 128 \<le> c \<and> c < 160
      else if b = 240 then 144 \<le> c \<and> c < 192
      else if b = 244 then 128 \<le> c \<and> c < 144
      else 128 \<le> c \<and> c < 192)"

text \<open>
  \<open>utf8_error i s\<close> is the error at offset \<open>i\<close> on: where it starts and, unless the input ended, how many
  bytes are wrong. \<^const>\<open>None\<close> is valid input.
\<close>

fun utf8_tail :: "nat \<Rightarrow> nat \<Rightarrow> string \<Rightarrow> nat option option + string" where
  "utf8_tail 0 k s = Inr s"
| "utf8_tail (Suc n) k [] = Inl (Some None)"
| "utf8_tail (Suc n) k (c # s) = (if is_cont c then utf8_tail n (Suc k) s else Inl (Some (Some k)))"

definition utf8_seq :: "nat \<Rightarrow> string \<Rightarrow> nat option option + string" where
  "utf8_seq b s =
     (if b < 128 then Inr s
      else if 194 \<le> b \<and> b < 224 then utf8_tail 1 1 s
      else if 224 \<le> b \<and> b < 240 then
        (case s of [] \<Rightarrow> Inl (Some None)
         | c # s' \<Rightarrow> if second_ok b (of_char c) then utf8_tail 1 2 s' else Inl (Some (Some 1)))
      else if 240 \<le> b \<and> b < 245 then
        (case s of [] \<Rightarrow> Inl (Some None)
         | c # s' \<Rightarrow> if second_ok b (of_char c) then utf8_tail 2 2 s' else Inl (Some (Some 1)))
      else Inl (Some (Some 1)))"

lemma utf8_tail_length: "utf8_tail n k s = Inr s' \<Longrightarrow> length s' \<le> length s"
  by (induction n k s rule: utf8_tail.induct) (auto split: if_splits)

lemma utf8_seq_length: "utf8_seq b s = Inr s' \<Longrightarrow> length s' \<le> length s"
  using utf8_tail_length by (fastforce simp: utf8_seq_def split: if_splits list.splits)

function utf8_error :: "nat \<Rightarrow> string \<Rightarrow> (nat \<times> nat option) option" where
  "utf8_error i [] = None"
| "utf8_error i (c # s) =
     (case utf8_seq (of_char c) s of
        Inl e \<Rightarrow> Some (i, the e)
      | Inr s' \<Rightarrow> utf8_error (i + 1 + (length s - length s')) s')"
  by pat_completeness auto

termination
  by (relation "measure (\<lambda>(i, s). length s)") (auto dest: utf8_seq_length)

definition utf8_valid :: "string \<Rightarrow> bool" where
  "utf8_valid s \<longleftrightarrow> utf8_error 0 s = None"

text \<open>\<^verbatim>\<open>Display\<close> of \<^verbatim>\<open>Utf8Error\<close>.\<close>

definition utf8_error_text :: "nat \<times> nat option \<Rightarrow> string" where
  "utf8_error_text e =
     (case snd e of
        Some n \<Rightarrow> ''invalid utf-8 sequence of '' @ show_nat n @ '' bytes from index '' @ show_nat (fst e)
      | None \<Rightarrow> ''incomplete utf-8 byte sequence from index '' @ show_nat (fst e))"

section \<open>Readers\<close>

text \<open>
  The outcome of a reader: the value with the bytes that remain, an error of the program, a failed
  read of the transport (the text before the transport's own message), or a bound on the number of
  steps that was too small.
\<close>

datatype 'a read = Read 'a string | Failed error | IoFailed string | OutOfFuel

type_synonym 'a reader = "string \<Rightarrow> 'a read"

definition rd_bind :: "'a read \<Rightarrow> ('a \<Rightarrow> string \<Rightarrow> 'b read) \<Rightarrow> 'b read" where
  "rd_bind r f = (case r of Read x s \<Rightarrow> f x s | Failed e \<Rightarrow> Failed e | IoFailed c \<Rightarrow> IoFailed c | OutOfFuel \<Rightarrow> OutOfFuel)"

fun read_times :: "nat \<Rightarrow> 'a reader \<Rightarrow> 'a list reader" where
  "read_times 0 r s = Read [] s"
| "read_times (Suc n) r s = rd_bind (r s) (\<lambda>x s. rd_bind (read_times n r s) (\<lambda>xs s. Read (x # xs) s))"

text \<open>
  A reader that, on streams of at most \<open>k\<close> bytes, never runs out of steps and never gives back more than
  it was given; and one that always consumes something.
\<close>

definition rd_upto :: "nat \<Rightarrow> 'a reader \<Rightarrow> bool" where
  "rd_upto k r \<longleftrightarrow>
     (\<forall>s. length s \<le> k \<longrightarrow> r s \<noteq> OutOfFuel \<and> (\<forall>x s'. r s = Read x s' \<longrightarrow> length s' \<le> length s))"

definition rd_total :: "'a reader \<Rightarrow> bool" where
  "rd_total r \<longleftrightarrow> (\<forall>k. rd_upto k r)"

definition rd_consumes :: "'a reader \<Rightarrow> bool" where
  "rd_consumes r \<longleftrightarrow> (\<forall>s x s'. r s = Read x s' \<longrightarrow> length s' < length s)"

lemma rd_bind_simps [simp]:
  "rd_bind (Read x s) f = f x s" "rd_bind (Failed e) f = Failed e"
  "rd_bind (IoFailed c) f = IoFailed c" "rd_bind OutOfFuel f = OutOfFuel"
  by (simp_all add: rd_bind_def)

lemma rd_bind_Read: "rd_bind r f = Read y t \<longleftrightarrow> (\<exists>x s. r = Read x s \<and> f x s = Read y t)"
  by (cases r) auto

lemma rd_bind_OutOfFuel:
  "rd_bind r f = OutOfFuel \<longleftrightarrow> r = OutOfFuel \<or> (\<exists>x s. r = Read x s \<and> f x s = OutOfFuel)"
  by (cases r) auto

named_theorems reader_total

lemma rd_totalD:
  "rd_total r \<Longrightarrow> r s \<noteq> OutOfFuel" "rd_total r \<Longrightarrow> r s = Read x s' \<Longrightarrow> length s' \<le> length s"
  "rd_total r \<Longrightarrow> rd_upto k r"
  by (auto simp: rd_total_def rd_upto_def)

lemma rd_uptoD:
  "rd_upto k r \<Longrightarrow> length s \<le> k \<Longrightarrow>
     r s \<noteq> OutOfFuel \<and> (\<forall>x s'. r s = Read x s' \<longrightarrow> length s' \<le> length s)"
  by (simp add: rd_upto_def)

lemma rd_consumesD: "rd_consumes r \<Longrightarrow> r s = Read x s' \<Longrightarrow> length s' < length s"
  by (simp add: rd_consumes_def)

lemma rd_upto_Read [reader_total]: "rd_upto k (Read x)"
  by (simp add: rd_upto_def)

lemma rd_upto_fail [reader_total]: "rd_upto k (\<lambda>s. Failed e)" "rd_upto k (\<lambda>s. IoFailed c)"
  by (simp_all add: rd_upto_def)

lemma rd_upto_if [reader_total]: "rd_upto k r \<Longrightarrow> rd_upto k q \<Longrightarrow> rd_upto k (\<lambda>s. if b then r s else q s)"
  by (cases b) simp_all

lemma rd_upto_prod [reader_total]: "(\<And>a b. rd_upto k (f a b)) \<Longrightarrow> rd_upto k (case x of (a, b) \<Rightarrow> f a b)"
  by (cases x) simp

lemma rd_upto_option [reader_total]:
  "rd_upto k r \<Longrightarrow> (\<And>x. rd_upto k (q x)) \<Longrightarrow> rd_upto k (\<lambda>s. case o' of None \<Rightarrow> r s | Some x \<Rightarrow> q x s)"
  by (cases o') simp_all

lemma rd_upto_mono: "rd_upto k r \<Longrightarrow> j \<le> k \<Longrightarrow> rd_upto j r"
  by (simp add: rd_upto_def)

lemma rd_totalI: "(\<And>k. rd_upto k r) \<Longrightarrow> rd_total r"
  by (simp add: rd_total_def)

lemma rd_upto_bind [reader_total]:
  assumes "rd_upto k r" "\<And>x. rd_upto k (f x)"
  shows "rd_upto k (\<lambda>s. rd_bind (r s) f)"
proof -
  have "rd_bind (r s) f \<noteq> OutOfFuel \<and> (\<forall>x s'. rd_bind (r s) f = Read x s' \<longrightarrow> length s' \<le> length s)"
    if "length s \<le> k" for s
  proof (cases "r s")
    case (Read x t)
    with assms(1) that have "length t \<le> length s" by (simp add: rd_upto_def)
    moreover have "length t \<le> k" using calculation that by simp
    ultimately show ?thesis using rd_uptoD [OF assms(2) [of x], of t] Read by (auto dest: le_trans)
  qed (use assms(1) that in \<open>auto simp: rd_upto_def\<close>)
  then show ?thesis by (simp add: rd_upto_def)
qed

lemma rd_upto_bind_strict:
  assumes "rd_total r" "rd_consumes r" "\<And>x. 0 < k \<Longrightarrow> rd_upto (k - 1) (f x)"
  shows "rd_upto k (\<lambda>s. rd_bind (r s) f)"
proof -
  have "rd_bind (r s) f \<noteq> OutOfFuel \<and> (\<forall>x s'. rd_bind (r s) f = Read x s' \<longrightarrow> length s' \<le> length s)"
    if "length s \<le> k" for s
  proof (cases "r s")
    case (Read x t)
    with assms(2) have "length t < length s" by (simp add: rd_consumes_def)
    moreover from calculation that have "0 < k" "length t \<le> k - 1" by auto
    ultimately show ?thesis using rd_uptoD [OF assms(3), of t x] Read by (auto dest: le_trans)
  qed (use assms(1) in \<open>auto dest: rd_totalD\<close>)
  then show ?thesis by (simp add: rd_upto_def)
qed

lemma rd_upto_times [reader_total]: "rd_upto k r \<Longrightarrow> rd_upto k (read_times n r)"
proof (induction n)
  case (Suc n)
  have "read_times (Suc n) r = (\<lambda>s. rd_bind (r s) (\<lambda>x s. rd_bind (read_times n r s) (\<lambda>xs s. Read (x # xs) s)))"
    by (rule ext) simp
  with Suc show ?case by (simp add: reader_total)
next
  case 0
  have "read_times 0 r = Read []" by (rule ext) simp
  then show ?case by (simp add: reader_total)
qed

section \<open>The interface of a codec\<close>

locale codec =
  fixes enc :: "'a \<Rightarrow> string" and dec :: "'a reader" and valid :: "'a \<Rightarrow> bool"
  assumes dec_enc: "valid x \<Longrightarrow> dec (enc x @ rest) = Read x rest"
begin

lemma dec_enc_list:
  "list_all valid xs \<Longrightarrow> read_times (length xs) dec (concat (map enc xs) @ rest) = Read xs rest"
  by (induction xs arbitrary: rest) (simp_all add: dec_enc)

lemma enc_inj: "valid x \<Longrightarrow> valid y \<Longrightarrow> enc x @ r = enc y @ r' \<Longrightarrow> x = y \<and> r = r'"
  by (metis dec_enc read.inject(1))

end

section \<open>Facts about integers\<close>

lemma length_nat_be [simp]: "length (nat_be n v) = n"
  by (induction n arbitrary: v) simp_all

lemma be_nat_snoc: "be_nat (bs @ [b]) = be_nat bs * 256 + of_char b"
  by (simp add: be_nat_def)

lemma be_nat_nat_be: "v < 256 ^ n \<Longrightarrow> be_nat (nat_be n v) = v"
proof (induction n arbitrary: v)
  case 0
  then show ?case by (simp add: be_nat_def)
next
  case (Suc n)
  then have "v div 256 < 256 ^ n" by (simp add: less_mult_imp_div_less mult.commute)
  with Suc show ?case by (simp add: be_nat_snoc)
qed

lemma digit256_less: "(a::nat) < m \<Longrightarrow> b < 256 \<Longrightarrow> a * 256 + b < 256 * m"
  by linarith

lemma be_nat_bound: "be_nat bs < 256 ^ length bs"
proof (induction bs rule: rev_induct)
  case (snoc b bs)
  show ?case
    using digit256_less [OF snoc nat_of_char_less_256] by (simp only: be_nat_snoc length_append_singleton power_Suc)
qed (simp add: be_nat_def)

lemma nat_be_be_nat: "nat_be (length bs) (be_nat bs) = bs"
proof (induction bs rule: rev_induct)
  case (snoc b bs)
  have "(of_char b :: nat) < 256" by (rule nat_of_char_less_256)
  with snoc show ?case by (simp add: be_nat_snoc)
qed simp

lemma of_signed_bound: "of_signed w i < 2 ^ w"
  by (simp add: of_signed_def nat_less_iff)

lemma to_of_signed:
  assumes "0 < w" "- (2 ^ (w - 1)) \<le> i" "i < 2 ^ (w - 1)"
  shows "to_signed w (of_signed w i) = i"
proof -
  obtain k where w: "w = Suc k" using assms(1) by (cases w) auto
  show ?thesis
  proof (cases "0 \<le> i")
    case True
    then have "of_signed w i = nat i" using assms w by (simp add: of_signed_def)
    with True assms w show ?thesis by (simp add: to_signed_def nat_less_iff)
  next
    case False
    have "i mod 2 ^ w = (i + 2 ^ w) mod 2 ^ w" by simp
    also have "\<dots> = i + 2 ^ w"
      by (rule mod_pos_pos_trivial) (use False assms w in auto)
    finally have "of_signed w i = nat (i + 2 ^ w)" by (simp add: of_signed_def)
    with False assms w show ?thesis by (simp add: to_signed_def nat_less_iff)
  qed
qed

lemma utf8_valid_ascii: "list_all (\<lambda>c. of_char c < (128::nat)) s \<Longrightarrow> utf8_valid s"
proof -
  have "list_all (\<lambda>c. of_char c < (128::nat)) s \<Longrightarrow> utf8_error i s = None" for i
    by (induction s arbitrary: i) (simp_all add: utf8_seq_def)
  then show "list_all (\<lambda>c. of_char c < (128::nat)) s \<Longrightarrow> utf8_valid s" by (simp add: utf8_valid_def)
qed

end
