(* ===== verification/Hive_Thrift.thy ===== *)
theory Hive_Thrift
  imports Byte_Codec
begin

text \<open>
  The Hive Metastore client of \<^verbatim>\<open>oxidant-catalog-hive/src/thrift.rs\<close>: Thrift's binary protocol over a
  byte stream.

  \<^item> Readers are functions on the bytes still to come. The loops over the fields of a struct and the
    nested \<^verbatim>\<open>skip\<close> carry a bound on their steps that is computed from the length of the stream;
    \<open>rd_total\<close> of every reader shows that the bound is never reached, whatever the server sends.
  \<^item> Writers return the bytes they append.
  \<^item> \<open>tval\<close> is the type of Thrift values with its encoding, the reference \<^verbatim>\<open>skip\<close> is compared with.
\<close>

section \<open>Constants\<close>

abbreviation (input) T_STOP :: nat where "T_STOP \<equiv> 0"
abbreviation (input) T_BOOL :: nat where "T_BOOL \<equiv> 2"
abbreviation (input) T_BYTE :: nat where "T_BYTE \<equiv> 3"
abbreviation (input) T_DOUBLE :: nat where "T_DOUBLE \<equiv> 4"
abbreviation (input) T_I16 :: nat where "T_I16 \<equiv> 6"
abbreviation (input) T_I32 :: nat where "T_I32 \<equiv> 8"
abbreviation (input) T_I64 :: nat where "T_I64 \<equiv> 10"
abbreviation (input) T_STRING :: nat where "T_STRING \<equiv> 11"
abbreviation (input) T_STRUCT :: nat where "T_STRUCT \<equiv> 12"
abbreviation (input) T_MAP :: nat where "T_MAP \<equiv> 13"
abbreviation (input) T_SET :: nat where "T_SET \<equiv> 14"
abbreviation (input) T_LIST :: nat where "T_LIST \<equiv> 15"

abbreviation (input) M_CALL :: nat where "M_CALL \<equiv> 1"
abbreviation (input) M_EXCEPTION :: nat where "M_EXCEPTION \<equiv> 3"
abbreviation (input) VERSION_1 :: nat where "VERSION_1 \<equiv> 0x80010000"

section \<open>Data\<close>

record hive_table =
  ht_location :: "string option"
  ht_input_format :: "string option"
  ht_serde_lib :: "string option"
  ht_table_type :: "string option"
  ht_parameters :: "(string \<times> string) list"
  ht_columns :: "(string \<times> string) list"
  ht_partition_typed :: "(string \<times> string) list"
  ht_partition_columns :: "string list"

definition hive_table_default :: hive_table where
  "hive_table_default = \<lparr>ht_location = None, ht_input_format = None, ht_serde_lib = None,
     ht_table_type = None, ht_parameters = [], ht_columns = [], ht_partition_typed = [],
     ht_partition_columns = []\<rparr>"

definition ht_param :: "string \<Rightarrow> hive_table \<Rightarrow> string option" where
  "ht_param key t = map_option snd (List.find (\<lambda>(k, _). k = key) (ht_parameters t))"

definition ht_comment :: "hive_table \<Rightarrow> string option" where
  "ht_comment t = ht_param ''comment'' t"

record new_hive_table =
  nt_db_name :: string
  nt_table_name :: string
  nt_location :: string
  nt_input_format :: string
  nt_output_format :: string
  nt_serde_lib :: string
  nt_serde_params :: "(string \<times> string) list"
  nt_columns :: "(string \<times> string) list"
  nt_partition_columns :: "(string \<times> string) list"

section \<open>Writers\<close>

definition write_i16 :: "int \<Rightarrow> string" where
  "write_i16 v = nat_be 2 (of_signed 16 v)"

definition write_i32 :: "int \<Rightarrow> string" where
  "write_i32 v = nat_be 4 (of_signed 32 v)"

text \<open>The cast of a length to \<^verbatim>\<open>i32\<close> is the wrap-around of \<open>write_i32\<close>.\<close>

definition write_string :: "string \<Rightarrow> string" where
  "write_string s = write_i32 (int (length s)) @ s"

definition write_field :: "nat \<Rightarrow> int \<Rightarrow> string" where
  "write_field ftype i = char_of ftype # write_i16 i"

definition write_stop :: string where
  "write_stop = [char_of T_STOP]"

definition write_list_header :: "nat \<Rightarrow> nat \<Rightarrow> string" where
  "write_list_header elem_type count = char_of elem_type # write_i32 (int count)"

definition write_field_schema :: "string \<times> string \<Rightarrow> string" where
  "write_field_schema c =
     write_field T_STRING 1 @ write_string (fst c) @
     write_field T_STRING 2 @ write_string (snd c) @ write_stop"

definition write_pair :: "string \<times> string \<Rightarrow> string" where
  "write_pair kv = write_string (fst kv) @ write_string (snd kv)"

definition write_string_map :: "(string \<times> string) list \<Rightarrow> string" where
  "write_string_map pairs =
     char_of T_STRING # char_of T_STRING # write_i32 (int (length pairs)) @ concat (map write_pair pairs)"

definition write_new_table :: "new_hive_table \<Rightarrow> string" where
  "write_new_table tbl =
     write_field T_STRING 1 @ write_string (nt_table_name tbl) @
     write_field T_STRING 2 @ write_string (nt_db_name tbl) @
     write_field T_STRUCT 7 @
       write_field T_LIST 1 @ write_list_header T_STRUCT (length (nt_columns tbl)) @
         concat (map write_field_schema (nt_columns tbl)) @
       write_field T_STRING 2 @ write_string (nt_location tbl) @
       write_field T_STRING 3 @ write_string (nt_input_format tbl) @
       write_field T_STRING 4 @ write_string (nt_output_format tbl) @
       write_field T_STRUCT 7 @
         write_field T_STRING 2 @ write_string (nt_serde_lib tbl) @
         write_field T_MAP 3 @ write_string_map (nt_serde_params tbl) @
       write_stop @
     write_stop @
     write_field T_LIST 8 @ write_list_header T_STRUCT (length (nt_partition_columns tbl)) @
       concat (map write_field_schema (nt_partition_columns tbl)) @
     write_field T_MAP 9 @ write_string_map [] @
     write_field T_STRING 12 @ write_string ''EXTERNAL_TABLE'' @
     write_stop"

section \<open>Primitive readers\<close>

definition r_byte :: "nat reader" where
  "r_byte s = (case s of [] \<Rightarrow> IoFailed ''read byte'' | c # s' \<Rightarrow> Read (of_char c) s')"

definition r_i16 :: "int reader" where
  "r_i16 s = (if length s < 2 then IoFailed ''read i16''
              else Read (to_signed 16 (be_nat (take 2 s))) (drop 2 s))"

definition r_i32 :: "int reader" where
  "r_i32 s = (if length s < 4 then IoFailed ''read i32''
              else Read (to_signed 32 (be_nat (take 4 s))) (drop 4 s))"

definition read_n :: "nat \<Rightarrow> string reader" where
  "read_n n s = (if length s < n then IoFailed (''read '' @ show_nat n @ '' bytes'')
                 else Read (take n s) (drop n s))"

definition r_string :: "string reader" where
  "r_string s =
     rd_bind (r_i32 s) (\<lambda>len s.
     rd_bind (read_n (nat len) s) (\<lambda>bytes s.
       case utf8_error 0 bytes of
         None \<Rightarrow> Read bytes s
       | Some e \<Rightarrow> Failed (Io (''utf8: '' @ utf8_error_text e))))"

definition read_field_header :: "(nat \<times> int) reader" where
  "read_field_header s =
     rd_bind (r_byte s) (\<lambda>ftype s.
       if ftype = T_STOP then Read (T_STOP, 0) s
       else rd_bind (r_i16 s) (\<lambda>i s. Read (ftype, i) s))"

definition read_list_header :: "(nat \<times> int) reader" where
  "read_list_header s =
     rd_bind (r_byte s) (\<lambda>et s. rd_bind (r_i32 s) (\<lambda>n s. Read (et, n) s))"

section \<open>Structs\<close>

text \<open>
  The loop every reader of a struct has: fields until the stop marker, each given to a handler with what
  was read so far. A field is at least three bytes long, so the length of the stream bounds the rounds.
\<close>

primrec field_loop :: "nat \<Rightarrow> (nat \<Rightarrow> int \<Rightarrow> 'a \<Rightarrow> 'a reader) \<Rightarrow> 'a \<Rightarrow> 'a reader" where
  "field_loop 0 h acc s = OutOfFuel"
| "field_loop (Suc n) h acc s =
     rd_bind (read_field_header s) (\<lambda>(ft, fid) s.
       if ft = T_STOP then Read acc s
       else rd_bind (h ft fid acc s) (\<lambda>acc s. field_loop n h acc s))"

definition read_fields :: "(nat \<Rightarrow> int \<Rightarrow> 'a \<Rightarrow> 'a reader) \<Rightarrow> 'a \<Rightarrow> 'a reader" where
  "read_fields h acc s = field_loop (Suc (length s)) h acc s"

text \<open>\<^verbatim>\<open>skip\<close>, bounded by the depth of nesting; each level consumes at least one byte.\<close>

primrec skip_value :: "nat \<Rightarrow> nat \<Rightarrow> unit reader" where
  "skip_value 0 t s = OutOfFuel"
| "skip_value (Suc d) t s =
     (if t = T_BOOL \<or> t = T_BYTE then rd_bind (r_byte s) (\<lambda>_ s. Read () s)
      else if t = T_I16 then rd_bind (r_i16 s) (\<lambda>_ s. Read () s)
      else if t = T_I32 then rd_bind (r_i32 s) (\<lambda>_ s. Read () s)
      else if t = T_I64 \<or> t = T_DOUBLE then rd_bind (read_n 8 s) (\<lambda>_ s. Read () s)
      else if t = T_STRING then
        rd_bind (r_i32 s) (\<lambda>len s. rd_bind (read_n (nat len) s) (\<lambda>_ s. Read () s))
      else if t = T_STRUCT then read_fields (\<lambda>ft _ _. skip_value d ft) () s
      else if t = T_MAP then
        rd_bind (r_byte s) (\<lambda>kt s. rd_bind (r_byte s) (\<lambda>vt s. rd_bind (r_i32 s) (\<lambda>n s.
          rd_bind (read_times (nat n) (\<lambda>s. rd_bind (skip_value d kt s) (\<lambda>_ s. skip_value d vt s)) s)
            (\<lambda>_ s. Read () s))))
      else if t = T_LIST \<or> t = T_SET then
        rd_bind (read_list_header s) (\<lambda>(et, n) s.
          rd_bind (read_times (nat n) (skip_value d et) s) (\<lambda>_ s. Read () s))
      else Failed (Io (''unknown thrift type id '' @ show_nat t)))"

definition skip :: "nat \<Rightarrow> unit reader" where
  "skip t s = skip_value (Suc (length s)) t s"

section \<open>Structured readers\<close>

definition skip_keep :: "nat \<Rightarrow> 'a \<Rightarrow> 'a reader" where
  "skip_keep ft acc s = rd_bind (skip ft s) (\<lambda>_ s. Read acc s)"

definition field_schema_field :: "nat \<Rightarrow> int \<Rightarrow> string \<times> string \<Rightarrow> (string \<times> string) reader" where
  "field_schema_field ft fid c s =
     (if fid = 1 \<and> ft = T_STRING then rd_bind (r_string s) (\<lambda>name s. Read (name, snd c) s)
      else if fid = 2 \<and> ft = T_STRING then rd_bind (r_string s) (\<lambda>ty s. Read (fst c, ty) s)
      else skip_keep ft c s)"

definition read_field_schema :: "(string \<times> string) reader" where
  "read_field_schema = read_fields field_schema_field ([], [])"

definition read_field_schemas :: "(string \<times> string) list reader" where
  "read_field_schemas s =
     rd_bind (read_list_header s) (\<lambda>(et, n) s.
       if et \<noteq> T_STRUCT then rd_bind (read_times (nat n) (skip et) s) (\<lambda>_ s. Read [] s)
       else read_times (nat n) read_field_schema s)"

definition read_string_list :: "string list reader" where
  "read_string_list s =
     rd_bind (read_list_header s) (\<lambda>(et, n) s.
       if et = T_STRING then read_times (nat n) r_string s
       else rd_bind (read_times (nat n) (skip et) s) (\<lambda>_ s. Read [] s))"

definition r_string_or_skip :: "nat \<Rightarrow> string reader" where
  "r_string_or_skip t s = (if t = T_STRING then r_string s else rd_bind (skip t s) (\<lambda>_ s. Read [] s))"

definition read_pair :: "nat \<Rightarrow> nat \<Rightarrow> (string \<times> string) reader" where
  "read_pair kt vt s =
     rd_bind (r_string_or_skip kt s) (\<lambda>k s. rd_bind (r_string_or_skip vt s) (\<lambda>v s. Read (k, v) s))"

definition read_string_map :: "(string \<times> string) list reader" where
  "read_string_map s =
     rd_bind (r_byte s) (\<lambda>kt s. rd_bind (r_byte s) (\<lambda>vt s. rd_bind (r_i32 s) (\<lambda>n s.
       read_times (nat n) (read_pair kt vt) s)))"

definition serde_field :: "nat \<Rightarrow> int \<Rightarrow> string option \<Rightarrow> string option reader" where
  "serde_field ft fid lib s =
     (if fid = 2 \<and> ft = T_STRING then rd_bind (r_string s) (\<lambda>v s. Read (Some v) s)
      else skip_keep ft lib s)"

definition read_serde_lib :: "string option reader" where
  "read_serde_lib = read_fields serde_field None"

definition sd_field :: "nat \<Rightarrow> int \<Rightarrow> hive_table \<Rightarrow> hive_table reader" where
  "sd_field ft fid t s =
     (if fid = 1 \<and> ft = T_LIST then rd_bind (read_field_schemas s) (\<lambda>cs s. Read (t\<lparr>ht_columns := cs\<rparr>) s)
      else if fid = 2 \<and> ft = T_STRING then rd_bind (r_string s) (\<lambda>v s. Read (t\<lparr>ht_location := Some v\<rparr>) s)
      else if fid = 3 \<and> ft = T_STRING then rd_bind (r_string s) (\<lambda>v s. Read (t\<lparr>ht_input_format := Some v\<rparr>) s)
      else if fid = 7 \<and> ft = T_STRUCT then rd_bind (read_serde_lib s) (\<lambda>v s. Read (t\<lparr>ht_serde_lib := v\<rparr>) s)
      else skip_keep ft t s)"

definition read_storage_descriptor :: "hive_table \<Rightarrow> hive_table reader" where
  "read_storage_descriptor t = read_fields sd_field t"

definition table_field :: "nat \<Rightarrow> int \<Rightarrow> hive_table \<Rightarrow> hive_table reader" where
  "table_field ft fid t s =
     (if fid = 7 \<and> ft = T_STRUCT then read_storage_descriptor t s
      else if fid = 8 \<and> ft = T_LIST then
        rd_bind (read_field_schemas s) (\<lambda>ps s.
          Read (t\<lparr>ht_partition_columns := map fst ps, ht_partition_typed := ps\<rparr>) s)
      else if fid = 9 \<and> ft = T_MAP then rd_bind (read_string_map s) (\<lambda>m s. Read (t\<lparr>ht_parameters := m\<rparr>) s)
      else if fid = 12 \<and> ft = T_STRING then rd_bind (r_string s) (\<lambda>v s. Read (t\<lparr>ht_table_type := Some v\<rparr>) s)
      else skip_keep ft t s)"

definition read_table_struct :: "hive_table reader" where
  "read_table_struct = read_fields table_field hive_table_default"

definition message_field :: "nat \<Rightarrow> int \<Rightarrow> string \<Rightarrow> string reader" where
  "message_field ft fid m s =
     (if fid = 1 \<and> ft = T_STRING \<and> m = [] then r_string s else skip_keep ft m s)"

definition read_struct_message :: "string reader" where
  "read_struct_message = read_fields message_field []"

definition app_exception_field :: "nat \<Rightarrow> int \<Rightarrow> string \<Rightarrow> string reader" where
  "app_exception_field ft fid m s =
     (if fid = 1 \<and> ft = T_STRING then r_string s else skip_keep ft m s)"

definition read_app_exception :: "string reader" where
  "read_app_exception s =
     rd_bind (read_fields app_exception_field [] s) (\<lambda>m s.
       Read (if m = [] then ''application exception'' else m) s)"

section \<open>Replies\<close>

definition hms_failed :: "string \<Rightarrow> string \<Rightarrow> error" where
  "hms_failed meth msg = Io (''Hive Metastore '' @ meth @ '' failed: '' @ msg)"

definition void_field :: "string \<Rightarrow> nat \<Rightarrow> int \<Rightarrow> unit \<Rightarrow> unit reader" where
  "void_field meth ft fid u s =
     (if ft = T_STRUCT then rd_bind (read_struct_message s) (\<lambda>msg s. Failed (hms_failed meth msg))
      else skip_keep ft () s)"

definition read_void_result :: "string \<Rightarrow> unit reader" where
  "read_void_result meth = read_fields (void_field meth) ()"

definition string_list_field :: "nat \<Rightarrow> int \<Rightarrow> string list \<Rightarrow> string list reader" where
  "string_list_field ft fid out s =
     (if fid = 0 \<and> ft = T_LIST then read_string_list s
      else if ft = T_STRUCT then
        rd_bind (read_struct_message s) (\<lambda>msg s. Failed (Io (''Hive Metastore error: '' @ msg)))
      else skip_keep ft out s)"

definition read_string_list_result :: "string list reader" where
  "read_string_list_result = read_fields string_list_field []"

definition no_such_table :: "string \<Rightarrow> string \<Rightarrow> error" where
  "no_such_table db table = Plan (''no such table: '' @ db @ ''.'' @ table)"

definition table_result_field :: "string \<Rightarrow> string \<Rightarrow> nat \<Rightarrow> int \<Rightarrow> hive_table option \<Rightarrow> hive_table option reader" where
  "table_result_field db table ft fid found s =
     (if fid = 0 \<and> ft = T_STRUCT then rd_bind (read_table_struct s) (\<lambda>t s. Read (Some t) s)
      else if ft = T_STRUCT then rd_bind (read_struct_message s) (\<lambda>_ s. Failed (no_such_table db table))
      else skip_keep ft found s)"

definition read_table_result :: "string \<Rightarrow> string \<Rightarrow> hive_table reader" where
  "read_table_result db table s =
     rd_bind (read_fields (table_result_field db table) None s) (\<lambda>found s.
       case found of Some t \<Rightarrow> Read t s | None \<Rightarrow> Failed (no_such_table db table))"

definition read_message_begin :: "string \<Rightarrow> unit reader" where
  "read_message_begin meth s =
     rd_bind (r_i32 s) (\<lambda>header s.
     rd_bind (r_string s) (\<lambda>_ s.
     rd_bind (r_i32 s) (\<lambda>_ s.
       if of_signed 32 header mod 256 = M_EXCEPTION
       then rd_bind (read_app_exception s) (\<lambda>msg s. Failed (hms_failed meth msg))
       else Read () s)))"

section \<open>Calls\<close>

text \<open>
  The client: what it sent, its sequence number, and whether the socket accepts a write. A call is given
  the bytes the server sends from then on.
\<close>

record metastore_client =
  mc_sent :: string
  mc_seq :: "32 word"
  mc_writable :: bool

definition call_message :: "string \<Rightarrow> string \<Rightarrow> 32 word \<Rightarrow> string" where
  "call_message meth args sq =
     write_i32 (int (VERSION_1 + M_CALL)) @ write_string meth @ write_i32 (sint sq) @ args"

definition call :: "string \<Rightarrow> string \<Rightarrow> 'a reader \<Rightarrow> string \<Rightarrow> metastore_client \<Rightarrow> 'a read \<times> metastore_client" where
  "call meth args reply inp c =
     (let c1 = c\<lparr>mc_seq := mc_seq c + 1\<rparr> in
      if \<not> mc_writable c1 then (IoFailed (''send '' @ meth), c1)
      else (rd_bind (read_message_begin meth inp) (\<lambda>_ s. reply s),
            c1\<lparr>mc_sent := mc_sent c1 @ call_message meth args (mc_seq c1)\<rparr>))"

definition get_all_databases :: "string \<Rightarrow> metastore_client \<Rightarrow> string list read \<times> metastore_client" where
  "get_all_databases = call ''get_all_databases'' write_stop read_string_list_result"

definition get_all_tables :: "string \<Rightarrow> string \<Rightarrow> metastore_client \<Rightarrow> string list read \<times> metastore_client" where
  "get_all_tables db_name =
     call ''get_all_tables'' (write_field T_STRING 1 @ write_string db_name @ write_stop) read_string_list_result"

definition get_table :: "string \<Rightarrow> string \<Rightarrow> string \<Rightarrow> metastore_client \<Rightarrow> hive_table read \<times> metastore_client" where
  "get_table db_name table =
     call ''get_table''
       (write_field T_STRING 1 @ write_string db_name @ write_field T_STRING 2 @ write_string table @ write_stop)
       (read_table_result db_name table)"

definition create_table :: "new_hive_table \<Rightarrow> string \<Rightarrow> metastore_client \<Rightarrow> unit read \<times> metastore_client" where
  "create_table tbl =
     call ''create_table'' (write_field T_STRUCT 1 @ write_new_table tbl @ write_stop) (read_void_result ''create_table'')"

section \<open>Thrift values\<close>

datatype tval =
    VBool char | VByte char | VI16 string | VI32 string | VI64 string | VDouble string | VString string
  | VStruct "(int \<times> tval) list" | VMap nat nat "(tval \<times> tval) list"
  | VSet nat "tval list" | VList nat "tval list"

fun ttype :: "tval \<Rightarrow> nat" where
  "ttype (VBool _) = T_BOOL" | "ttype (VByte _) = T_BYTE" | "ttype (VI16 _) = T_I16"
| "ttype (VI32 _) = T_I32" | "ttype (VI64 _) = T_I64" | "ttype (VDouble _) = T_DOUBLE"
| "ttype (VString _) = T_STRING" | "ttype (VStruct _) = T_STRUCT" | "ttype (VMap _ _ _) = T_MAP"
| "ttype (VSet _ _) = T_SET" | "ttype (VList _ _) = T_LIST"

fun tenc :: "tval \<Rightarrow> string" where
  "tenc (VBool b) = [b]" | "tenc (VByte b) = [b]" | "tenc (VI16 bs) = bs" | "tenc (VI32 bs) = bs"
| "tenc (VI64 bs) = bs" | "tenc (VDouble bs) = bs" | "tenc (VString s) = write_string s"
| "tenc (VStruct fs) = concat (map (\<lambda>(i, v). write_field (ttype v) i @ tenc v) fs) @ write_stop"
| "tenc (VMap kt vt kvs) = char_of kt # char_of vt # write_i32 (int (length kvs)) @
     concat (map (\<lambda>(k, v). tenc k @ tenc v) kvs)"
| "tenc (VSet t vs) = write_list_header t (length vs) @ concat (map tenc vs)"
| "tenc (VList t vs) = write_list_header t (length vs) @ concat (map tenc vs)"

text \<open>Fixed-width values have their width, lengths fit 31 bits, and elements have the declared type.\<close>

fun twf :: "tval \<Rightarrow> bool" where
  "twf (VBool b) = True" | "twf (VByte b) = True" | "twf (VI16 bs) = (length bs = 2)"
| "twf (VI32 bs) = (length bs = 4)" | "twf (VI64 bs) = (length bs = 8)" | "twf (VDouble bs) = (length bs = 8)"
| "twf (VString s) = (length s < 2 ^ 31)"
| "twf (VStruct fs) = list_all (\<lambda>(i, v). twf v) fs"
| "twf (VMap kt vt kvs) =
     (kt < 256 \<and> vt < 256 \<and> length kvs < 2 ^ 31 \<and>
      list_all (\<lambda>(k, v). twf k \<and> twf v \<and> ttype k = kt \<and> ttype v = vt) kvs)"
| "twf (VSet t vs) = (t < 256 \<and> length vs < 2 ^ 31 \<and> list_all (\<lambda>v. twf v \<and> ttype v = t) vs)"
| "twf (VList t vs) = (t < 256 \<and> length vs < 2 ^ 31 \<and> list_all (\<lambda>v. twf v \<and> ttype v = t) vs)"

definition str_ok :: "string \<Rightarrow> bool" where
  "str_ok s \<longleftrightarrow> utf8_valid s \<and> length s < 2 ^ 31"

definition pair_ok :: "string \<times> string \<Rightarrow> bool" where
  "pair_ok c \<longleftrightarrow> str_ok (fst c) \<and> str_ok (snd c)"



section \<open>Every reader ends\<close>

lemma r_byte_total [reader_total]: "rd_upto k r_byte" and r_byte_consumes: "rd_consumes r_byte"
  by (auto simp: rd_upto_def rd_consumes_def r_byte_def split: list.splits)

lemma r_i16_total [reader_total]: "rd_upto k r_i16"
  by (auto simp: rd_upto_def r_i16_def)

lemma r_i32_total [reader_total]: "rd_upto k r_i32" and r_i32_consumes: "rd_consumes r_i32"
  by (auto simp: rd_upto_def rd_consumes_def r_i32_def)

lemma read_n_total [reader_total]: "rd_upto k (read_n n)"
  by (auto simp: rd_upto_def read_n_def)

lemma r_string_total [reader_total]: "rd_upto k r_string"
  unfolding r_string_def [abs_def] by (intro reader_total)

lemma read_field_header_total [reader_total]: "rd_upto k read_field_header"
  unfolding read_field_header_def [abs_def] by (intro reader_total)

lemma read_field_header_consumes: "rd_consumes read_field_header"
  unfolding rd_consumes_def read_field_header_def r_byte_def r_i16_def
  by (auto split: list.splits if_splits)

lemma read_list_header_total [reader_total]: "rd_upto k read_list_header"
  unfolding read_list_header_def [abs_def] by (intro reader_total)

lemma read_list_header_consumes: "rd_consumes read_list_header"
  unfolding rd_consumes_def read_list_header_def r_byte_def r_i32_def
  by (auto split: list.splits if_splits)

lemma field_loop_total:
  "k < n \<Longrightarrow> (\<And>ft fid acc. rd_upto (k - 1) (h ft fid acc)) \<Longrightarrow> rd_upto k (field_loop n h acc)"
proof (induction n arbitrary: k acc)
  case (Suc n)
  have eq: "field_loop (Suc n) h acc = (\<lambda>s. rd_bind (read_field_header s) (\<lambda>(ft, fid) s.
       if ft = T_STOP then Read acc s else rd_bind (h ft fid acc s) (\<lambda>acc s. field_loop n h acc s)))"
    by (rule ext) simp
  have "rd_upto (k - 1) (field_loop n h acc')" if "0 < k" for acc'
    using Suc.prems(1) that by (intro Suc.IH rd_upto_mono [OF Suc.prems(2)]) auto
  then show ?case
    unfolding eq
    by (intro rd_upto_bind_strict rd_totalI read_field_header_total read_field_header_consumes
        rd_upto_prod rd_upto_if rd_upto_Read rd_upto_bind Suc.prems(2))
qed simp

lemma read_fields_total_strict:
  assumes "\<And>ft fid acc. rd_upto (k - 1) (h ft fid acc)" shows "rd_upto k (read_fields h acc)"
proof -
  have "rd_upto (length s) (field_loop (Suc (length s)) h acc)" if "length s \<le> k" for s :: string
    using that by (intro field_loop_total rd_upto_mono [OF assms]) auto
  then show ?thesis by (auto simp: rd_upto_def read_fields_def)
qed

lemma read_fields_total [reader_total]:
  "(\<And>ft fid acc. rd_upto k (h ft fid acc)) \<Longrightarrow> rd_upto k (read_fields h acc)"
  by (rule read_fields_total_strict) (rule rd_upto_mono, auto)

lemma skip_value_total: "k < d \<Longrightarrow> rd_upto k (skip_value d t)"
proof (induction d arbitrary: k t)
  case (Suc d)
  have IH: "0 < k \<Longrightarrow> rd_upto (k - 1) (skip_value d u)" for u using Suc by (intro Suc.IH) auto
  have st: "rd_upto k (read_fields (\<lambda>ft _ _. skip_value d ft) ())"
  proof (cases "0 < k")
    case False
    then have "read_fields h () s = IoFailed ''read byte''" if "length s \<le> k" for h and s :: string
      using that by (simp add: read_fields_def read_field_header_def r_byte_def)
    then show ?thesis by (simp add: rd_upto_def)
  qed (intro read_fields_total_strict IH)
  show ?case
    unfolding skip_value.simps(2) [abs_def]
    by (intro rd_upto_if st rd_upto_fail rd_upto_bind_strict [of r_byte] rd_upto_bind_strict [of read_list_header]
        rd_totalI r_byte_consumes read_list_header_consumes
        rd_upto_bind [of _ r_byte] rd_upto_bind [of _ r_i16] rd_upto_bind [of _ r_i32] rd_upto_bind [of _ "read_n _"]
        rd_upto_bind [of _ "read_times _ _"] rd_upto_bind [of _ "skip_value _ _"]
        rd_upto_prod rd_upto_times r_byte_total r_i16_total r_i32_total read_n_total read_list_header_total
        rd_upto_Read IH)
qed simp

lemma skip_total [reader_total]: "rd_upto k (skip t)"
proof -
  have "rd_upto (length s) (skip_value (Suc (length s)) t)" for s :: string
    by (rule skip_value_total) simp
  then show ?thesis using rd_uptoD unfolding rd_upto_def skip_def by blast
qed

lemma skip_keep_total [reader_total]: "rd_upto k (skip_keep t acc)"
  unfolding skip_keep_def [abs_def] by (intro reader_total)

lemma struct_readers_total [reader_total]:
  "rd_upto k (field_schema_field ft fid c)" "rd_upto k read_field_schema" "rd_upto k read_field_schemas"
  "rd_upto k read_string_list" "rd_upto k (r_string_or_skip ft)" "rd_upto k (read_pair kt vt)"
  "rd_upto k read_string_map" "rd_upto k (serde_field ft fid lib)" "rd_upto k read_serde_lib"
  "rd_upto k (sd_field ft fid t)" "rd_upto k (read_storage_descriptor t)" "rd_upto k (table_field ft fid t)"
  "rd_upto k read_table_struct" "rd_upto k (message_field ft fid m)" "rd_upto k read_struct_message"
  unfolding field_schema_field_def [abs_def] read_field_schema_def read_field_schemas_def [abs_def]
    read_string_list_def [abs_def] r_string_or_skip_def [abs_def] read_pair_def [abs_def]
    read_string_map_def [abs_def] serde_field_def [abs_def] read_serde_lib_def sd_field_def [abs_def]
    read_storage_descriptor_def [abs_def] table_field_def [abs_def] read_table_struct_def
    message_field_def [abs_def] read_struct_message_def
  by (intro reader_total)+

lemma reply_readers_total [reader_total]:
  "rd_upto k (void_field meth ft fid u)" "rd_upto k (string_list_field ft fid out)"
  "rd_upto k (table_result_field db table ft fid found)" "rd_upto k (app_exception_field ft fid m)"
  unfolding void_field_def [abs_def] string_list_field_def [abs_def] table_result_field_def [abs_def]
    app_exception_field_def [abs_def]
  by (intro reader_total)+

lemma replies_total [reader_total]:
  "rd_upto k (read_void_result meth)" "rd_upto k read_string_list_result" "rd_upto k (read_table_result db table)"
  "rd_upto k read_app_exception"
  unfolding read_void_result_def read_string_list_result_def read_table_result_def [abs_def]
    read_app_exception_def [abs_def]
  by (intro reader_total)+

lemma read_message_begin_total [reader_total]: "rd_upto k (read_message_begin meth)"
  unfolding read_message_begin_def [abs_def] by (intro reader_total)

section \<open>What was written is read\<close>

lemma char_of_of_byte [simp]: "n < 256 \<Longrightarrow> (of_char (char_of n :: char) :: nat) = n"
  by simp

lemma r_byte_Cons [simp]: "r_byte (c # s) = Read (of_char c) s"
  by (simp add: r_byte_def)

lemma r_i16_raw: "length bs = 2 \<Longrightarrow> r_i16 (bs @ s) = Read (to_signed 16 (be_nat bs)) s"
  by (simp add: r_i16_def)

lemma r_i32_raw: "length bs = 4 \<Longrightarrow> r_i32 (bs @ s) = Read (to_signed 32 (be_nat bs)) s"
  by (simp add: r_i32_def)

lemma read_n_append [simp]: "read_n (length bs) (bs @ s) = Read bs s"
  by (simp add: read_n_def)

lemma r_i16_write [simp]: "- (2 ^ 15) \<le> v \<Longrightarrow> v < 2 ^ 15 \<Longrightarrow> r_i16 (write_i16 v @ s) = Read v s"
  using of_signed_bound [of 16 v] to_of_signed [of 16 v]
  by (simp add: write_i16_def r_i16_raw be_nat_nat_be)

lemma r_i32_write [simp]: "- (2 ^ 31) \<le> v \<Longrightarrow> v < 2 ^ 31 \<Longrightarrow> r_i32 (write_i32 v @ s) = Read v s"
  using of_signed_bound [of 32 v] to_of_signed [of 32 v]
  by (simp add: write_i32_def r_i32_raw be_nat_nat_be)

lemma r_i32_length [simp]: "n < 2 ^ 31 \<Longrightarrow> r_i32 (write_i32 (int n) @ s) = Read (int n) s"
  by simp

lemma read_field_header_raw:
  "0 < ft \<Longrightarrow> ft < 256 \<Longrightarrow> \<exists>j. read_field_header (write_field ft i @ s) = Read (ft, j) s"
  by (simp add: read_field_header_def write_field_def write_i16_def r_i16_raw)

lemma read_field_header_write [simp]:
  "0 < ft \<Longrightarrow> ft < 256 \<Longrightarrow> - (2 ^ 15) \<le> i \<Longrightarrow> i < 2 ^ 15 \<Longrightarrow>
     read_field_header (write_field ft i @ s) = Read (ft, i) s"
  by (simp add: read_field_header_def write_field_def)

lemma read_field_header_stop [simp]: "read_field_header (write_stop @ s) = Read (0, 0) s"
  by (simp add: read_field_header_def write_stop_def)

lemma read_list_header_write [simp]:
  "t < 256 \<Longrightarrow> n < 2 ^ 31 \<Longrightarrow> read_list_header (write_list_header t n @ s) = Read (t, int n) s"
  by (simp add: read_list_header_def write_list_header_def)

text \<open>Enough rounds are as good as any other number of rounds.\<close>

lemma length_write_field [simp]: "length (write_field ft i) = 3"
  by (simp add: write_field_def write_i16_def)

lemma field_loop_enough:
  assumes h: "\<And>ft fid acc. rd_upto (k - 1) (h ft fid acc)"
  shows "length s \<le> k \<Longrightarrow> length s < n \<Longrightarrow> length s < m \<Longrightarrow> field_loop n h acc s = field_loop m h acc s"
proof (induction n arbitrary: m s acc)
  case (Suc n)
  then obtain m' where m: "m = Suc m'" by (cases m) auto
  show ?case
  proof (cases "read_field_header s")
    case (Read x t)
    obtain ft fid where x: "x = (ft, fid)" by fastforce
    have t: "length t < length s" by (rule rd_consumesD [OF read_field_header_consumes Read])
    show ?thesis
    proof (cases "h ft fid acc t")
      case inner: (Read acc' u)
      have "length u \<le> length t"
        using rd_uptoD [OF h [of ft fid acc], of t] inner t Suc.prems by simp
      with t Suc.prems m have "field_loop n h acc' u = field_loop m' h acc' u"
        by (intro Suc.IH) auto
      with Read x inner m show ?thesis by simp
    qed (use Read x m in simp_all)
  qed (use m in simp_all)
qed simp

lemma read_fields_field:
  assumes h: "\<And>ft fid acc. rd_upto (length s) (h ft fid acc)"
    and hd: "read_field_header (write_field ft' i @ s) = Read (ft, j) s" "ft \<noteq> 0"
  shows "read_fields h acc (write_field ft' i @ s) = rd_bind (h ft j acc s) (\<lambda>acc s. read_fields h acc s)"
proof (cases "h ft j acc s")
  case (Read acc' t)
  have t: "length t \<le> length s" using rd_uptoD [OF h [of ft j acc], of s] Read by simp
  have "field_loop (length (write_field ft' i @ s)) h acc' t = read_fields h acc' t"
    unfolding read_fields_def
    by (rule field_loop_enough [where k = "length s"]) (use t in \<open>auto intro: rd_upto_mono [OF h]\<close>)
  with Read hd show ?thesis by (simp only: read_fields_def [of h acc] field_loop.simps) simp
qed (use hd in \<open>simp_all only: read_fields_def field_loop.simps, simp_all\<close>)

lemma read_fields_step [roundtrip_simps]:
  assumes "\<And>k ft fid acc. rd_upto k (h ft fid acc)" "0 < ft" "ft < 256" "- (2 ^ 15) \<le> i" "i < 2 ^ 15"
  shows "read_fields h acc (write_field ft i @ s) = rd_bind (h ft i acc s) (\<lambda>acc s. read_fields h acc s)"
  using assms by (intro read_fields_field) auto

lemma read_fields_stop [simp]: "read_fields h acc (write_stop @ s) = Read acc s"
  by (simp add: read_fields_def)

interpretation thrift_string: codec write_string r_string str_ok
  by unfold_locales (auto simp: str_ok_def utf8_valid_def r_string_def write_string_def)

lemma r_string_write [simp]: "str_ok x \<Longrightarrow> r_string (write_string x @ s) = Read x s"
  by (rule thrift_string.dec_enc)

interpretation thrift_pair: codec write_pair "read_pair T_STRING T_STRING" pair_ok
  by unfold_locales (auto simp: pair_ok_def read_pair_def write_pair_def r_string_or_skip_def)

interpretation thrift_field_schema: codec write_field_schema read_field_schema pair_ok
  by unfold_locales (simp add: pair_ok_def read_field_schema_def write_field_schema_def
      read_fields_step [OF struct_readers_total(1)] field_schema_field_def)

lemma read_string_map_write [simp]:
  assumes "length m < 2 ^ 31" "list_all pair_ok m"
  shows "read_string_map (write_string_map m @ s) = Read m s"
  using assms thrift_pair.dec_enc_list by (simp add: read_string_map_def write_string_map_def)

lemma read_field_schemas_write [simp]:
  assumes "length cs < 2 ^ 31" "list_all pair_ok cs"
  shows "read_field_schemas (write_list_header T_STRUCT (length cs) @ concat (map write_field_schema cs) @ s) = Read cs s"
  using assms thrift_field_schema.dec_enc_list by (simp add: read_field_schemas_def)

section \<open>Skipping exactly one value\<close>

lemma ttype_range [simp]: "0 < ttype v" "ttype v < 256"
  by (cases v; simp)+

lemma read_times_skip:
  "(\<And>v rest. v \<in> set vs \<Longrightarrow> length (tenc v @ rest) \<le> k \<Longrightarrow> r (tenc v @ rest) = Read () rest) \<Longrightarrow>
   length (concat (map tenc vs) @ rest) \<le> k \<Longrightarrow>
   read_times (length vs) r (concat (map tenc vs) @ rest) = Read (replicate (length vs) ()) rest"
  by (induction vs) auto

lemma read_times_skip_pairs:
  "(\<And>a b rest. (a, b) \<in> set kvs \<Longrightarrow> length (tenc a @ tenc b @ rest) \<le> k \<Longrightarrow> r (tenc a @ tenc b @ rest) = Read () rest) \<Longrightarrow>
   length (concat (map (\<lambda>(a, b). tenc a @ tenc b) kvs) @ rest) \<le> k \<Longrightarrow>
   read_times (length kvs) r (concat (map (\<lambda>(a, b). tenc a @ tenc b) kvs) @ rest) = Read (replicate (length kvs) ()) rest"
  by (induction kvs) auto

lemma read_fields_skip:
  assumes "\<And>k' ft. k' < k \<Longrightarrow> rd_upto k' (r ft)"
  shows "(\<And>i v rest. (i, v) \<in> set fs \<Longrightarrow> length (tenc v @ rest) < k \<Longrightarrow> r (ttype v) (tenc v @ rest) = Read () rest) \<Longrightarrow>
   length (concat (map (\<lambda>(i, v). write_field (ttype v) i @ tenc v) fs) @ write_stop @ rest) \<le> k \<Longrightarrow>
   read_fields (\<lambda>ft _ _. r ft) () (concat (map (\<lambda>(i, v). write_field (ttype v) i @ tenc v) fs) @ write_stop @ rest) = Read () rest"
proof (induction fs)
  case (Cons x fs)
  obtain i v where x: "x = (i, v)" by fastforce
  let ?more = "concat (map (\<lambda>(i, v). write_field (ttype v) i @ tenc v) fs) @ write_stop @ rest"
  obtain j where j: "read_field_header (write_field (ttype v) i @ tenc v @ ?more) = Read (ttype v, j) (tenc v @ ?more)"
    using read_field_header_raw [of "ttype v" i "tenc v @ ?more"] by auto
  have len: "length (write_field (ttype v) i @ tenc v @ ?more) \<le> k" using Cons.prems(2) x by simp
  then have lt: "length (tenc v @ ?more) < k" by simp
  then have "r (ttype v) (tenc v @ ?more) = Read () ?more"
    by (intro Cons.prems(1) [of i]) (simp_all add: x)
  moreover have "read_fields (\<lambda>ft _ _. r ft) () ?more = Read () rest"
    using len by (intro Cons.IH Cons.prems(1)) auto
  moreover have "read_fields (\<lambda>ft _ _. r ft) () (write_field (ttype v) i @ tenc v @ ?more) =
      rd_bind (r (ttype v) (tenc v @ ?more)) (\<lambda>acc s. read_fields (\<lambda>ft _ _. r ft) acc s)"
    using assms lt j ttype_range(1) [of v] by (intro read_fields_field) auto
  ultimately show ?case using x by simp
qed simp

lemma skip_value_simple:
  "length ([b] @ rest) < d \<Longrightarrow> skip_value d T_BOOL ([b] @ rest) = Read () rest"
  "length ([b] @ rest) < d \<Longrightarrow> skip_value d T_BYTE ([b] @ rest) = Read () rest"
  "length bs = 2 \<Longrightarrow> length (bs @ rest) < d \<Longrightarrow> skip_value d T_I16 (bs @ rest) = Read () rest"
  "length bs = 4 \<Longrightarrow> length (bs @ rest) < d \<Longrightarrow> skip_value d T_I32 (bs @ rest) = Read () rest"
  "length bs = 8 \<Longrightarrow> length (bs @ rest) < d \<Longrightarrow> skip_value d T_I64 (bs @ rest) = Read () rest"
  "length bs = 8 \<Longrightarrow> length (bs @ rest) < d \<Longrightarrow> skip_value d T_DOUBLE (bs @ rest) = Read () rest"
  "length bs < 2 ^ 31 \<Longrightarrow> length (write_string bs @ rest) < d \<Longrightarrow> skip_value d T_STRING (write_string bs @ rest) = Read () rest"
  by (cases d; simp add: r_i16_raw r_i32_raw read_n_def write_string_def)+

lemma skip_value_exact:
  "twf v \<Longrightarrow> length (tenc v @ rest) < d \<Longrightarrow> skip_value d (ttype v) (tenc v @ rest) = Read () rest"
proof (induction v arbitrary: d rest)
  case (VStruct fs)
  then obtain d' where d: "d = Suc d'" by (cases d) auto
  have IH: "skip_value d' (ttype v) (tenc v @ r) = Read () r"
    if "(i, v) \<in> set fs" "length (tenc v @ r) < d'" for i v r
    using VStruct.IH [of "(i, v)" v r d'] VStruct.prems(1) that by (auto simp: list_all_iff)
  have "read_fields (\<lambda>ft _ _. skip_value d' ft) ()
      (concat (map (\<lambda>(i, v). write_field (ttype v) i @ tenc v) fs) @ write_stop @ rest) = Read () rest"
    using VStruct.prems(2) d by (intro read_fields_skip [where k = d'] skip_value_total IH) auto
  then show ?case by (simp add: d)
next
  case (VMap kt vt kvs)
  then obtain d' where d: "d = Suc d'" by (cases d) auto
  have IH: "rd_bind (skip_value d' kt (tenc a @ tenc b @ r)) (\<lambda>_ s. skip_value d' vt s) = Read () r"
    if "(a, b) \<in> set kvs" "length (tenc a @ tenc b @ r) < d'" for a b r
    using VMap.IH(1) [of "(a, b)" a "tenc b @ r" d'] VMap.IH(2) [of "(a, b)" b r d'] VMap.prems(1) that
    by (auto simp: list_all_iff)
  have "read_times (length kvs) (\<lambda>s. rd_bind (skip_value d' kt s) (\<lambda>_ s. skip_value d' vt s))
      (concat (map (\<lambda>(a, b). tenc a @ tenc b) kvs) @ rest) = Read (replicate (length kvs) ()) rest"
    using VMap.prems(2) d by (intro read_times_skip_pairs [where k = "d' - 1"] IH) auto
  with VMap.prems(1) show ?case by (simp add: d)
next
  case (VSet t vs)
  then obtain d' where d: "d = Suc d'" by (cases d) auto
  have IH: "skip_value d' t (tenc v @ r) = Read () r" if "v \<in> set vs" "length (tenc v @ r) < d'" for v r
    using VSet.IH [of v r d'] VSet.prems(1) that by (auto simp: list_all_iff)
  have "read_times (length vs) (skip_value d' t) (concat (map tenc vs) @ rest) = Read (replicate (length vs) ()) rest"
    using VSet.prems(2) d by (intro read_times_skip [where k = "d' - 1"] IH) (auto simp: write_list_header_def)
  with VSet.prems(1) show ?case by (simp add: d)
next
  case (VList t vs)
  then obtain d' where d: "d = Suc d'" by (cases d) auto
  have IH: "skip_value d' t (tenc v @ r) = Read () r" if "v \<in> set vs" "length (tenc v @ r) < d'" for v r
    using VList.IH [of v r d'] VList.prems(1) that by (auto simp: list_all_iff)
  have "read_times (length vs) (skip_value d' t) (concat (map tenc vs) @ rest) = Read (replicate (length vs) ()) rest"
    using VList.prems(2) d by (intro read_times_skip [where k = "d' - 1"] IH) (auto simp: write_list_header_def)
  with VList.prems(1) show ?case by (simp add: d)
qed (simp_all only: skip_value_simple ttype.simps tenc.simps twf.simps)

lemma skip_exact: "twf v \<Longrightarrow> skip (ttype v) (tenc v @ rest) = Read () rest"
  by (simp add: skip_def skip_value_exact del: skip_value.simps)

lemma skip_keep_string [simp]: "length x < 2 ^ 31 \<Longrightarrow> skip_keep T_STRING acc (write_string x @ s) = Read acc s"
  using skip_exact [of "VString x" s] by (simp add: skip_keep_def)

lemma skip_keep_map [simp]:
  assumes "length m < 2 ^ 31" "list_all pair_ok m"
  shows "skip_keep T_MAP acc (write_string_map m @ s) = Read acc s"
proof -
  let ?v = "VMap T_STRING T_STRING (map (\<lambda>(k, v). (VString k, VString v)) m)"
  have "tenc ?v = write_string_map m"
    by (simp add: write_string_map_def write_pair_def [abs_def] o_def case_prod_unfold)
  moreover have "twf ?v"
    using assms by (auto simp: list_all_iff pair_ok_def str_ok_def)
  ultimately show ?thesis using skip_exact [of ?v s] by (simp add: skip_keep_def)
qed

lemma call_ends:
  assumes "\<And>k. rd_upto k r" shows "fst (call meth args r inp c) \<noteq> OutOfFuel"
proof -
  have "rd_upto (length inp) (\<lambda>s. rd_bind (read_message_begin meth s) (\<lambda>_ s. r s))"
    by (intro reader_total assms)
  from rd_uptoD [OF this, of inp] show ?thesis by (auto simp: call_def Let_def)
qed

section \<open>Properties\<close>



text \<open>
  A field the client does not know is passed over: whatever well-formed value another version of the
  Metastore puts under another field id, the table read is the one without that field.
\<close>

theorem unknown_field_ignored:
  assumes "twf v" and "i \<notin> {7, 8, 9, 12}" and "- (2 ^ 15) \<le> i" and "i < 2 ^ 15"
  shows "read_fields table_field t (write_field (ttype v) i @ tenc v @ s) = read_fields table_field t s"
proof -
  have "table_field (ttype v) i t (tenc v @ s) = Read t s"
    using assms skip_exact [of v s] by (simp add: table_field_def skip_keep_def)
  then show ?thesis using assms by (simp add: read_fields_step [OF struct_readers_total(12)])
qed

theorem unknown_field_ignored_witness:
  "read_fields table_field hive_table_default
     (write_field T_LIST 20 @ tenc (VList T_BYTE [VByte CHR ''a'', VByte CHR ''b'']) @ write_stop) =
   Read hive_table_default []"
  using unknown_field_ignored [of "VList T_BYTE [VByte CHR ''a'', VByte CHR ''b'']" 20 hive_table_default write_stop]
    read_fields_stop [of table_field hive_table_default "[]"]
  by (simp del: tenc.simps)

text \<open>
  Every call ends on every reply: whatever bytes the server sends, nested as deeply as it likes, the
  client returns a value or an error.
\<close>

theorem metastore_calls_end:
  "fst (get_table db table inp c) \<noteq> OutOfFuel \<and> fst (get_all_databases inp c) \<noteq> OutOfFuel \<and>
   fst (get_all_tables db inp c) \<noteq> OutOfFuel \<and> fst (create_table tbl inp c) \<noteq> OutOfFuel"
  unfolding get_table_def get_all_databases_def get_all_tables_def create_table_def
  by (intro conjI call_ends replies_total)

end
