(* ===== verification/Pgoutput.thy ===== *)
theory Pgoutput
  imports Byte_Codec
begin

text \<open>
  The PostgreSQL replication protocol of \<^verbatim>\<open>oxidant-streaming/src/pg_replication.rs\<close>: log positions, the
  pgoutput version 1 decoder, the frames of the replication stream and the standby status update.

  \<^item> The cursor \<^verbatim>\<open>Reader\<close> is a reader over the bytes not yet consumed; \<open>what\<close> and the length \<open>n\<close> of the whole
    message are parameters, so that an error reports the offset the code reports.
  \<^item> \<open>enc_logical\<close> writes the messages as the protocol defines them; the decoder inverts it.
  \<^item> The loop over the sections of an update is bounded by the bytes left, and \<open>decode_logical_total\<close> shows
    that the bound is never reached.
\<close>

section \<open>Log positions\<close>

type_synonym lsn = nat

definition PG_EPOCH_UNIX_MICROS :: int where
  "PG_EPOCH_UNIX_MICROS = 946684800000000"

definition lsn_as_i64 :: "lsn \<Rightarrow> int" where
  "lsn_as_i64 l = to_signed 64 l"

definition lsn_from_i64 :: "int \<Rightarrow> lsn" where
  "lsn_from_i64 v = of_signed 64 v"

text \<open>\<^verbatim>\<open>u64::from_str_radix(_, 16)\<close>: an optional plus sign, at least one digit, at most 64 bits.\<close>

definition hex_value :: "char \<Rightarrow> nat option" where
  "hex_value c =
     (let n = of_char c :: nat in
      if 48 \<le> n \<and> n \<le> 57 then Some (n - 48)
      else if 65 \<le> n \<and> n \<le> 70 then Some (n - 55)
      else if 97 \<le> n \<and> n \<le> 102 then Some (n - 87)
      else None)"

fun hex_digits :: "string \<Rightarrow> nat \<Rightarrow> nat option" where
  "hex_digits [] acc = Some acc"
| "hex_digits (c # s) acc = (case hex_value c of None \<Rightarrow> None | Some d \<Rightarrow> hex_digits s (acc * 16 + d))"

definition parse_hex_u64 :: "string \<Rightarrow> nat option" where
  "parse_hex_u64 s =
     (let ds = (case s of c # s' \<Rightarrow> if c = CHR ''+'' then s' else s | [] \<Rightarrow> [])
      in if ds = [] then None
         else (case hex_digits ds 0 of Some v \<Rightarrow> if v < 2 ^ 64 then Some v else None | None \<Rightarrow> None))"

text \<open>\<^verbatim>\<open>(high << 32) | low\<close> on 64 bits.\<close>

unbundle bit_operations_syntax

definition lsn_parse :: "string \<Rightarrow> lsn result" where
  "lsn_parse text =
     (let t = trim text in
      case split_once CHR ''/'' t of
        None \<Rightarrow> Inl (Io (''`'' @ t @ ''` is not a Postgres LSN (expected `16/B374D848`)''))
      | Some (h, l) \<Rightarrow>
          (case parse_hex_u64 h of
             None \<Rightarrow> Inl (Io (''`'' @ t @ ''` is not a Postgres LSN''))
           | Some high \<Rightarrow>
               (case parse_hex_u64 l of
                  None \<Rightarrow> Inl (Io (''`'' @ t @ ''` is not a Postgres LSN''))
                | Some low \<Rightarrow> Inr ((high * 2 ^ 32 mod 2 ^ 64) OR low))))"

fun show_hex :: "nat \<Rightarrow> string" where
  "show_hex n = (if n < 16 then [hex_char n] else show_hex (n div 16) @ [hex_char (n mod 16)])"

declare show_hex.simps [simp del]

definition lsn_display :: "lsn \<Rightarrow> string" where
  "lsn_display l = show_hex (l div 2 ^ 32) @ ''/'' @ show_hex (l mod 2 ^ 32)"

section \<open>Messages\<close>

datatype tuple_data = TNull | UnchangedToast | TText string | TBinary string

record relation_column =
  rc_key :: bool
  rc_name :: string
  rc_type_oid :: nat
  rc_type_modifier :: int

record relation =
  rel_oid :: nat
  rel_namespace :: string
  rel_name :: string
  rel_replica_identity :: nat
  rel_columns :: "relation_column list"

definition rel_qualified :: "relation \<Rightarrow> string" where
  "rel_qualified r = rel_namespace r @ ''.'' @ rel_name r"

datatype logical_message =
    Begin lsn int nat
  | Commit nat lsn lsn int
  | Origin lsn string
  | Relation relation
  | Type nat string string
  | Insert nat "tuple_data list"
  | Update nat "tuple_data list option" "tuple_data list option" "tuple_data list"
  | Delete nat "tuple_data list option" "tuple_data list option"
  | Truncate nat "nat list"

section \<open>The cursor\<close>

text \<open>\<^verbatim>\<open>u8 as char\<close> printed in UTF-8.\<close>

definition as_char :: "nat \<Rightarrow> string" where
  "as_char b = (if b < 128 then [char_of b] else [char_of (192 + b div 64), char_of (128 + b mod 64)])"

definition pg_take :: "string \<Rightarrow> nat \<Rightarrow> nat \<Rightarrow> string reader" where
  "pg_take what n k s =
     (if k > length s then
        Failed (Io (what @ '' message is truncated: wanted '' @ show_nat k @ '' byte(s) at offset '' @
                    show_nat (n - length s) @ '', only '' @ show_nat (length s) @ '' left''))
      else Read (take k s) (drop k s))"

definition pg_u8 :: "string \<Rightarrow> nat \<Rightarrow> nat reader" where
  "pg_u8 what n s = rd_bind (pg_take what n 1 s) (\<lambda>b s. Read (be_nat b) s)"

definition pg_i16 :: "string \<Rightarrow> nat \<Rightarrow> int reader" where
  "pg_i16 what n s = rd_bind (pg_take what n 2 s) (\<lambda>b s. Read (to_signed 16 (be_nat b)) s)"

definition pg_u32 :: "string \<Rightarrow> nat \<Rightarrow> nat reader" where
  "pg_u32 what n s = rd_bind (pg_take what n 4 s) (\<lambda>b s. Read (be_nat b) s)"

definition pg_i32 :: "string \<Rightarrow> nat \<Rightarrow> int reader" where
  "pg_i32 what n s = rd_bind (pg_take what n 4 s) (\<lambda>b s. Read (to_signed 32 (be_nat b)) s)"

definition pg_i64 :: "string \<Rightarrow> nat \<Rightarrow> int reader" where
  "pg_i64 what n s = rd_bind (pg_take what n 8 s) (\<lambda>b s. Read (to_signed 64 (be_nat b)) s)"

definition pg_lsn :: "string \<Rightarrow> nat \<Rightarrow> lsn reader" where
  "pg_lsn what n s = rd_bind (pg_take what n 8 s) (\<lambda>b s. Read (be_nat b) s)"

definition pg_cstr :: "string \<Rightarrow> nat \<Rightarrow> string reader" where
  "pg_cstr what n s =
     (if char_of (0::nat) \<notin> set s then
        Failed (Io (what @ '' message ends inside a string at offset '' @ show_nat (n - length s)))
      else let t = takeWhile (\<lambda>c. c \<noteq> char_of (0::nat)) s in
        (case utf8_error 0 t of
           Some e \<Rightarrow> Failed (Io (what @ '' message has a non-UTF-8 string: '' @ utf8_error_text e))
         | None \<Rightarrow> Read t (drop (length t + 1) s)))"

definition pg_value :: "string \<Rightarrow> nat \<Rightarrow> tuple_data reader" where
  "pg_value what n s =
     rd_bind (pg_u8 what n s) (\<lambda>k s.
       if k = of_char CHR ''n'' then Read TNull s
       else if k = of_char CHR ''u'' then Read UnchangedToast s
       else if k = of_char CHR ''t'' then
         rd_bind (pg_i32 what n s) (\<lambda>len s. rd_bind (pg_take what n (nat len) s) (\<lambda>v s. Read (TText v) s))
       else if k = of_char CHR ''b'' then
         rd_bind (pg_i32 what n s) (\<lambda>len s. rd_bind (pg_take what n (nat len) s) (\<lambda>v s. Read (TBinary v) s))
       else Failed (Io (what @ '' message has tuple kind `'' @ as_char k @ ''`, which pgoutput v1 does not define'')))"

text \<open>A negative number is printed with its sign.\<close>

definition pg_tuple :: "string \<Rightarrow> nat \<Rightarrow> tuple_data list reader" where
  "pg_tuple what n s =
     rd_bind (pg_i16 what n s) (\<lambda>columns s.
       if columns < 0 then Failed (Io (what @ '' message declares '' @ show_int columns @ '' columns''))
       else read_times (nat columns) (pg_value what n) s)"

section \<open>The decoder\<close>

definition expect_tag :: "nat \<Rightarrow> char \<Rightarrow> string \<Rightarrow> unit reader" where
  "expect_tag n tag what s =
     rd_bind (pg_u8 ''pgoutput'' n s) (\<lambda>got s.
       if got \<noteq> of_char tag
       then Failed (Io (''pgoutput '' @ what @ '' message expected section `'' @ [tag] @ ''`, got `'' @ as_char got @ ''`''))
       else Read () s)"

definition pg_column :: "string \<Rightarrow> nat \<Rightarrow> relation_column reader" where
  "pg_column what n s =
     rd_bind (pg_u8 what n s) (\<lambda>k s. rd_bind (pg_cstr what n s) (\<lambda>nm s.
     rd_bind (pg_u32 what n s) (\<lambda>oid s. rd_bind (pg_i32 what n s) (\<lambda>md s.
       Read \<lparr>rc_key = (k mod 2 = 1), rc_name = nm, rc_type_oid = oid, rc_type_modifier = md\<rparr> s))))"

primrec update_sections ::
  "nat \<Rightarrow> nat \<Rightarrow> nat \<Rightarrow> tuple_data list option \<Rightarrow> tuple_data list option \<Rightarrow> logical_message reader" where
  "update_sections 0 n rel key old s = OutOfFuel"
| "update_sections (Suc f) n rel key old s =
     rd_bind (pg_u8 ''pgoutput'' n s) (\<lambda>t s.
       if t = of_char CHR ''K'' then rd_bind (pg_tuple ''pgoutput'' n s) (\<lambda>v s. update_sections f n rel (Some v) old s)
       else if t = of_char CHR ''O'' then rd_bind (pg_tuple ''pgoutput'' n s) (\<lambda>v s. update_sections f n rel key (Some v) s)
       else if t = of_char CHR ''N'' then rd_bind (pg_tuple ''pgoutput'' n s) (\<lambda>v s. Read (Update rel key old v) s)
       else Failed (Io (''pgoutput Update message has section `'' @ as_char t @ ''`'')))"

definition decode_begin :: "nat \<Rightarrow> logical_message reader" where
  "decode_begin n s =
     rd_bind (pg_lsn ''pgoutput'' n s) (\<lambda>l s. rd_bind (pg_i64 ''pgoutput'' n s) (\<lambda>t s.
     rd_bind (pg_u32 ''pgoutput'' n s) (\<lambda>x s. Read (Begin l t x) s)))"

definition decode_commit :: "nat \<Rightarrow> logical_message reader" where
  "decode_commit n s =
     rd_bind (pg_u8 ''pgoutput'' n s) (\<lambda>f s. rd_bind (pg_lsn ''pgoutput'' n s) (\<lambda>c s.
     rd_bind (pg_lsn ''pgoutput'' n s) (\<lambda>e s. rd_bind (pg_i64 ''pgoutput'' n s) (\<lambda>t s. Read (Commit f c e t) s))))"

definition decode_origin :: "nat \<Rightarrow> logical_message reader" where
  "decode_origin n s =
     rd_bind (pg_lsn ''pgoutput'' n s) (\<lambda>l s. rd_bind (pg_cstr ''pgoutput'' n s) (\<lambda>nm s. Read (Origin l nm) s))"

definition decode_relation :: "nat \<Rightarrow> logical_message reader" where
  "decode_relation n s =
     rd_bind (pg_u32 ''pgoutput'' n s) (\<lambda>oid s. rd_bind (pg_cstr ''pgoutput'' n s) (\<lambda>ns s.
     rd_bind (pg_cstr ''pgoutput'' n s) (\<lambda>nm s. rd_bind (pg_u8 ''pgoutput'' n s) (\<lambda>ri s.
     rd_bind (pg_i16 ''pgoutput'' n s) (\<lambda>count s.
     rd_bind (read_times (nat count) (pg_column ''pgoutput'' n) s) (\<lambda>cols s.
       Read (Relation \<lparr>rel_oid = oid, rel_namespace = (if ns = [] then ''pg_catalog'' else ns), rel_name = nm,
                      rel_replica_identity = ri, rel_columns = cols\<rparr>) s))))))"

definition decode_type :: "nat \<Rightarrow> logical_message reader" where
  "decode_type n s =
     rd_bind (pg_u32 ''pgoutput'' n s) (\<lambda>oid s. rd_bind (pg_cstr ''pgoutput'' n s) (\<lambda>ns s.
     rd_bind (pg_cstr ''pgoutput'' n s) (\<lambda>nm s. Read (Type oid ns nm) s)))"

definition decode_insert :: "nat \<Rightarrow> logical_message reader" where
  "decode_insert n s =
     rd_bind (pg_u32 ''pgoutput'' n s) (\<lambda>rel s. rd_bind (expect_tag n CHR ''N'' ''Insert'' s) (\<lambda>_ s.
     rd_bind (pg_tuple ''pgoutput'' n s) (\<lambda>v s. Read (Insert rel v) s)))"

definition decode_update :: "nat \<Rightarrow> logical_message reader" where
  "decode_update n s =
     rd_bind (pg_u32 ''pgoutput'' n s) (\<lambda>rel s. update_sections (Suc (length s)) n rel None None s)"

definition decode_delete :: "nat \<Rightarrow> logical_message reader" where
  "decode_delete n s =
     rd_bind (pg_u32 ''pgoutput'' n s) (\<lambda>rel s. rd_bind (pg_u8 ''pgoutput'' n s) (\<lambda>t s.
       if t = of_char CHR ''K'' then rd_bind (pg_tuple ''pgoutput'' n s) (\<lambda>v s. Read (Delete rel (Some v) None) s)
       else if t = of_char CHR ''O'' then rd_bind (pg_tuple ''pgoutput'' n s) (\<lambda>v s. Read (Delete rel None (Some v)) s)
       else Failed (Io (''pgoutput Delete message has section `'' @ as_char t @ ''`''))))"

definition decode_truncate :: "nat \<Rightarrow> logical_message reader" where
  "decode_truncate n s =
     rd_bind (pg_i32 ''pgoutput'' n s) (\<lambda>count s. rd_bind (pg_u8 ''pgoutput'' n s) (\<lambda>opts s.
     rd_bind (read_times (nat count) (pg_u32 ''pgoutput'' n) s) (\<lambda>rels s. Read (Truncate opts rels) s)))"

definition decode_logical :: "string \<Rightarrow> logical_message read" where
  "decode_logical bytes =
     (let n = length bytes in
      rd_bind (pg_u8 ''pgoutput'' n bytes) (\<lambda>t s.
        if t = of_char CHR ''B'' then decode_begin n s
        else if t = of_char CHR ''C'' then decode_commit n s
        else if t = of_char CHR ''O'' then decode_origin n s
        else if t = of_char CHR ''R'' then decode_relation n s
        else if t = of_char CHR ''Y'' then decode_type n s
        else if t = of_char CHR ''I'' then decode_insert n s
        else if t = of_char CHR ''U'' then decode_update n s
        else if t = of_char CHR ''D'' then decode_delete n s
        else if t = of_char CHR ''T'' then decode_truncate n s
        else Failed (Io (''pgoutput message type `'' @ as_char t @ ''` is not part of protocol version 1''))))"

section \<open>Frames\<close>

datatype wire_message = XLogData lsn lsn int string | Keepalive lsn int bool

definition decode_wire :: "string \<Rightarrow> wire_message read" where
  "decode_wire bytes =
     (let n = length bytes in
      rd_bind (pg_u8 ''replication'' n bytes) (\<lambda>t s.
        if t = of_char CHR ''w'' then
          rd_bind (pg_lsn ''replication'' n s) (\<lambda>a s. rd_bind (pg_lsn ''replication'' n s) (\<lambda>b s.
          rd_bind (pg_i64 ''replication'' n s) (\<lambda>c s. Read (XLogData a b c s) [])))
        else if t = of_char CHR ''k'' then
          rd_bind (pg_lsn ''replication'' n s) (\<lambda>e s. rd_bind (pg_i64 ''replication'' n s) (\<lambda>c s.
          rd_bind (pg_u8 ''replication'' n s) (\<lambda>q s. Read (Keepalive e c (q \<noteq> 0)) s)))
        else Failed (Io (''replication stream frame `'' @ as_char t @ ''` is neither XLogData nor a keepalive''))))"

definition standby_status_update :: "lsn \<Rightarrow> lsn \<Rightarrow> lsn \<Rightarrow> int \<Rightarrow> string" where
  "standby_status_update written flushed applied clock =
     ''r'' @ nat_be 8 written @ nat_be 8 flushed @ nat_be 8 applied @ nat_be 8 (of_signed 64 clock) @ [char_of (0::nat)]"

section \<open>Connection settings and quoting\<close>

datatype tls_mode = Disable | Require | VerifyCa | VerifyFull

definition tls_parse :: "string \<Rightarrow> tls_mode result" where
  "tls_parse text =
     (let t = to_ascii_lowercase (trim text) in
      if t = ''disable'' then Inr Disable
      else if t = ''require'' then Inr Require
      else if t = ''verify-ca'' \<or> t = ''verify_ca'' then Inr VerifyCa
      else if t = ''verify-full'' \<or> t = ''verify_full'' then Inr VerifyFull
      else Inl (Io (''postgres_cdc `tls: '' @ t @ ''` is not a TLS mode (expected `disable`, `require`, `verify-ca`, or `verify-full`)'')))"

definition tls_enabled :: "tls_mode \<Rightarrow> bool" where
  "tls_enabled m \<longleftrightarrow> m \<noteq> Disable"

fun tls_display :: "tls_mode \<Rightarrow> string" where
  "tls_display Disable = ''disable''" | "tls_display Require = ''require''"
| "tls_display VerifyCa = ''verify-ca''" | "tls_display VerifyFull = ''verify-full''"

definition double_char :: "char \<Rightarrow> string \<Rightarrow> string" where
  "double_char q s = concat (map (\<lambda>c. if c = q then [q, q] else [c]) s)"

definition quote_identifier :: "string \<Rightarrow> string" where
  "quote_identifier name = CHR 0x22 # double_char CHR 0x22 name @ [CHR 0x22]"

definition quote_literal :: "string \<Rightarrow> string" where
  "quote_literal text = CHR 0x27 # double_char CHR 0x27 text @ [CHR 0x27]"

text \<open>How SQL reads a quoted token: up to a quote that is not doubled.\<close>

fun unquote :: "char \<Rightarrow> string \<Rightarrow> (string \<times> string) option" where
  "unquote q [] = None"
| "unquote q (c # s) =
     (if c = q then (case s of d # s' \<Rightarrow> if d = q then map_option (apfst ((#) q)) (unquote q s') else Some ([], s)
                             | [] \<Rightarrow> Some ([], []))
      else map_option (apfst ((#) c)) (unquote q s))"

section \<open>The protocol's encoding\<close>

fun enc_value :: "tuple_data \<Rightarrow> string" where
  "enc_value TNull = ''n''"
| "enc_value UnchangedToast = ''u''"
| "enc_value (TText v) = ''t'' @ nat_be 4 (of_signed 32 (int (length v))) @ v"
| "enc_value (TBinary v) = ''b'' @ nat_be 4 (of_signed 32 (int (length v))) @ v"

fun value_ok :: "tuple_data \<Rightarrow> bool" where
  "value_ok (TText v) = (length v < 2 ^ 31)" | "value_ok (TBinary v) = (length v < 2 ^ 31)" | "value_ok _ = True"

definition enc_tuple :: "tuple_data list \<Rightarrow> string" where
  "enc_tuple vs = nat_be 2 (of_signed 16 (int (length vs))) @ concat (map enc_value vs)"

definition tuple_ok :: "tuple_data list \<Rightarrow> bool" where
  "tuple_ok vs \<longleftrightarrow> length vs < 2 ^ 15 \<and> list_all value_ok vs"

definition enc_cstr :: "string \<Rightarrow> string" where
  "enc_cstr s = s @ [char_of (0::nat)]"

definition cstr_ok :: "string \<Rightarrow> bool" where
  "cstr_ok s \<longleftrightarrow> char_of (0::nat) \<notin> set s \<and> utf8_valid s"

definition enc_column :: "relation_column \<Rightarrow> string" where
  "enc_column c = [char_of (if rc_key c then 1 else 0 :: nat)] @ enc_cstr (rc_name c) @ nat_be 4 (rc_type_oid c) @
     nat_be 4 (of_signed 32 (rc_type_modifier c))"

definition column_ok :: "relation_column \<Rightarrow> bool" where
  "column_ok c \<longleftrightarrow> cstr_ok (rc_name c) \<and> rc_type_oid c < 2 ^ 32 \<and> - (2 ^ 31) \<le> rc_type_modifier c \<and> rc_type_modifier c < 2 ^ 31"

fun enc_logical :: "logical_message \<Rightarrow> string" where
  "enc_logical (Begin l t x) = ''B'' @ nat_be 8 l @ nat_be 8 (of_signed 64 t) @ nat_be 4 x"
| "enc_logical (Commit f c e t) = ''C'' @ [char_of f] @ nat_be 8 c @ nat_be 8 e @ nat_be 8 (of_signed 64 t)"
| "enc_logical (Origin l nm) = ''O'' @ nat_be 8 l @ enc_cstr nm"
| "enc_logical (Relation r) = ''R'' @ nat_be 4 (rel_oid r) @ enc_cstr (rel_namespace r) @ enc_cstr (rel_name r) @
     [char_of (rel_replica_identity r)] @ nat_be 2 (of_signed 16 (int (length (rel_columns r)))) @
     concat (map enc_column (rel_columns r))"
| "enc_logical (Type oid ns nm) = ''Y'' @ nat_be 4 oid @ enc_cstr ns @ enc_cstr nm"
| "enc_logical (Insert rel v) = ''I'' @ nat_be 4 rel @ ''N'' @ enc_tuple v"
| "enc_logical (Update rel key old v) = ''U'' @ nat_be 4 rel @
     (case key of None \<Rightarrow> [] | Some k \<Rightarrow> ''K'' @ enc_tuple k) @
     (case old of None \<Rightarrow> [] | Some k \<Rightarrow> ''O'' @ enc_tuple k) @ ''N'' @ enc_tuple v"
| "enc_logical (Delete rel key old) = ''D'' @ nat_be 4 rel @
     (case key of Some k \<Rightarrow> ''K'' @ enc_tuple k
      | None \<Rightarrow> (case old of Some k \<Rightarrow> ''O'' @ enc_tuple k | None \<Rightarrow> []))"
| "enc_logical (Truncate opts rels) = ''T'' @ nat_be 4 (of_signed 32 (int (length rels))) @ [char_of opts] @
     concat (map (nat_be 4) rels)"

abbreviation i64_ok :: "int \<Rightarrow> bool" where "i64_ok t \<equiv> - (2 ^ 63) \<le> t \<and> t < 2 ^ 63"

fun logical_ok :: "logical_message \<Rightarrow> bool" where
  "logical_ok (Begin l t x) \<longleftrightarrow> l < 2 ^ 64 \<and> i64_ok t \<and> x < 2 ^ 32"
| "logical_ok (Commit f c e t) \<longleftrightarrow> f < 256 \<and> c < 2 ^ 64 \<and> e < 2 ^ 64 \<and> i64_ok t"
| "logical_ok (Origin l nm) \<longleftrightarrow> l < 2 ^ 64 \<and> cstr_ok nm"
| "logical_ok (Relation r) \<longleftrightarrow> rel_oid r < 2 ^ 32 \<and> cstr_ok (rel_namespace r) \<and> rel_namespace r \<noteq> [] \<and>
     cstr_ok (rel_name r) \<and> rel_replica_identity r < 256 \<and> length (rel_columns r) < 2 ^ 15 \<and>
     list_all column_ok (rel_columns r)"
| "logical_ok (Type oid ns nm) \<longleftrightarrow> oid < 2 ^ 32 \<and> cstr_ok ns \<and> cstr_ok nm"
| "logical_ok (Insert rel v) \<longleftrightarrow> rel < 2 ^ 32 \<and> tuple_ok v"
| "logical_ok (Update rel key old v) \<longleftrightarrow> rel < 2 ^ 32 \<and> tuple_ok v \<and> pred_option tuple_ok key \<and> pred_option tuple_ok old"
| "logical_ok (Delete rel key old) \<longleftrightarrow> rel < 2 ^ 32 \<and> pred_option tuple_ok key \<and> pred_option tuple_ok old \<and>
     (key = None) \<noteq> (old = None)"
| "logical_ok (Truncate opts rels) \<longleftrightarrow> opts < 256 \<and> length rels < 2 ^ 31 \<and> list_all (\<lambda>r. r < 2 ^ 32) rels"

section \<open>Every reader ends\<close>

lemma pg_take_total [reader_total]: "rd_upto k (pg_take what n m)"
  by (auto simp: rd_upto_def pg_take_def)

lemma pg_int_total [reader_total]:
  "rd_upto k (pg_u8 what n)" "rd_upto k (pg_i16 what n)" "rd_upto k (pg_u32 what n)"
  "rd_upto k (pg_i32 what n)" "rd_upto k (pg_i64 what n)" "rd_upto k (pg_lsn what n)"
  unfolding pg_u8_def [abs_def] pg_i16_def [abs_def] pg_u32_def [abs_def] pg_i32_def [abs_def]
    pg_i64_def [abs_def] pg_lsn_def [abs_def]
  by (intro reader_total)+

lemma pg_u8_consumes: "rd_consumes (pg_u8 what n)"
  by (auto simp: rd_consumes_def pg_u8_def pg_take_def split: if_splits)

lemma pg_cstr_total [reader_total]: "rd_upto k (pg_cstr what n)"
  by (auto simp: rd_upto_def pg_cstr_def Let_def split: option.splits)

lemma pg_struct_total [reader_total]:
  "rd_upto k (pg_value what n)" "rd_upto k (pg_tuple what n)" "rd_upto k (pg_column what n)"
  "rd_upto k (expect_tag n tag w)"
  unfolding pg_value_def [abs_def] pg_tuple_def [abs_def] pg_column_def [abs_def] expect_tag_def [abs_def]
  by (intro reader_total)+

lemma update_sections_total: "k < f \<Longrightarrow> rd_upto k (update_sections f n rel key old)"
proof (induction f arbitrary: k key old)
  case (Suc f)
  have "rd_upto (k - 1) (update_sections f n rel key' old')" if "0 < k" for key' old'
    using Suc.prems that by (intro Suc.IH) auto
  then show ?case
    unfolding update_sections.simps(2) [abs_def]
    by (intro rd_upto_bind_strict [of "pg_u8 _ _"] rd_totalI pg_int_total pg_u8_consumes rd_upto_if rd_upto_fail
        rd_upto_bind [of _ "pg_tuple _ _"] pg_struct_total rd_upto_Read)
qed simp

lemma decode_update_total [reader_total]: "rd_upto k (decode_update n)"
proof -
  have "rd_upto k (\<lambda>s. update_sections (Suc (length s)) n rel None None s)" for rel
    using rd_uptoD [OF update_sections_total [of "length s" "Suc (length s)" n rel None None for s :: string]]
    unfolding rd_upto_def by blast
  then show ?thesis unfolding decode_update_def [abs_def] by (intro rd_upto_bind pg_int_total)
qed

lemma decode_total [reader_total]:
  "rd_upto k (decode_begin n)" "rd_upto k (decode_commit n)" "rd_upto k (decode_origin n)"
  "rd_upto k (decode_relation n)" "rd_upto k (decode_type n)" "rd_upto k (decode_insert n)"
  "rd_upto k (decode_delete n)" "rd_upto k (decode_truncate n)"
  unfolding decode_begin_def [abs_def] decode_commit_def [abs_def] decode_origin_def [abs_def]
    decode_relation_def [abs_def] decode_type_def [abs_def] decode_insert_def [abs_def]
    decode_delete_def [abs_def] decode_truncate_def [abs_def]
  by (intro reader_total)+

section \<open>What the protocol writes is read\<close>

lemma pg_take_append [simp]: "pg_take what n (length bs) (bs @ s) = Read bs s"
  by (simp add: pg_take_def)

lemma pg_take_len: "length bs = k \<Longrightarrow> pg_take what n k (bs @ s) = Read bs s"
  by auto

lemma pg_u8_Cons [simp]: "pg_u8 what n (c # s) = Read (of_char c) s"
  using pg_take_len [of "[c]" 1 what n s] by (simp add: pg_u8_def be_nat_def)

lemma pg_ints [simp]:
  "- (2 ^ 15) \<le> i \<Longrightarrow> i < 2 ^ 15 \<Longrightarrow> pg_i16 what n (nat_be 2 (of_signed 16 i) @ s) = Read i s"
  "v < 2 ^ 32 \<Longrightarrow> pg_u32 what n (nat_be 4 v @ s) = Read v s"
  "- (2 ^ 31) \<le> i \<Longrightarrow> i < 2 ^ 31 \<Longrightarrow> pg_i32 what n (nat_be 4 (of_signed 32 i) @ s) = Read i s"
  "i64_ok i \<Longrightarrow> pg_i64 what n (nat_be 8 (of_signed 64 i) @ s) = Read i s"
  "l < 2 ^ 64 \<Longrightarrow> pg_lsn what n (nat_be 8 l @ s) = Read l s"
  using of_signed_bound [of 16 i] to_of_signed [of 16 i] of_signed_bound [of 32 i] to_of_signed [of 32 i]
    of_signed_bound [of 64 i] to_of_signed [of 64 i]
  by (simp_all add: pg_i16_def pg_u32_def pg_i32_def pg_i64_def pg_lsn_def pg_take_len be_nat_nat_be)

interpretation pg_u32: codec "nat_be 4" "pg_u32 what n" "\<lambda>v. v < 2 ^ 32"
  by unfold_locales simp

interpretation pg_value: codec enc_value "pg_value what n" value_ok
proof
  fix x rest assume "value_ok x"
  then show "pg_value what n (enc_value x @ rest) = Read x rest"
    by (cases x) (simp_all add: pg_value_def)
qed

interpretation pg_tuple: codec enc_tuple "pg_tuple what n" tuple_ok
  by unfold_locales (simp add: tuple_ok_def pg_tuple_def enc_tuple_def pg_value.dec_enc_list)

interpretation pg_cstr: codec enc_cstr "pg_cstr what n" cstr_ok
proof
  fix x rest assume ok: "cstr_ok x"
  then have "takeWhile (\<lambda>c. c \<noteq> char_of (0::nat)) (x @ char_of (0::nat) # rest) = x"
    by (auto simp: cstr_ok_def takeWhile_append)
  with ok show "pg_cstr what n (enc_cstr x @ rest) = Read x rest"
    by (simp add: pg_cstr_def enc_cstr_def cstr_ok_def utf8_valid_def Let_def)
qed

interpretation pg_column: codec enc_column "pg_column what n" column_ok
  by unfold_locales (simp add: column_ok_def pg_column_def enc_column_def pg_cstr.dec_enc)

lemmas pg_dec_enc = pg_tuple.dec_enc pg_cstr.dec_enc pg_column.dec_enc_list pg_u32.dec_enc_list

lemma update_sections_write:
  assumes "tuple_ok v" "pred_option tuple_ok key" "pred_option tuple_ok old" "2 < f"
  shows "update_sections f n rel None None
     ((case key of None \<Rightarrow> [] | Some k \<Rightarrow> ''K'' @ enc_tuple k) @
      (case old of None \<Rightarrow> [] | Some k \<Rightarrow> ''O'' @ enc_tuple k) @ ''N'' @ enc_tuple v @ rest) =
     Read (Update rel key old v) rest"
proof -
  obtain f' where f: "f = Suc (Suc (Suc f'))" using assms(4) by (metis add_2_eq_Suc less_iff_Suc_add)
  show ?thesis using assms(1-3) by (cases key; cases old) (simp_all add: f pg_tuple.dec_enc)
qed

lemma length_enc_tuple: "2 \<le> length (enc_tuple v)"
  by (simp add: enc_tuple_def)

section \<open>Hexadecimal\<close>

lemma hex_value_hex_char [simp]: "d < 16 \<Longrightarrow> hex_value (hex_char d) = Some d"
  by (simp add: hex_value_def hex_char_def)

lemma hex_digits_append:
  "hex_digits (s @ t) acc = (case hex_digits s acc of None \<Rightarrow> None | Some v \<Rightarrow> hex_digits t v)"
  by (induction s acc rule: hex_digits.induct) (simp_all split: option.splits)

lemma hex_digits_show_hex: "hex_digits (show_hex n) 0 = Some n"
proof (induction n rule: show_hex.induct)
  case (1 n)
  then show ?case
    by (subst show_hex.simps) (simp add: hex_digits_append)
qed

lemma show_hex_nonempty [simp]: "show_hex n \<noteq> []"
  by (subst show_hex.simps) simp

lemma hex_char_range: "d < 16 \<Longrightarrow> 48 \<le> (of_char (hex_char d) :: nat) \<and> of_char (hex_char d) < (71 :: nat)"
  by (simp add: hex_char_def)

lemma show_hex_range: "c \<in> set (show_hex n) \<Longrightarrow> 48 \<le> (of_char c :: nat) \<and> of_char c < (71 :: nat)"
proof (induction n rule: show_hex.induct)
  case (1 n)
  from 1(2) show ?case
    by (subst (asm) show_hex.simps) (use 1(1) hex_char_range in \<open>auto split: if_splits\<close>)
qed

lemma show_hex_no [simp]: "CHR ''/'' \<notin> set (show_hex n)" "CHR ''+'' \<notin> set (show_hex n)"
  using show_hex_range by fastforce+

lemma parse_show_hex: "n < 2 ^ 64 \<Longrightarrow> parse_hex_u64 (show_hex n) = Some n"
proof -
  assume n: "n < 2 ^ 64"
  have "(case show_hex n of c # s' \<Rightarrow> if c = CHR ''+'' then s' else show_hex n | [] \<Rightarrow> []) = show_hex n"
    using show_hex_no(2) [of n] by (cases "show_hex n") auto
  with n show ?thesis by (simp add: parse_hex_u64_def hex_digits_show_hex)
qed

lemma trim_graphic:
  assumes "s \<noteq> []" "\<forall>c \<in> set s. \<not> is_space c" shows "trim s = s"
proof -
  have dw: "dropWhile is_space t = t" if "\<forall>c \<in> set t. \<not> is_space c" for t
    using that by (cases t) auto
  show ?thesis using dw [of s] dw [of "rev s"] assms(2) by (simp add: trim_def)
qed

lemma trim_lsn_display: "trim (lsn_display l) = lsn_display l"
  using show_hex_range by (intro trim_graphic) (fastforce simp: lsn_display_def is_space_def Let_def)+

lemma or_halves: "h < 2 ^ 32 \<Longrightarrow> l < 2 ^ 32 \<Longrightarrow> (h * 2 ^ 32) OR l = (h * 2 ^ 32 + l :: nat)"
proof -
  assume "l < 2 ^ 32"
  then have "take_bit 32 l = l" by (simp add: take_bit_nat_eq_self_iff)
  then have "push_bit 32 h AND l = 0"
    by (intro bit_eqI) (metis bit_and_iff bit_push_bit_iff bit_take_bit_iff not_less bit_0_eq bot_apply bot_bool_def)
  then have "push_bit 32 h + l = push_bit 32 h OR l" by (rule disjunctive_add_eq_or)
  then show ?thesis by (simp add: push_bit_eq_mult)
qed

section \<open>Properties\<close>

text \<open>
  C14. The decoder inverts the protocol: every pgoutput message that fits its fields decodes to itself, in
  particular an unchanged out-of-line column stays distinct from a null.
\<close>

theorem decode_logical_roundtrip:
  assumes "logical_ok m"
  shows "decode_logical (enc_logical m @ rest) = Read m rest"
proof (cases m)
  case (Update rel key old v)
  let ?b = "(case key of None \<Rightarrow> [] | Some k \<Rightarrow> ''K'' @ enc_tuple k) @
      (case old of None \<Rightarrow> [] | Some k \<Rightarrow> ''O'' @ enc_tuple k) @ ''N'' @ enc_tuple v @ rest"
  have "2 < Suc (length ?b)" using length_enc_tuple [of v] by auto
  then have "update_sections (Suc (length ?b)) n rel None None ?b = Read m rest" for n
    using assms Update by (simp only: logical_ok.simps update_sections_write)
  with assms Update show ?thesis
    by (simp add: decode_logical_def Let_def decode_update_def del: update_sections.simps)
qed (use assms in \<open>auto simp: decode_logical_def Let_def decode_begin_def decode_commit_def decode_origin_def
      decode_relation_def decode_type_def decode_insert_def decode_delete_def decode_truncate_def expect_tag_def
      pg_dec_enc split: option.splits\<close>)

theorem decode_logical_roundtrip_witness:
  "decode_logical (enc_logical (Update 7 (Some [TText ''k'']) None [UnchangedToast, TNull]) @ []) =
   Read (Update 7 (Some [TText ''k'']) None [UnchangedToast, TNull]) []"
  by (rule decode_logical_roundtrip) (simp add: tuple_ok_def)

text \<open>
  The decoder ends on every input, and an input it accepts is never longer than what it was given:
  a truncated or foreign frame is an error, not a panic or a loop.
\<close>

theorem decode_logical_total:
  "decode_logical bytes \<noteq> OutOfFuel \<and> decode_wire bytes \<noteq> OutOfFuel"
proof -
  have "rd_upto (length bytes) (\<lambda>s. rd_bind (pg_u8 ''pgoutput'' n s) (\<lambda>t s.
        if t = of_char CHR ''B'' then decode_begin n s
        else if t = of_char CHR ''C'' then decode_commit n s
        else if t = of_char CHR ''O'' then decode_origin n s
        else if t = of_char CHR ''R'' then decode_relation n s
        else if t = of_char CHR ''Y'' then decode_type n s
        else if t = of_char CHR ''I'' then decode_insert n s
        else if t = of_char CHR ''U'' then decode_update n s
        else if t = of_char CHR ''D'' then decode_delete n s
        else if t = of_char CHR ''T'' then decode_truncate n s
        else Failed (Io (''pgoutput message type `'' @ as_char t @ ''` is not part of protocol version 1''))))" for n
    by (intro reader_total)
  then have "decode_logical bytes \<noteq> OutOfFuel"
    unfolding decode_logical_def Let_def by (rule rd_uptoD [THEN conjunct1]) simp
  moreover have "decode_wire bytes \<noteq> OutOfFuel"
    by (auto simp: decode_wire_def Let_def pg_u8_def pg_lsn_def pg_i64_def pg_take_def rd_bind_OutOfFuel)
  ultimately show ?thesis by blast
qed

text \<open>
  A log position printed in PostgreSQL's notation parses back to itself.
\<close>

theorem lsn_roundtrip:
  assumes "l < 2 ^ 64" shows "lsn_parse (lsn_display l) = Inr l"
proof -
  have h: "l div 2 ^ 32 < 2 ^ 32" using assms by (simp add: less_mult_imp_div_less)
  then have "split_once CHR ''/'' (lsn_display l) = Some (show_hex (l div 2 ^ 32), show_hex (l mod 2 ^ 32))"
    by (simp add: lsn_display_def split_once_append)
  moreover have "parse_hex_u64 (show_hex (l div 2 ^ 32)) = Some (l div 2 ^ 32)"
      "parse_hex_u64 (show_hex (l mod 2 ^ 32)) = Some (l mod 2 ^ 32)"
    using h by (intro parse_show_hex; simp)+
  moreover have "l div 2 ^ 32 * 2 ^ 32 mod 2 ^ 64 = l div 2 ^ 32 * 2 ^ 32"
    using h by (intro mod_less) simp
  ultimately have "lsn_parse (lsn_display l) = Inr ((l div 2 ^ 32 * 2 ^ 32) OR (l mod 2 ^ 32))"
    unfolding lsn_parse_def Let_def trim_lsn_display by (simp only: option.case prod.case)
  also have "\<dots> = Inr l" using or_halves [OF h, of "l mod 2 ^ 32"] by (simp only: div_mult_mod_eq) simp
  finally show ?thesis .
qed

theorem lsn_roundtrip_witness: "lsn_parse (lsn_display 97500000000) = Inr 97500000000"
  by (rule lsn_roundtrip) simp

text \<open>
  A half wider than 32 bits is not rejected: its upper bits run into the other half or are lost.
\<close>

lemma lsn_parse_overlong:
  "lsn_parse ''0/100000000'' = lsn_parse ''1/0''" "lsn_parse ''100000000/0'' = lsn_parse ''0/0''"
  by (simp_all add: lsn_parse_def trim_def is_space_def parse_hex_u64_def hex_value_def)

lemma unquote_double_char:
  "rest = [] \<or> hd rest \<noteq> q \<Longrightarrow> unquote q (double_char q s @ q # rest) = Some (s, rest)"
  by (induction s) (auto simp: double_char_def split: list.splits)

text \<open>
  A quoted identifier or literal is read by SQL as exactly the text that was quoted: no text can end
  the quotation early.
\<close>

theorem quoting_safe:
  assumes "rest = [] \<or> hd rest \<noteq> CHR 0x22 \<and> hd rest \<noteq> CHR 0x27"
  shows "unquote CHR 0x22 (tl (quote_identifier name @ rest)) = Some (name, rest) \<and>
         unquote CHR 0x27 (tl (quote_literal lit @ rest)) = Some (lit, rest)"
  using assms unquote_double_char [of rest "CHR 0x22" name] unquote_double_char [of rest "CHR 0x27" lit]
  by (auto simp: quote_identifier_def quote_literal_def)

theorem quoting_safe_witness:
  "unquote CHR 0x27 (tl (quote_literal [CHR ''a'', CHR 0x27, CHR '';''] @ '' x'')) = Some ([CHR ''a'', CHR 0x27, CHR '';''], '' x'')"
  using quoting_safe [of "'' x''" "''n''" "[CHR ''a'', CHR 0x27, CHR '';'']"] by simp

end
