(* ===== verification/Cron_Schedule.thy ===== *)
theory Cron_Schedule
  imports Oxidant_Prelude
begin

text \<open>
  Five-field cron expressions: \<^verbatim>\<open>oxidant-pipelines/src/cron.rs\<close>.

  \<^item> \<open>cron_field\<close> and \<open>cron_value\<close> expand a field; the counter of the stepping loop has 32 bits and wraps, as
    it does in a release build. The loop is bounded by the number of values it can produce.
  \<^item> The calendar is chrono's: which month, day of the month and weekday a day is are parameters, with the last
    day chrono can represent. A time is a number of minutes since the epoch and a day is \<open>1440\<close> of them;
    the code drops seconds and nanoseconds before it searches.
\<close>

section \<open>Parsing\<close>





definition bad_value :: "string \<Rightarrow> string \<Rightarrow> nat \<Rightarrow> nat \<Rightarrow> error" where
  "bad_value t name lo hi =
     Io (''cron `'' @ name @ ''` field: expected '' @ show_nat lo @ ''-'' @ show_nat hi @ '', got `'' @ t @ ''`'')"

fun list_position :: "('a \<Rightarrow> bool) \<Rightarrow> 'a list \<Rightarrow> nat option" where
  "list_position P [] = None"
| "list_position P (x # xs) = (if P x then Some 0 else map_option Suc (list_position P xs))"

definition cron_value :: "string \<Rightarrow> string \<Rightarrow> nat \<Rightarrow> nat \<Rightarrow> string list \<Rightarrow> nat result" where
  "cron_value txt name lo hi names =
     (let t = trim txt in
      rbind (case parse_u32 t of
               Some n \<Rightarrow> Inr n
             | None \<Rightarrow>
                 (case list_position (\<lambda>n. n = to_ascii_lowercase t) names of
                    None \<Rightarrow> Inl (bad_value t name lo hi)
                  | Some i \<Rightarrow> Inr (i + lo)))
        (\<lambda>parsed. if parsed < lo \<or> parsed > hi then Inl (bad_value t name lo hi) else Inr parsed))"

text \<open>\<^verbatim>\<open>while at <= hi \<lbrace> out.push(at); at += step \<rbrace>\<close>, with a bound on the rounds.\<close>

primrec cron_steps :: "nat \<Rightarrow> 32 word \<Rightarrow> 32 word \<Rightarrow> 32 word \<Rightarrow> nat list" where
  "cron_steps 0 at hi step = []"
| "cron_steps (Suc n) at hi step = (if at \<le> hi then unat at # cron_steps n (at + step) hi step else [])"

definition bad_step :: "string \<Rightarrow> string \<Rightarrow> string \<Rightarrow> error" where
  "bad_step name item st =
     Io (''cron `'' @ name @ ''` field: `'' @ item @ ''` has step `'' @ st @ ''`, which must be a positive number'')"

definition cron_split_step :: "string \<Rightarrow> string \<Rightarrow> (string \<times> nat) result" where
  "cron_split_step name item =
     (case split_once CHR ''/'' item of
        Some (rng, st) \<Rightarrow>
          (case parse_u32 (trim st) of
             Some s \<Rightarrow> if s > 0 then Inr (trim rng, s) else Inl (bad_step name item st)
           | None \<Rightarrow> Inl (bad_step name item st))
      | None \<Rightarrow> Inr (item, 1))"

definition cron_bounds :: "string \<Rightarrow> nat \<Rightarrow> nat \<Rightarrow> string list \<Rightarrow> string \<Rightarrow> nat \<Rightarrow> (nat \<times> nat) result" where
  "cron_bounds name lo hi names rng step =
     (if rng = ''*'' then Inr (lo, hi)
      else (case split_once CHR ''-'' rng of
              Some (a, b) \<Rightarrow>
                rbind (cron_value a name lo hi names) (\<lambda>x.
                rbind (cron_value b name lo hi names) (\<lambda>y. Inr (x, y)))
            | None \<Rightarrow>
                rbind (cron_value rng name lo hi names) (\<lambda>single.
                  Inr (if step > 1 then (single, hi) else (single, single)))))"

definition cron_item :: "string \<Rightarrow> nat \<Rightarrow> nat \<Rightarrow> string list \<Rightarrow> string \<Rightarrow> nat list result" where
  "cron_item name lo hi names txt =
     rbind (cron_split_step name (trim txt)) (\<lambda>(rng, step).
     rbind (cron_bounds name lo hi names rng step) (\<lambda>(x, y).
       if x > y then Inl (Io (''cron `'' @ name @ ''` field: range `'' @ rng @ ''` runs backwards''))
       else Inr (cron_steps (Suc y) (word_of_nat x) (word_of_nat y) (word_of_nat step))))"


text \<open>Sorting and removing equal neighbours.\<close>

definition sort_dedup :: "nat list \<Rightarrow> nat list" where
  "sort_dedup xs = remdups_adj (sort xs)"


record cron =
  c_expr :: string
  c_minutes :: "nat list"
  c_hours :: "nat list"
  c_days_of_month :: "nat list"
  c_months :: "nat list"
  c_days_of_week :: "nat list"
  c_dom_restricted :: bool
  c_dow_restricted :: bool


section \<open>Firing times\<close>

record calendar =
  cal_month :: "nat \<Rightarrow> nat"
  cal_day :: "nat \<Rightarrow> nat"
  cal_dow :: "nat \<Rightarrow> nat"
  cal_last :: nat

definition HORIZON_DAYS :: nat where
  "HORIZON_DAYS = 366 * 4"

definition matches_day :: "calendar \<Rightarrow> cron \<Rightarrow> nat \<Rightarrow> bool" where
  "matches_day cal c day =
     (if cal_month cal day \<notin> set (c_months c) then False
      else let dom = cal_day cal day \<in> set (c_days_of_month c); dow = cal_dow cal day \<in> set (c_days_of_week c) in
        if c_dom_restricted c \<and> c_dow_restricted c then dom \<or> dow else dom \<and> dow)"

text \<open>
  The times of one day in the order the nested loops visit them. \<^const>\<open>None\<close> inside is a time of day chrono
  rejects, on which the code gives up.
\<close>

definition day_slots :: "cron \<Rightarrow> nat \<Rightarrow> nat option list" where
  "day_slots c day =
     concat (map (\<lambda>h. map (\<lambda>m. if h < 24 \<and> m < 60 then Some (day * 1440 + h * 60 + m) else None) (c_minutes c)) (c_hours c))"

fun first_slot :: "nat \<Rightarrow> nat option list \<Rightarrow> nat option option" where
  "first_slot start [] = None"
| "first_slot start (None # xs) = Some None"
| "first_slot start (Some a # xs) = (if a \<ge> start then Some (Some a) else first_slot start xs)"

function search_days :: "calendar \<Rightarrow> cron \<Rightarrow> nat \<Rightarrow> nat \<Rightarrow> nat \<Rightarrow> nat option" where
  "search_days cal c start until day =
     (if day \<le> until then
        (case (if matches_day cal c day then first_slot start (day_slots c day) else None) of
           Some r \<Rightarrow> r
         | None \<Rightarrow> if day \<ge> cal_last cal then None else search_days cal c start until (Suc day))
      else None)"
  by pat_completeness auto

termination
  by (relation "measure (\<lambda>(cal, c, start, until, day). Suc until - day)") auto

declare search_days.simps [simp del]

definition next_after :: "calendar \<Rightarrow> cron \<Rightarrow> nat \<Rightarrow> nat option" where
  "next_after cal c after =
     (let start = after + 1 in search_days cal c start (after div 1440 + HORIZON_DAYS) (start div 1440))"

definition is_due :: "calendar \<Rightarrow> cron \<Rightarrow> nat \<Rightarrow> nat \<Rightarrow> bool" where
  "is_due cal c since now = (case next_after cal c since of None \<Rightarrow> False | Some t \<Rightarrow> t \<le> now)"

text \<open>When the expression fires, as crontab's definition has it.\<close>

definition fires :: "calendar \<Rightarrow> cron \<Rightarrow> nat \<Rightarrow> bool" where
  "fires cal c t \<longleftrightarrow>
     matches_day cal c (t div 1440) \<and> t mod 1440 div 60 \<in> set (c_hours c) \<and> t mod 60 \<in> set (c_minutes c)"

definition cron_ok :: "cron \<Rightarrow> bool" where
  "cron_ok c \<longleftrightarrow> sorted_wrt (<) (c_minutes c) \<and> sorted_wrt (<) (c_hours c) \<and> list_all (\<lambda>m. m < 60) (c_minutes c) \<and>
     list_all (\<lambda>h. h < 24) (c_hours c)"

text \<open>A plain calendar (thirty-day months, the epoch on a Thursday) and a daily schedule, for concrete runs.\<close>

definition plain_calendar :: calendar where
  "plain_calendar = \<lparr>cal_month = (\<lambda>d. d div 30 mod 12 + 1), cal_day = (\<lambda>d. d mod 30 + 1),
     cal_dow = (\<lambda>d. (d + 4) mod 7), cal_last = 100000\<rparr>"

definition six_oclock :: cron where
  "six_oclock = \<lparr>c_expr = ''0 6 2 1 5'', c_minutes = [0], c_hours = [6], c_days_of_month = [2],
     c_months = [1], c_days_of_week = [5], c_dom_restricted = True, c_dow_restricted = True\<rparr>"

section \<open>Fields\<close>

lemma set_sort_dedup [simp]: "set (sort_dedup xs) = set xs"
  by (simp add: sort_dedup_def)




lemma word_of_nat_le_iff:
  "a < 2 ^ 32 \<Longrightarrow> b < 2 ^ 32 \<Longrightarrow> (word_of_nat a :: 32 word) \<le> word_of_nat b \<longleftrightarrow> a \<le> b"
  by (simp add: word_le_nat_alt unat_of_nat)

lemma arith_progression_split:
  fixes a st y :: nat
  shows "{a + k * st | k. k < Suc n \<and> a + k * st \<le> y} =
      (if a \<le> y then insert a {a + st + k * st | k. k < n \<and> a + st + k * st \<le> y} else {})" (is "?L = ?R")
proof (rule set_eqI)
  fix v
  have "v \<in> ?L \<longleftrightarrow> v \<le> y \<and> (\<exists>k<Suc n. v = a + k * st)" by auto
  also have "\<dots> \<longleftrightarrow> v \<le> y \<and> (v = a \<or> (\<exists>k<n. v = a + Suc k * st))"
    by (simp only: Ex_less_Suc2) simp
  also have "\<dots> \<longleftrightarrow> v \<in> ?R" by (auto simp: algebra_simps)
  finally show "v \<in> ?L \<longleftrightarrow> v \<in> ?R" .
qed

lemma cron_steps_values:
  assumes "0 < st" "y + st < 2 ^ 32"
  shows "a \<le> y + st \<Longrightarrow> set (cron_steps n (word_of_nat a) (word_of_nat y) (word_of_nat st)) =
    {a + k * st | k. k < n \<and> a + k * st \<le> y}"
proof (induction n arbitrary: a)
  case (Suc n)
  have le: "(word_of_nat a :: 32 word) \<le> word_of_nat y \<longleftrightarrow> a \<le> y"
    using Suc.prems assms by (intro word_of_nat_le_iff) auto
  have split: "{a + k * st | k. k < Suc n \<and> a + k * st \<le> y} =
      (if a \<le> y then insert a {a + st + k * st | k. k < n \<and> a + st + k * st \<le> y} else {})"
    by (rule arith_progression_split)
  show ?case
  proof (cases "a \<le> y")
    case True
    then have "unat (word_of_nat a :: 32 word) = a" using assms by (simp add: unat_of_nat)
    moreover have "set (cron_steps n (word_of_nat (a + st)) (word_of_nat y) (word_of_nat st)) =
        {a + st + k * st | k. k < n \<and> a + st + k * st \<le> y}"
      using True by (intro Suc.IH) simp
    ultimately show ?thesis using True le split by (simp add: of_nat_add)
  qed (use le split in simp)
qed simp


lemma cron_value_bounds: "cron_value t name lo hi names = Inr v \<Longrightarrow> lo \<le> v \<and> v \<le> hi"
  by (auto simp: cron_value_def Let_def split: if_splits)

lemma cron_bounds_range:
  "cron_bounds name lo hi names rng st = Inr (x, y) \<Longrightarrow> lo \<le> hi \<Longrightarrow> lo \<le> x \<and> x \<le> hi \<and> y \<le> hi"
  by (auto simp: cron_bounds_def dest!: cron_value_bounds split: option.splits if_splits)

lemma cron_split_step_pos: "cron_split_step name item = Inr (rng, st) \<Longrightarrow> 0 < st"
  by (auto simp: cron_split_step_def split: option.splits if_splits)

lemma cron_item_Inr:
  assumes "cron_item name lo hi names t = Inr vs" "lo \<le> hi"
  obtains x y st where "vs = cron_steps (Suc y) (word_of_nat x) (word_of_nat y) (word_of_nat st)"
    "lo \<le> x" "x \<le> y" "y \<le> hi" "0 < st" "\<exists>rng. cron_split_step name (trim t) = Inr (rng, st)"
proof -
  from assms(1) obtain rng st x y where
    *: "cron_split_step name (trim t) = Inr (rng, st)" "cron_bounds name lo hi names rng st = Inr (x, y)"
       "x \<le> y" "vs = cron_steps (Suc y) (word_of_nat x) (word_of_nat y) (word_of_nat st)"
    unfolding cron_item_def rbind_Inr_iff by (auto simp del: cron_steps.simps split: if_splits)
  with cron_bounds_range [OF *(2) assms(2)] cron_split_step_pos [OF *(1)] that show thesis by blast
qed



section \<open>Slots of a day\<close>

lemma day_slots_some:
  "cron_ok c \<Longrightarrow> day_slots c day =
     map Some (concat (map (\<lambda>h. map (\<lambda>m. day * 1440 + h * 60 + m) (c_minutes c)) (c_hours c)))"
  by (auto simp: cron_ok_def day_slots_def map_concat list_all_iff o_def intro!: arg_cong [where f = concat] map_cong)

lemma slots_sorted:
  "sorted_wrt (<) hs \<Longrightarrow> sorted_wrt (<) ms \<Longrightarrow> \<forall>m \<in> set ms. m < 60 \<Longrightarrow>
   sorted (concat (map (\<lambda>h. map (\<lambda>m. d + h * 60 + m :: nat) ms) hs))"
proof (induction hs)
  case (Cons h hs)
  have "sorted (map (\<lambda>m. d + h * 60 + m) ms)"
    using Cons.prems(2) by (auto simp: sorted_map intro: sorted_wrt_mono_rel [of _ "(<)"])
  moreover have "d + h * 60 + m \<le> d + h' * 60 + m'" if "m \<in> set ms" "h' \<in> set hs" for m h' m'
  proof -
    have "h < h'" using Cons.prems(1) that(2) by simp
    then show ?thesis using Cons.prems(3) that(1) by fastforce
  qed
  ultimately show ?case using Cons by (auto simp: sorted_append)
qed simp

lemma first_slot_sorted:
  "sorted xs \<Longrightarrow> (case first_slot start (map Some xs) of
     Some (Some a) \<Rightarrow> a \<in> set xs \<and> start \<le> a \<and> (\<forall>x \<in> set xs. x < a \<longrightarrow> x < start)
   | Some None \<Rightarrow> False
   | None \<Rightarrow> \<forall>x \<in> set xs. x < start)"
  by (induction xs) (auto split: option.splits)

lemma slot_fires:
  assumes "cron_ok c"
  shows "t \<in> set (concat (map (\<lambda>h. map (\<lambda>m. day * 1440 + h * 60 + m) (c_minutes c)) (c_hours c))) \<longleftrightarrow>
     t div 1440 = day \<and> t mod 1440 div 60 \<in> set (c_hours c) \<and> t mod 60 \<in> set (c_minutes c)"
proof
  assume "t \<in> set (concat (map (\<lambda>h. map (\<lambda>m. day * 1440 + h * 60 + m) (c_minutes c)) (c_hours c)))"
  then obtain h m where hm: "h \<in> set (c_hours c)" "m \<in> set (c_minutes c)" "t = day * 1440 + h * 60 + m" by auto
  moreover from hm assms have "h < 24" "m < 60" by (auto simp: cron_ok_def list_all_iff)
  moreover from this have lt: "h * 60 + m < 1440" by linarith
  ultimately have "t div 1440 = day" "t mod 1440 = h * 60 + m"
    by (simp_all add: add.assoc)
  moreover have "t mod 60 = t mod 1440 mod 60" by (simp add: mod_mod_cancel)
  ultimately show "t div 1440 = day \<and> t mod 1440 div 60 \<in> set (c_hours c) \<and> t mod 60 \<in> set (c_minutes c)"
    using hm \<open>m < 60\<close> by simp
next
  assume r: "t div 1440 = day \<and> t mod 1440 div 60 \<in> set (c_hours c) \<and> t mod 60 \<in> set (c_minutes c)"
  have "t = t div 1440 * 1440 + (t mod 1440 div 60 * 60 + t mod 1440 mod 60)" by simp
  moreover have "t mod 1440 mod 60 = t mod 60" by (simp add: mod_mod_cancel)
  ultimately have "t = day * 1440 + t mod 1440 div 60 * 60 + t mod 60" using r by linarith
  with r show "t \<in> set (concat (map (\<lambda>h. map (\<lambda>m. day * 1440 + h * 60 + m) (c_minutes c)) (c_hours c)))"
    by (auto intro!: bexI [of _ "t mod 1440 div 60"] image_eqI [of _ _ "t mod 60"])
qed

lemma first_slot_day:
  assumes "cron_ok c" "matches_day cal c day"
  shows "case first_slot start (day_slots c day) of
     Some (Some a) \<Rightarrow> a div 1440 = day \<and> fires cal c a \<and> start \<le> a \<and> (\<forall>x. x div 1440 = day \<longrightarrow> fires cal c x \<longrightarrow> x < a \<longrightarrow> x < start)
   | Some None \<Rightarrow> False
   | None \<Rightarrow> \<forall>x. x div 1440 = day \<longrightarrow> fires cal c x \<longrightarrow> x < start"
proof -
  define xs where "xs = concat (map (\<lambda>h. map (\<lambda>m. day * 1440 + h * 60 + m) (c_minutes c)) (c_hours c))"
  have "sorted xs" unfolding xs_def
    using assms(1) by (intro slots_sorted) (auto simp: cron_ok_def list_all_iff)
  moreover have "x \<in> set xs \<longleftrightarrow> x div 1440 = day \<and> fires cal c x" for x
    using slot_fires [OF assms(1), of x day] assms(2) unfolding xs_def by (auto simp: fires_def)
  moreover have "day_slots c day = map Some xs" unfolding xs_def by (rule day_slots_some [OF assms(1)])
  ultimately show ?thesis
    using first_slot_sorted [of xs start] by (simp split: option.splits)
qed

lemma search_days_least:
  assumes "cron_ok c" "start div 1440 \<le> day" "\<forall>x. start \<le> x \<longrightarrow> x div 1440 < day \<longrightarrow> \<not> fires cal c x"
  shows "case search_days cal c start until day of
     Some t \<Rightarrow> fires cal c t \<and> start \<le> t \<and> t div 1440 \<le> until \<and> (\<forall>x. start \<le> x \<longrightarrow> x < t \<longrightarrow> \<not> fires cal c x)
   | None \<Rightarrow> \<forall>x. start \<le> x \<longrightarrow> x div 1440 \<le> min until (cal_last cal) \<longrightarrow> \<not> fires cal c x"
  using assms(2,3)
proof (induction "Suc until - day" arbitrary: day rule: less_induct)
  case less
  show ?case
  proof (cases "day \<le> until")
    case False
    with less.prems show ?thesis by (auto simp: search_days.simps [of _ _ _ _ day])
  next
    case True
    define r where "r = (if matches_day cal c day then first_slot start (day_slots c day) else None)"
    have eq: "search_days cal c start until day =
        (case r of Some q \<Rightarrow> q | None \<Rightarrow> if day \<ge> cal_last cal then None else search_days cal c start until (Suc day))"
      using True by (subst search_days.simps) (simp add: r_def)
    have day: "case r of
        Some (Some a) \<Rightarrow> a div 1440 = day \<and> fires cal c a \<and> start \<le> a \<and>
          (\<forall>x. x div 1440 = day \<longrightarrow> fires cal c x \<longrightarrow> x < a \<longrightarrow> x < start)
      | Some None \<Rightarrow> False
      | None \<Rightarrow> \<forall>x. x div 1440 = day \<longrightarrow> fires cal c x \<longrightarrow> x < start"
      using first_slot_day [OF assms(1), of cal day start] by (auto simp: r_def fires_def)
    show ?thesis
    proof (cases r)
      case None
      then have none: "\<forall>x. start \<le> x \<longrightarrow> x div 1440 < Suc day \<longrightarrow> \<not> fires cal c x"
        using day less.prems(2) by (auto simp: less_Suc_eq)
      show ?thesis
      proof (cases "day \<ge> cal_last cal")
        case True
        with eq None none show ?thesis by auto
      next
        case False
        have "case search_days cal c start until (Suc day) of
            Some t \<Rightarrow> fires cal c t \<and> start \<le> t \<and> t div 1440 \<le> until \<and> (\<forall>x. start \<le> x \<longrightarrow> x < t \<longrightarrow> \<not> fires cal c x)
          | None \<Rightarrow> \<forall>x. start \<le> x \<longrightarrow> x div 1440 \<le> min until (cal_last cal) \<longrightarrow> \<not> fires cal c x"
          using \<open>day \<le> until\<close> less.prems(1) none by (intro less.hyps) auto
        with eq None False show ?thesis by simp
      qed
    next
      case (Some q)
      with day obtain a where a: "q = Some a" "a div 1440 = day" "fires cal c a" "start \<le> a"
          "\<forall>x. x div 1440 = day \<longrightarrow> fires cal c x \<longrightarrow> x < a \<longrightarrow> x < start"
        by (cases q) auto
      have "\<not> fires cal c x" if "start \<le> x" "x < a" for x
      proof -
        have "x div 1440 \<le> day" using a(2) that(2) by (metis div_le_mono less_imp_le)
        then show ?thesis using a(5) less.prems(2) that by (cases "x div 1440 = day") fastforce+
      qed
      with a Some eq True show ?thesis by simp
    qed
  qed
qed

section \<open>Properties\<close>


lemma next_after_spec:
  assumes "cron_ok c"
  shows "case next_after cal c after of
     Some t \<Rightarrow> fires cal c t \<and> after < t \<and> (\<forall>x. after < x \<longrightarrow> x < t \<longrightarrow> \<not> fires cal c x)
   | None \<Rightarrow> \<forall>x. after < x \<longrightarrow> x div 1440 \<le> min (after div 1440 + HORIZON_DAYS) (cal_last cal) \<longrightarrow> \<not> fires cal c x"
proof -
  have "\<forall>x. after + 1 \<le> x \<longrightarrow> x div 1440 < (after + 1) div 1440 \<longrightarrow> \<not> fires cal c x"
    by (meson div_le_mono not_le)
  from search_days_least [OF assms order_refl this, of "after div 1440 + HORIZON_DAYS"]
  show ?thesis unfolding next_after_def Let_def by (auto simp: Suc_le_eq split: option.splits)
qed

text \<open>
  C28. The next firing is the first one: no minute between the last run and the answer fires, and without
  an answer nothing fires up to the horizon of four leap years (or the last day of the calendar).
\<close>

theorem next_after_least:
  assumes "cron_ok c"
  shows "case next_after cal c after of
     Some t \<Rightarrow> fires cal c t \<and> after < t \<and> (\<forall>x. after < x \<longrightarrow> x < t \<longrightarrow> \<not> fires cal c x)
   | None \<Rightarrow> \<forall>x. after < x \<longrightarrow> x div 1440 \<le> min (after div 1440 + HORIZON_DAYS) (cal_last cal) \<longrightarrow> \<not> fires cal c x"
  using assms by (rule next_after_spec)

lemma digit_chars:
  "''0'' = [digit_char 0]" "''1'' = [digit_char 1]" "''2'' = [digit_char 2]" "''5'' = [digit_char 5]"
  "''6'' = [digit_char 6]"
  by code_simp+

lemma digit_char_plain:
  assumes "d < 10"
  shows "\<not> is_space (digit_char d)" "digit_char d \<noteq> CHR '',''" "digit_char d \<noteq> CHR ''/''"
    "digit_char d \<noteq> CHR ''-''" "digit_char d \<noteq> CHR ''*''" "trim [digit_char d] = [digit_char d]"
  using assms of_char_digit_char [of d] by (auto simp: is_space_def trim_def)

lemma cron_digit_item:
  assumes "t = [digit_char d]" "lo \<le> d" "d \<le> hi" "d < 10"
  shows "cron_split_step name (trim t) = Inr (t, 1)" "cron_item name lo hi names t = Inr [d]"
proof -
  note c = digit_char_plain [OF assms(4)]
  show st: "cron_split_step name (trim t) = Inr (t, 1)"
    using c assms(1) by (simp add: cron_split_step_def)
  have p: "parse_u32 [digit_char d] = Some d"
    using parse_show_nat [of d u32_max] assms(4) by (simp add: show_nat.simps)
  have "\<not> (word_of_nat d + 1 :: 32 word) \<le> word_of_nat d"
    using word_of_nat_le_iff [of "Suc d" d] assms(4) by (simp add: add.commute)
  then have "cron_steps d (word_of_nat d + 1) (word_of_nat d) 1 = []" by (cases d) simp_all
  with assms c st p show "cron_item name lo hi names t = Inr [d]"
    by (simp add: cron_item_def cron_bounds_def cron_value_def unat_of_nat)
qed



lemma six_ok: "cron_ok six_oclock"
  by (simp add: six_oclock_def cron_ok_def)


lemma six_next: "next_after plain_calendar six_oclock 1000 = Some 1800"
  unfolding next_after_def Let_def
  by (subst search_days.simps, subst search_days.simps)
    (simp add: matches_day_def plain_calendar_def six_oclock_def day_slots_def HORIZON_DAYS_def)

theorem next_after_least_witness:
  "fires plain_calendar six_oclock 1800 \<and> {x. 1000 < x \<and> x < 1800 \<and> fires plain_calendar six_oclock x} = {}"
  using next_after_least [OF six_ok, where cal = plain_calendar and after = 1000] by (auto simp: six_next)

text \<open>
  A schedule is due exactly when it fired since the last run, for every check made within the horizon.
\<close>

theorem is_due_iff:
  assumes "cron_ok c" and "now div 1440 \<le> min (since div 1440 + HORIZON_DAYS) (cal_last cal)"
  shows "is_due cal c since now \<longleftrightarrow> (\<exists>t. since < t \<and> t \<le> now \<and> fires cal c t)"
proof (cases "next_after cal c since")
  case None
  have "\<not> fires cal c t" if "since < t" "t \<le> now" for t
  proof -
    have "t div 1440 \<le> now div 1440" using that(2) by (rule div_le_mono)
    also note assms(2)
    finally have "t div 1440 \<le> min (since div 1440 + HORIZON_DAYS) (cal_last cal)" .
    with next_after_spec [OF assms(1), where cal = cal and after = since] None that show ?thesis by simp
  qed
  with None show ?thesis by (auto simp: is_due_def)
next
  case (Some t)
  with next_after_spec [OF assms(1), where cal = cal and after = since]
  have t: "fires cal c t" "since < t" "\<forall>x. since < x \<longrightarrow> x < t \<longrightarrow> \<not> fires cal c x" by simp_all
  then show ?thesis using Some by (force simp: is_due_def not_le)
qed

theorem is_due_iff_witness:
  "is_due plain_calendar six_oclock 1000 2000 \<longleftrightarrow> (\<exists>t. 1000 < t \<and> t \<le> 2000 \<and> fires plain_calendar six_oclock t)"
proof (rule is_due_iff)
  show "cron_ok six_oclock" by (rule six_ok)
  show "2000 div 1440 \<le> min (1000 div 1440 + HORIZON_DAYS) (cal_last plain_calendar)"
    by (simp add: HORIZON_DAYS_def plain_calendar_def)
qed

text \<open>
  An item of a field stands for the arithmetic progression it spells, within the field's range, as long
  as the step does not reach the end of the 32-bit counter.
\<close>

theorem cron_item_values:
  assumes "cron_item name lo hi names t = Inr vs" and "lo \<le> hi"
    and "cron_split_step name (trim t) = Inr (rng, st)" and "hi + st < 2 ^ 32"
  shows "\<exists>x y. lo \<le> x \<and> x \<le> y \<and> y \<le> hi \<and> set vs = {x + k * st | k. x + k * st \<le> y}"
proof -
  obtain x y where xy: "vs = cron_steps (Suc y) (word_of_nat x) (word_of_nat y) (word_of_nat st)"
      "lo \<le> x" "x \<le> y" "y \<le> hi" "0 < st"
    using cron_item_Inr [OF assms(1,2)] assms(3) by (metis Inr_inject prod.inject)
  have "set vs = {x + k * st | k. k < Suc y \<and> x + k * st \<le> y}"
    unfolding xy(1) using xy assms(4) by (intro cron_steps_values) auto
  moreover have "k < Suc y" if "x + k * st \<le> y" for k
  proof -
    have "k \<le> k * st" using xy(5) by simp
    with that show ?thesis by linarith
  qed
  ultimately show ?thesis using xy by blast
qed

theorem cron_item_values_witness:
  "\<exists>x y. (0::nat) \<le> x \<and> x \<le> y \<and> y \<le> 59 \<and> set [6] = {x + k * 1 | k. x + k * 1 \<le> y}"
proof (rule cron_item_values)
  show "cron_item ''minute'' 0 59 [] ''6'' = Inr [6]" by (rule cron_digit_item(2) [OF digit_chars(5)]) simp_all
  show "cron_split_step ''minute'' (trim ''6'') = Inr (''6'', 1)"
    by (rule cron_digit_item(1) [OF digit_chars(5), where lo = 0 and hi = 59]) simp_all
qed simp_all

text \<open>Beyond that the counter wraps and the field takes values below the range it names.\<close>

lemma cron_steps_numeral:
  "cron_steps (numeral k) a hi st = (if a \<le> hi then unat a # cron_steps (pred_numeral k) (a + st) hi st else [])"
  by (simp add: numeral_eq_Suc)

lemma cron_step_wraps: "cron_steps 31 5 30 (word_of_nat 4294967295) = [5, 4, 3, 2, 1, 0]"
  by (simp add: cron_steps_numeral)

end
