(* ===== verification/Table_Graph.thy ===== *)
theory Table_Graph
  imports Oxidant_Prelude
begin

text \<open>
  The table dependency graph of a pipeline: \<^verbatim>\<open>oxidant-pipelines/src/graph.rs\<close>.

  \<^item> Which tables a statement reads is DataFusion's answer: the parameter \<open>refs\<close>.
  \<^item> \<open>visit\<close> is the depth-first search, bounded by its depth; \<open>topological_order\<close> gives it one level more than
    there are tables, and \<open>topological_order_total\<close> shows that this is enough.
\<close>

section \<open>Configuration and nodes\<close>

record table_config =
  tc_name :: string
  tc_sql :: "string option"
  tc_auto_cdc_source :: "string option"

record node =
  n_name :: string
  n_depends_on :: "string list"
  n_reads_outside :: bool

section \<open>Edges\<close>

definition declared_names :: "table_config list \<Rightarrow> string set" where
  "declared_names tables = (\<lambda>t. trim (tc_name t)) ` set tables"

definition push_new :: "string \<Rightarrow> string list \<Rightarrow> string list" where
  "push_new d deps = (if d \<in> set deps then deps else deps @ [d])"

text \<open>\<^verbatim>\<open>reference.rsplit('.').next()\<close>\<close>

definition short_name :: "string \<Rightarrow> string" where
  "short_name reference = last (split_on CHR ''.'' reference)"

definition add_candidate :: "string set \<Rightarrow> string \<Rightarrow> string \<Rightarrow> string list \<times> bool \<Rightarrow> string list \<times> bool" where
  "add_candidate declared name cand st =
     (if cand \<noteq> name \<and> cand \<in> declared then (push_new cand (fst st), True) else st)"

definition add_reference :: "string set \<Rightarrow> string \<Rightarrow> string \<Rightarrow> string list \<times> bool \<Rightarrow> string list \<times> bool" where
  "add_reference declared name reference st =
     (let short = short_name reference;
          (deps, matched) = fold (add_candidate declared name) [reference, short]
                              (fst st, reference = name \<or> short = name)
      in (deps, snd st \<or> \<not> matched))"

definition table_deps :: "(string \<Rightarrow> string list result) \<Rightarrow> string set \<Rightarrow> table_config \<Rightarrow> (string list \<times> bool) result" where
  "table_deps refs declared t =
     (let name = trim (tc_name t);
          deps0 = (case tc_auto_cdc_source t of
                     None \<Rightarrow> []
                   | Some src \<Rightarrow> let source = trim src in
                       if source \<noteq> name \<and> source \<in> declared then [source] else [])
      in case tc_sql t of
           None \<Rightarrow> Inr (deps0, False)
         | Some q \<Rightarrow> rbind (refs q) (\<lambda>rs. Inr (fold (add_reference declared name) rs (deps0, False))))"

text \<open>The maps from a name to its edges and to whether it reads outside; a repeated name overwrites.\<close>

fun build_edges ::
  "(string \<Rightarrow> string list result) \<Rightarrow> string set \<Rightarrow> table_config list \<Rightarrow> (string \<rightharpoonup> string list \<times> bool) \<Rightarrow>
   (string \<rightharpoonup> string list \<times> bool) result" where
  "build_edges refs declared [] m = Inr m"
| "build_edges refs declared (t # ts) m =
     rbind (table_deps refs declared t) (\<lambda>d. build_edges refs declared ts (m(trim (tc_name t) \<mapsto> d)))"

section \<open>The topological sort\<close>

datatype mark = Visiting | Done

type_synonym visit_state = "(string \<rightharpoonup> mark) \<times> string list"

definition cycle_error :: "string list \<Rightarrow> string \<Rightarrow> error" where
  "cycle_error stack name =
     (let cycle = (if name \<in> set stack then dropWhile (\<lambda>n. n \<noteq> name) stack else stack) @ [name]
      in Io (''the table graph has a cycle: '' @ join '' -> '' cycle))"

fun visit_all ::
  "(string \<Rightarrow> visit_state \<Rightarrow> visit_state result option) \<Rightarrow> string list \<Rightarrow> visit_state \<Rightarrow> visit_state result option" where
  "visit_all f [] st = Some (Inr st)"
| "visit_all f (x # xs) st =
     (case f x st of
        Some (Inr st') \<Rightarrow> visit_all f xs st'
      | r \<Rightarrow> r)"

primrec visit ::
  "nat \<Rightarrow> (string \<Rightarrow> string list) \<Rightarrow> string list \<Rightarrow> string \<Rightarrow> visit_state \<Rightarrow> visit_state result option" where
  "visit 0 edges stack name st = None"
| "visit (Suc d) edges stack name st =
     (case fst st name of
        Some Done \<Rightarrow> Some (Inr st)
      | Some Visiting \<Rightarrow> Some (Inl (cycle_error stack name))
      | None \<Rightarrow>
          (case visit_all (visit d edges (stack @ [name])) (edges name) ((fst st)(name \<mapsto> Visiting), snd st) of
             Some (Inr (marks, out)) \<Rightarrow> Some (Inr (marks(name \<mapsto> Done), out @ [name]))
           | r \<Rightarrow> r))"

definition topological_order :: "string list \<Rightarrow> (string \<Rightarrow> string list) \<Rightarrow> string list result option" where
  "topological_order names edges =
     (case visit_all (visit (Suc (length names)) edges []) names (Map.empty, []) of
        Some (Inr (_, out)) \<Rightarrow> Some (Inr out)
      | Some (Inl e) \<Rightarrow> Some (Inl e)
      | None \<Rightarrow> None)"

text \<open>\<^verbatim>\<open>edges.get(name)\<close>, empty for a name without an entry.\<close>

definition graph_edges :: "(string \<rightharpoonup> string list \<times> bool) \<Rightarrow> string \<Rightarrow> string list" where
  "graph_edges m n = (case m n of Some (ds, _) \<Rightarrow> ds | None \<Rightarrow> [])"

definition graph_build :: "(string \<Rightarrow> string list result) \<Rightarrow> table_config list \<Rightarrow> node list result option" where
  "graph_build refs tables =
     (case build_edges refs (declared_names tables) tables Map.empty of
        Inl e \<Rightarrow> Some (Inl e)
      | Inr m \<Rightarrow>
          (case topological_order (map (\<lambda>t. trim (tc_name t)) tables) (graph_edges m) of
             None \<Rightarrow> None
           | Some (Inl e) \<Rightarrow> Some (Inl e)
           | Some (Inr order) \<Rightarrow>
               Some (Inr (map (\<lambda>n. \<lparr>n_name = n, n_depends_on = graph_edges m n,
                 n_reads_outside = (case m n of Some (_, r) \<Rightarrow> r | None \<Rightarrow> False)\<rparr>) order))))"

section \<open>Subgraphs\<close>

definition node_deps :: "node list \<Rightarrow> string \<Rightarrow> string list" where
  "node_deps order n = (case map_of (map (\<lambda>x. (n_name x, n_depends_on x)) (rev order)) n of Some ds \<Rightarrow> ds | None \<Rightarrow> [])"

text \<open>The stack of the worklist, its top first.\<close>

function needed_loop :: "node list \<Rightarrow> string list \<Rightarrow> string set \<Rightarrow> string set" where
  "needed_loop order [] needed = needed"
| "needed_loop order (n # st) needed =
     (if n \<in> needed then needed_loop order st needed
      else needed_loop order (rev (node_deps order n) @ st) (insert n needed))"
  by pat_completeness auto

termination
proof (relation "measures [\<lambda>(order, st, needed). card (n_name ` set order - needed), \<lambda>(order, st, needed). length st]")
  fix order :: "node list" and n :: string and st needed
  assume new: "n \<notin> needed"
  show "((order, rev (node_deps order n) @ st, insert n needed), order, n # st, needed)
        \<in> measures [\<lambda>(order, st, needed). card (n_name ` set order - needed), \<lambda>(order, st, needed). length st]"
  proof (cases "n \<in> n_name ` set order")
    case True
    with new have "n_name ` set order - insert n needed \<subset> n_name ` set order - needed" by auto
    then have "card (n_name ` set order - insert n needed) < card (n_name ` set order - needed)"
      by (intro psubset_card_mono) auto
    then show ?thesis by simp
  next
    case False
    then have "map_of (map (\<lambda>x. (n_name x, n_depends_on x)) (rev order)) n = None"
      by (auto simp: map_of_eq_None_iff)
    then have "node_deps order n = []" by (simp add: node_deps_def)
    moreover from False have "n_name ` set order - insert n needed = n_name ` set order - needed" by auto
    ultimately show ?thesis by simp
  qed
qed auto

definition subgraph :: "node list \<Rightarrow> string list \<Rightarrow> node list result" where
  "subgraph order wanted =
     (if wanted = [] then Inr order
      else (case List.find (\<lambda>n. n \<notin> n_name ` set order) wanted of
              Some n \<Rightarrow> Inl (Io (''`--table '' @ n @ ''` is not a declared table (declared: '' @
                               join '', '' (map n_name order) @ '')''))
            | None \<Rightarrow>
                let needed = needed_loop order (rev wanted) {} in
                Inr (filter (\<lambda>x. n_name x \<in> needed) order)))"

section \<open>Orders\<close>

text \<open>Every element follows the elements it depends on, and none occurs twice.\<close>

definition topo :: "(string \<Rightarrow> string list) \<Rightarrow> string list \<Rightarrow> bool" where
  "topo edges xs \<longleftrightarrow> distinct xs \<and> (\<forall>i < length xs. set (edges (xs ! i)) \<subseteq> set (take i xs))"

definition edge_rel :: "(string \<Rightarrow> string list) \<Rightarrow> (string \<times> string) set" where
  "edge_rel edges = {(a, b). b \<in> set (edges a)}"

definition vis_inv :: "(string \<Rightarrow> string list) \<Rightarrow> string set \<Rightarrow> string list \<Rightarrow> visit_state \<Rightarrow> bool" where
  "vis_inv edges U stack st \<longleftrightarrow>
     (\<forall>n. fst st n = Some Done \<longleftrightarrow> n \<in> set (snd st)) \<and> (\<forall>n. fst st n = Some Visiting \<longleftrightarrow> n \<in> set stack) \<and>
     distinct stack \<and> set stack \<subseteq> U \<and> set (snd st) \<subseteq> U \<and> topo edges (snd st) \<and>
     (\<forall>i. Suc i < length stack \<longrightarrow> stack ! Suc i \<in> set (edges (stack ! i)))"

text \<open>What a search guarantees: the names it was asked for are done, in order; or there is a cycle.\<close>

definition visit_ok ::
  "(string \<Rightarrow> string list) \<Rightarrow> string set \<Rightarrow> string list \<Rightarrow> visit_state \<Rightarrow> string set \<Rightarrow> visit_state result option \<Rightarrow> bool" where
  "visit_ok edges U stack st ns r \<longleftrightarrow>
     (case r of
        None \<Rightarrow> False
      | Some (Inl e) \<Rightarrow> \<exists>n. (n, n) \<in> (edge_rel edges)\<^sup>+
      | Some (Inr st') \<Rightarrow> vis_inv edges U stack st' \<and> set (snd st) \<subseteq> set (snd st') \<and> ns \<subseteq> set (snd st'))"

text \<open>Three layers of a pipeline, for concrete runs.\<close>

definition medallion :: "table_config list" where
  "medallion = [\<lparr>tc_name = ''gold'', tc_sql = Some ''g'', tc_auto_cdc_source = None\<rparr>,
                \<lparr>tc_name = ''silver'', tc_sql = None, tc_auto_cdc_source = Some ''bronze''\<rparr>,
                \<lparr>tc_name = ''bronze'', tc_sql = Some ''b'', tc_auto_cdc_source = None\<rparr>]"

definition medallion_refs :: "string \<Rightarrow> string list result" where
  "medallion_refs q = Inr (if q = ''g'' then [''local.live.silver''] else [''lake.raw''])"

section \<open>The search\<close>

lemma vis_inv_marks:
  "vis_inv edges U stack st \<Longrightarrow> n \<in> set stack \<longleftrightarrow> fst st n = Some Visiting"
  "vis_inv edges U stack st \<Longrightarrow> n \<in> set (snd st) \<longleftrightarrow> fst st n = Some Done"
  unfolding vis_inv_def by blast+

lemma visit_all_ok:
  assumes "\<And>x st. x \<in> set xs \<Longrightarrow> vis_inv edges U stack st \<Longrightarrow> visit_ok edges U stack st {x} (f x st)"
    and "vis_inv edges U stack st"
  shows "visit_ok edges U stack st (set xs) (visit_all f xs st)"
  using assms
proof (induction xs arbitrary: st)
  case (Cons x xs)
  have x: "visit_ok edges U stack st {x} (f x st)" using Cons.prems by simp
  show ?case
  proof (cases "f x st")
    case (Some r)
    show ?thesis
    proof (cases r)
      case (Inr st')
      with Some x have st': "vis_inv edges U stack st'" "set (snd st) \<subseteq> set (snd st')" "x \<in> set (snd st')"
        by (simp_all add: visit_ok_def)
      have "visit_ok edges U stack st' (set xs) (visit_all f xs st')"
        using Cons.prems st' by (intro Cons.IH) simp_all
      with Some Inr st' show ?thesis by (auto simp: visit_ok_def split: option.splits sum.splits)
    qed (use Some x in \<open>simp add: visit_ok_def\<close>)
  qed (use x in \<open>simp add: visit_ok_def\<close>)
qed (simp add: visit_ok_def)

lemma stack_cycle:
  assumes "\<forall>i. Suc i < length stack \<longrightarrow> stack ! Suc i \<in> set (edges (stack ! i))" "n \<in> set stack" "n \<in> set (edges (last stack))"
  shows "(n, n) \<in> (edge_rel edges)\<^sup>+"
proof -
  obtain i where i: "i < length stack" "stack ! i = n" using assms(2) by (auto simp: in_set_conv_nth)
  have path: "(n, stack ! (i + k)) \<in> (edge_rel edges)\<^sup>*" if "i + k < length stack" for k
    using that
  proof (induction k)
    case (Suc k)
    then have "(stack ! (i + k), stack ! (i + Suc k)) \<in> edge_rel edges" using assms(1) by (simp add: edge_rel_def)
    with Suc show ?case by (simp add: rtrancl_into_rtrancl)
  qed (simp add: i)
  have "last stack = stack ! (i + (length stack - 1 - i))" using i by (subst last_conv_nth) auto
  with path [of "length stack - 1 - i"] i have "(n, last stack) \<in> (edge_rel edges)\<^sup>*" by simp
  moreover have "(last stack, n) \<in> edge_rel edges" using assms(3) by (simp add: edge_rel_def)
  ultimately show ?thesis by (rule rtrancl_into_trancl1)
qed

lemma topo_snoc:
  "topo edges xs \<Longrightarrow> x \<notin> set xs \<Longrightarrow> set (edges x) \<subseteq> set xs \<Longrightarrow> topo edges (xs @ [x])"
  by (auto simp: topo_def nth_append less_Suc_eq)

lemma visit_enter:
  assumes "vis_inv edges U stack st" "fst st name = None" "name \<in> U" "stack = [] \<or> name \<in> set (edges (last stack))"
  shows "vis_inv edges U (stack @ [name]) ((fst st)(name \<mapsto> Visiting), snd st)"
proof -
  have new: "name \<notin> set stack" "name \<notin> set (snd st)"
    using assms(2) by (simp_all add: vis_inv_marks [OF assms(1)])
  have "(stack @ [name]) ! Suc i \<in> set (edges ((stack @ [name]) ! i))" if "Suc i < length (stack @ [name])" for i
  proof (cases "Suc i < length stack")
    case True
    with assms(1) show ?thesis by (simp add: vis_inv_def nth_append)
  next
    case False
    with that have "i = length stack - 1" "stack \<noteq> []" by auto
    with assms(4) show ?thesis by (simp add: nth_append last_conv_nth)
  qed
  with assms(1,3) new show ?thesis by (auto simp: vis_inv_def)
qed

lemma visit_leave:
  assumes "vis_inv edges U (stack @ [name]) (marks, out)" "set (edges name) \<subseteq> set out"
  shows "vis_inv edges U stack (marks(name \<mapsto> Done), out @ [name])"
proof -
  have "name \<notin> set out"
    using vis_inv_marks(1) [OF assms(1), of name] vis_inv_marks(2) [OF assms(1), of name] by simp
  then have "topo edges (out @ [name])" using assms by (intro topo_snoc) (auto simp: vis_inv_def)
  moreover have "stack ! Suc i \<in> set (edges (stack ! i))" if "Suc i < length stack" for i
  proof -
    have "(stack @ [name]) ! Suc i \<in> set (edges ((stack @ [name]) ! i))"
      using assms(1) that unfolding vis_inv_def by (metis length_append_singleton less_SucI)
    with that show ?thesis by (simp add: nth_append)
  qed
  ultimately show ?thesis using assms(1) by (auto simp: vis_inv_def)
qed

lemma visit_spec:
  assumes "finite U" "\<And>n. n \<in> U \<Longrightarrow> set (edges n) \<subseteq> U"
  shows "vis_inv edges U stack st \<Longrightarrow> name \<in> U \<Longrightarrow> stack = [] \<or> name \<in> set (edges (last stack)) \<Longrightarrow>
     card U < d + length stack \<Longrightarrow> visit_ok edges U stack st {name} (visit d edges stack name st)"
proof (induction d arbitrary: stack st name)
  case 0
  have "card (set stack) \<le> card U" using 0(1) assms(1) by (intro card_mono) (auto simp: vis_inv_def)
  then have "length stack \<le> card U" using 0(1) by (simp add: vis_inv_def distinct_card)
  with 0(4) show ?case by simp
next
  case (Suc d)
  show ?case
  proof (cases "fst st name")
    case None
    let ?st = "((fst st)(name \<mapsto> Visiting), snd st)"
    note inv = visit_enter [OF Suc.prems(1) None Suc.prems(2,3)]
    have "visit_ok edges U (stack @ [name]) ?st (set (edges name))
        (visit_all (visit d edges (stack @ [name])) (edges name) ?st)"
      using assms(2) Suc.prems(2,4) inv by (intro visit_all_ok Suc.IH) auto
    then show ?thesis
      using None visit_leave by (fastforce simp: visit_ok_def split: option.splits sum.splits)
  next
    case (Some m)
    show ?thesis
    proof (cases m)
      case Done
      with Some have "visit (Suc d) edges stack name st = Some (Inr st)" by simp
      with Some Done Suc.prems(1) show ?thesis by (simp add: visit_ok_def vis_inv_marks(2) [OF Suc.prems(1)])
    next
      case Visiting
      then have n: "name \<in> set stack" using Some by (simp add: vis_inv_marks(1) [OF Suc.prems(1)])
      then have "(name, name) \<in> (edge_rel edges)\<^sup>+"
        using Suc.prems(1,3) by (intro stack_cycle [of stack]) (auto simp: vis_inv_def)
      with Some Visiting show ?thesis by (auto simp: visit_ok_def)
    qed
  qed
qed

lemma topo_acyclic:
  assumes "topo edges out" "\<And>n. n \<notin> set out \<Longrightarrow> edges n = []"
  shows "acyclic (edge_rel edges)"
proof -
  have less: "\<exists>i j. i < length out \<and> j < i \<and> out ! i = a \<and> out ! j = b" if "(a, b) \<in> edge_rel edges" for a b
  proof -
    from that assms(2) have "a \<in> set out" by (force simp: edge_rel_def)
    then obtain i where i: "i < length out" "out ! i = a" by (auto simp: in_set_conv_nth)
    with that assms(1) have "b \<in> set (take i out)" by (auto simp: edge_rel_def topo_def)
    then obtain j where "j < i" "out ! j = b" by (auto simp: in_set_conv_nth)
    with i show ?thesis by blast
  qed
  have "\<exists>i j. i < length out \<and> j < i \<and> out ! i = a \<and> out ! j = b" if "(a, b) \<in> (edge_rel edges)\<^sup>+" for a b
    using that
  proof (induction rule: trancl_induct)
    case (step b c)
    then obtain i j where ij: "i < length out" "j < i" "out ! i = a" "out ! j = b" by blast
    from less [OF step(2)] obtain j' k where jk: "j' < length out" "k < j'" "out ! j' = b" "out ! k = c" by blast
    have "distinct out" using assms(1) by (simp add: topo_def)
    with ij jk have "j = j'" by (metis less_trans nth_eq_iff_index_eq)
    with ij jk show ?case by (metis less_trans)
  qed (rule less)
  then show ?thesis using assms(1) unfolding acyclic_def topo_def by (metis nth_eq_iff_index_eq less_trans nat_neq_iff)
qed

lemma topological_order_spec:
  assumes "\<And>n. n \<in> set names \<Longrightarrow> set (edges n) \<subseteq> set names"
  shows "case topological_order names edges of
      None \<Rightarrow> False
    | Some (Inl e) \<Rightarrow> \<exists>n. (n, n) \<in> (edge_rel edges)\<^sup>+
    | Some (Inr out) \<Rightarrow> topo edges out \<and> set out = set names"
proof -
  have "visit_ok edges (set names) [] (Map.empty, []) (set names)
      (visit_all (visit (Suc (length names)) edges []) names (Map.empty, []))"
    using assms card_length [of names]
    by (intro visit_all_ok visit_spec) (auto simp: vis_inv_def topo_def less_Suc_eq_le)
  then show ?thesis
    by (auto simp: topological_order_def visit_ok_def vis_inv_def split: option.splits sum.splits)
qed

section \<open>Edges are declared tables\<close>

lemma push_new_set [simp]: "set (push_new d ds) = insert d (set ds)"
  by (auto simp: push_new_def)

lemma add_candidate_deps:
  "set (fst st) \<subseteq> declared - {name} \<Longrightarrow> set (fst (add_candidate declared name c st)) \<subseteq> declared - {name}"
  by (auto simp: add_candidate_def)

lemma add_reference_deps:
  assumes "set (fst st) \<subseteq> declared - {name}"
  shows "set (fst (add_reference declared name r st)) \<subseteq> declared - {name}"
proof -
  let ?a = "add_candidate declared name r (fst st, r = name \<or> short_name r = name)"
  have "set (fst ?a) \<subseteq> declared - {name}" using assms by (intro add_candidate_deps) simp
  then have "set (fst (add_candidate declared name (short_name r) ?a)) \<subseteq> declared - {name}" by (rule add_candidate_deps)
  then show ?thesis by (simp add: add_reference_def Let_def case_prod_unfold)
qed

lemma fold_add_reference_deps:
  "set (fst st) \<subseteq> declared - {name} \<Longrightarrow> set (fst (fold (add_reference declared name) rs st)) \<subseteq> declared - {name}"
  by (induction rs arbitrary: st) (simp_all add: add_reference_deps)

lemma table_deps_declared:
  assumes "table_deps refs declared t = Inr d" shows "set (fst d) \<subseteq> declared - {trim (tc_name t)}"
proof -
  let ?d0 = "case tc_auto_cdc_source t of None \<Rightarrow> [] | Some src \<Rightarrow>
      let source = trim src in if source \<noteq> trim (tc_name t) \<and> source \<in> declared then [source] else []"
  have "set ?d0 \<subseteq> declared - {trim (tc_name t)}" by (auto simp: Let_def split: option.splits)
  then show ?thesis
    using assms fold_add_reference_deps [of "(?d0, False)" declared "trim (tc_name t)"]
    by (auto simp: table_deps_def Let_def split: option.splits)
qed

lemma build_edges_dom:
  "build_edges refs declared ts m = Inr m' \<Longrightarrow> dom m' = dom m \<union> declared_names ts"
proof (induction ts arbitrary: m)
  case (Cons t ts)
  then obtain x where "build_edges refs declared ts (m(trim (tc_name t) \<mapsto> x)) = Inr m'" by auto
  from Cons.IH [OF this] show ?case by (auto simp: declared_names_def)
qed (simp add: declared_names_def)

lemma build_edges_declared:
  "build_edges refs declared ts m = Inr m' \<Longrightarrow> (\<And>n d. m n = Some d \<Longrightarrow> set (fst d) \<subseteq> declared - {n}) \<Longrightarrow>
   m' n = Some d \<Longrightarrow> set (fst d) \<subseteq> declared - {n}"
proof (induction ts arbitrary: m)
  case (Cons t ts)
  then obtain x where x: "table_deps refs declared t = Inr x" "build_edges refs declared ts (m(trim (tc_name t) \<mapsto> x)) = Inr m'"
    by auto
  show ?case
    using Cons.prems(2) table_deps_declared [OF x(1)] by (intro Cons.IH [OF x(2) _ Cons.prems(3)]) (auto split: if_splits)
qed auto

lemma graph_edges_declared:
  assumes "build_edges refs (declared_names tables) tables Map.empty = Inr m"
  shows "set (graph_edges m n) \<subseteq> declared_names tables - {n}" and "n \<notin> declared_names tables \<Longrightarrow> graph_edges m n = []"
proof -
  show "set (graph_edges m n) \<subseteq> declared_names tables - {n}"
    using build_edges_declared [OF assms, of n] by (cases "m n") (auto simp: graph_edges_def)
  show "n \<notin> declared_names tables \<Longrightarrow> graph_edges m n = []"
    using build_edges_dom [OF assms] by (auto simp: graph_edges_def split: option.splits)
qed

section \<open>Properties\<close>

text \<open>
  C27. Building the graph always ends, and its order lists every declared table once, each after all the
  tables it reads.
\<close>

theorem graph_build_order:
  assumes "graph_build refs tables = Some (Inr order)"
  shows "set (map n_name order) = declared_names tables \<and> distinct (map n_name order) \<and>
    (\<forall>i < length order. set (n_depends_on (order ! i)) \<subseteq> set (map n_name (take i order)))"
proof -
  obtain m where m: "build_edges refs (declared_names tables) tables Map.empty = Inr m"
    using assms by (auto simp: graph_build_def split: sum.splits)
  let ?ns = "map (\<lambda>t. trim (tc_name t)) tables"
  have ns: "set ?ns = declared_names tables" by (auto simp: declared_names_def)
  have "case topological_order ?ns (graph_edges m) of None \<Rightarrow> False
    | Some (Inl e) \<Rightarrow> \<exists>n. (n, n) \<in> (edge_rel (graph_edges m))\<^sup>+
    | Some (Inr out) \<Rightarrow> topo (graph_edges m) out \<and> set out = set ?ns"
    by (rule topological_order_spec) (use graph_edges_declared [OF m] ns in blast)
  then obtain out where o: "topo (graph_edges m) out" "set out = declared_names tables"
      "order = map (\<lambda>n. \<lparr>n_name = n, n_depends_on = graph_edges m n,
                 n_reads_outside = (case m n of Some (_, r) \<Rightarrow> r | None \<Rightarrow> False)\<rparr>) out"
    using assms m ns by (auto simp: graph_build_def split: option.splits sum.splits)
  then show ?thesis by (auto simp: topo_def o_def take_map)
qed

lemma medallion_build:
  "map_option (map_sum id (map n_name)) (graph_build medallion_refs medallion) = Some (Inr [''bronze'', ''silver'', ''gold''])"
  by code_simp

theorem graph_build_order_witness:
  "\<exists>order. graph_build medallion_refs medallion = Some (Inr order) \<and> set (map n_name order) = declared_names medallion"
proof -
  obtain order where "graph_build medallion_refs medallion = Some (Inr order)"
    using medallion_build
    by (cases "graph_build medallion_refs medallion"; cases "the (graph_build medallion_refs medallion)") auto
  with graph_build_order [OF this] show ?thesis by blast
qed

text \<open>
  The cycle error is raised exactly when the tables have a cycle, if every statement can be parsed;
  so an acyclic pipeline always gets an order.
\<close>

theorem graph_build_cycle:
  assumes "build_edges refs (declared_names tables) tables Map.empty = Inr m"
  shows "graph_build refs tables \<noteq> None \<and>
    ((\<exists>order. graph_build refs tables = Some (Inr order)) \<longleftrightarrow> acyclic (edge_rel (graph_edges m)))"
proof
  let ?ns = "map (\<lambda>t. trim (tc_name t)) tables"
  have ns: "set ?ns = declared_names tables" by (auto simp: declared_names_def)
  have spec: "case topological_order ?ns (graph_edges m) of None \<Rightarrow> False
    | Some (Inl e) \<Rightarrow> \<exists>n. (n, n) \<in> (edge_rel (graph_edges m))\<^sup>+
    | Some (Inr out) \<Rightarrow> topo (graph_edges m) out \<and> set out = set ?ns"
    by (rule topological_order_spec) (use graph_edges_declared [OF assms] ns in blast)
  then show "graph_build refs tables \<noteq> None"
    using assms by (auto simp: graph_build_def split: option.splits sum.splits)
  have "acyclic (edge_rel (graph_edges m))" if "topo (graph_edges m) out" "set out = set ?ns" for out
    using that graph_edges_declared(2) [OF assms] ns by (intro topo_acyclic) auto
  then show "(\<exists>order. graph_build refs tables = Some (Inr order)) \<longleftrightarrow> acyclic (edge_rel (graph_edges m))"
    using spec assms unfolding acyclic_def
    by (auto simp: graph_build_def split: option.splits sum.splits)
qed

lemma medallion_edges: "\<exists>m. build_edges medallion_refs (declared_names medallion) medallion Map.empty = Inr m"
  by (simp add: medallion_def table_deps_def medallion_refs_def)

theorem graph_build_cycle_witness:
  "\<exists>m. build_edges medallion_refs (declared_names medallion) medallion Map.empty = Inr m \<and>
       acyclic (edge_rel (graph_edges m))"
proof -
  obtain m where m: "build_edges medallion_refs (declared_names medallion) medallion Map.empty = Inr m"
    using medallion_edges by blast
  have "\<exists>order. graph_build medallion_refs medallion = Some (Inr order)"
    using medallion_build
    by (cases "graph_build medallion_refs medallion"; cases "the (graph_build medallion_refs medallion)") auto
  with graph_build_cycle [OF m] m show ?thesis by blast
qed

interpretation needed: worklist "node_deps order" "{}" "needed_loop order"
proof
  fix P :: "string list \<Rightarrow> string set \<Rightarrow> bool" and st seen
  assume "\<And>seen. P [] seen"
    and "\<And>x st seen. (x \<in> {} \<or> x \<in> seen \<Longrightarrow> P st seen) \<Longrightarrow>
      (\<not> (x \<in> {} \<or> x \<in> seen) \<Longrightarrow> P (rev (node_deps order x) @ st) (insert x seen)) \<Longrightarrow> P (x # st) seen"
  then show "P st seen"
    by (induction order st seen rule: needed_loop.induct) blast+
qed simp_all

lemma needed_loop_closure: "needed_loop order (rev wanted) {} = (edge_rel (node_deps order))\<^sup>* `` set wanted"
  using needed.loop_closure [of order "rev wanted"] by (simp add: edge_rel_def)

text \<open>
  Asking for some tables updates exactly those and everything they depend on, directly or not, in the
  order of the whole pipeline; an undeclared table is refused.
\<close>

theorem subgraph_exact:
  "subgraph order wanted =
     (if wanted = [] then Inr order
      else if set wanted \<subseteq> n_name ` set order
      then Inr (filter (\<lambda>x. n_name x \<in> (edge_rel (node_deps order))\<^sup>* `` set wanted) order)
      else Inl (Io (''`--table '' @ the (List.find (\<lambda>n. n \<notin> n_name ` set order) wanted) @
             ''` is not a declared table (declared: '' @ join '', '' (map n_name order) @ '')'')))"
proof -
  have "List.find (\<lambda>n. n \<notin> n_name ` set order) wanted = None \<longleftrightarrow> set wanted \<subseteq> n_name ` set order"
    by (auto simp: find_None_iff)
  then show ?thesis
    by (cases "List.find (\<lambda>n. n \<notin> n_name ` set order) wanted")
      (auto simp: subgraph_def Let_def needed_loop_closure)
qed

end
