(* ===== verification/Config_Interpolate.thy ===== *)
theory Config_Interpolate
  imports Oxidant_Prelude
begin

text \<open>
  Variables in the configuration file: \<^verbatim>\<open>oxidant-config/src/interpolate.rs\<close>.

  \<^item> \<open>yaml\<close> is the value type of the YAML library; a number is its printed text, and a mapping keeps its keys
    in order and replaces the value of a key it already has.
  \<^item> The environment, the directory of the file and the working directory are parameters.
\<close>

section \<open>Values\<close>

datatype yaml =
    YNull | YBool bool | YNumber string | YString string
  | YSequence "yaml list" | YMapping "(yaml \<times> yaml) list" | YTagged string yaml

definition yaml_get :: "string \<Rightarrow> yaml \<Rightarrow> yaml option" where
  "yaml_get k v = (case v of YMapping m \<Rightarrow> map_of m (YString k) | _ \<Rightarrow> None)"

fun scalar_text :: "yaml \<Rightarrow> string option" where
  "scalar_text (YString s) = Some s"
| "scalar_text (YNumber n) = Some n"
| "scalar_text (YBool b) = Some (if b then ''true'' else ''false'')"
| "scalar_text _ = None"

section \<open>The lookup table\<close>

definition RESERVED :: "string list" where
  "RESERVED = [''CONFIG_DIR'', ''PWD'']"

type_synonym var_table = "string \<rightharpoonup> string option"

fun file_vars :: "(yaml \<times> yaml) list \<Rightarrow> var_table \<Rightarrow> var_table result" where
  "file_vars [] table = Inr table"
| "file_vars ((k, v) # kvs) table =
     (case (k, scalar_text v) of
        (YString key, Some val) \<Rightarrow>
          if key \<in> set RESERVED
          then Inl (Io (''`vars.'' @ key @ ''` shadows a built-in variable; rename it (built-ins: '' @
                        join '', '' RESERVED @ '')''))
          else file_vars kvs (table(key \<mapsto> Some val))
      | _ \<Rightarrow> file_vars kvs table)"

definition env_vars :: "(string \<times> string) list \<Rightarrow> var_table \<Rightarrow> var_table" where
  "env_vars env table = fold (\<lambda>(k, v) t. if k \<in> set RESERVED then t else t(k \<mapsto> Some v)) env table"

definition variables ::
  "(string \<times> string) list \<Rightarrow> string option result \<Rightarrow> string option \<Rightarrow> yaml \<Rightarrow> var_table result" where
  "variables env config_dir pwd root =
     rbind (case yaml_get ''vars'' root of Some (YMapping m) \<Rightarrow> file_vars m Map.empty | _ \<Rightarrow> Inr Map.empty) (\<lambda>t.
     rbind config_dir (\<lambda>cd.
       Inr ((env_vars env t)(''CONFIG_DIR'' \<mapsto> cd, ''PWD'' \<mapsto> pwd))))"

section \<open>Expansion\<close>

definition resolve :: "string \<Rightarrow> string \<Rightarrow> var_table \<Rightarrow> string result" where
  "resolve name whole table =
     (case table name of
        Some (Some v) \<Rightarrow> Inr v
      | Some None \<Rightarrow> Inl (Io (''`${'' @ name @ ''}` in `'' @ whole @
          ''` is unavailable here '' @ em_dash @ '' it is only defined when the config is loaded from a file on disk''))
      | None \<Rightarrow> Inl (Io (''`${'' @ name @ ''}` in `'' @ whole @
          ''` is not defined. Set it under `vars:`, export it in the environment, or use a built-in ('' @
          join '', '' RESERVED @ '')'')))"

lemma split_once_length: "split_once d s = Some (a, b) \<Longrightarrow> length b < length s"
  by (induction s arbitrary: a) (auto split: if_splits option.splits)

function expand_loop :: "string \<Rightarrow> var_table \<Rightarrow> string \<Rightarrow> string result" where
  "expand_loop whole table s =
     (case s of
        [] \<Rightarrow> Inr []
      | c # s' \<Rightarrow>
          if c \<noteq> CHR ''$'' then
            rbind (expand_loop whole table (dropWhile (\<lambda>c. c \<noteq> CHR ''$'') s')) (\<lambda>r.
              Inr (c # takeWhile (\<lambda>c. c \<noteq> CHR ''$'') s' @ r))
          else if starts_with s ''$${'' then rbind (expand_loop whole table (drop 3 s)) (\<lambda>r. Inr (''${'' @ r))
          else if \<not> starts_with s ''${'' then rbind (expand_loop whole table s') (\<lambda>r. Inr (CHR ''$'' # r))
          else (case split_once CHR ''}'' (drop 2 s) of
                  None \<Rightarrow> Inl (Io (''unterminated `${` in `'' @ whole @ ''` '' @ em_dash @ '' a literal `${` is written `$${`''))
                | Some (name, rest) \<Rightarrow>
                    rbind (resolve name whole table) (\<lambda>v.
                    rbind (expand_loop whole table rest) (\<lambda>r. Inr (v @ r)))))"
  by pat_completeness auto

termination
proof (relation "measure (\<lambda>(_, _, s). length s)")
  fix whole table s and c :: char and s'
  assume "s = c # s'"
  moreover have "length (dropWhile (\<lambda>c. c \<noteq> CHR ''$'') s') \<le> length s'" by (rule length_dropWhile_le)
  ultimately show "((whole, table, dropWhile (\<lambda>c. c \<noteq> CHR ''$'') s'), whole, table, s) \<in> measure (\<lambda>(_, _, s). length s)"
    by simp
qed (auto dest: split_once_length)

declare expand_loop.simps [simp del]

definition expand :: "string \<Rightarrow> var_table \<Rightarrow> string result" where
  "expand s table = (if CHR ''$'' \<notin> set s then Inr s else expand_loop s table s)"

fun rmapM :: "('a \<Rightarrow> 'b result) \<Rightarrow> 'a list \<Rightarrow> 'b list result" where
  "rmapM f [] = Inr []"
| "rmapM f (x # xs) = rbind (f x) (\<lambda>y. rbind (rmapM f xs) (\<lambda>ys. Inr (y # ys)))"

lemma rmapM_cong [fundef_cong]:
  "xs = ys \<Longrightarrow> (\<And>x. x \<in> set ys \<Longrightarrow> f x = g x) \<Longrightarrow> rmapM f xs = rmapM g ys"
  by (induction xs arbitrary: ys) auto

fun substitute :: "var_table \<Rightarrow> yaml \<Rightarrow> yaml result" where
  "substitute table (YString s) = rbind (expand s table) (\<lambda>t. Inr (YString t))"
| "substitute table (YSequence xs) = rbind (rmapM (substitute table) xs) (\<lambda>ys. Inr (YSequence ys))"
| "substitute table (YMapping kvs) =
     rbind (rmapM (\<lambda>(k, v). rbind (substitute table k) (\<lambda>k. rbind (substitute table v) (\<lambda>v. Inr (k, v)))) kvs)
       (\<lambda>kvs. Inr (YMapping (fold (\<lambda>(k, v) m. AList.update k v m) kvs [])))"
| "substitute table v = Inr v"

text \<open>\<^verbatim>\<open>interpolate_config\<close> between the library's parser and its deserializer.\<close>

definition interpolate_value ::
  "(string \<times> string) list \<Rightarrow> string option result \<Rightarrow> string option \<Rightarrow> yaml \<Rightarrow> yaml result" where
  "interpolate_value env config_dir pwd v =
     rbind (variables env config_dir pwd v) (\<lambda>table. substitute table v)"

section \<open>Texts without variables and escapes\<close>

fun escape :: "string \<Rightarrow> string" where
  "escape [] = []"
| "escape (c # s) = (if c = CHR ''$'' \<and> starts_with s ''{'' then ''$$'' else [c]) @ escape s"

fun dollar_free :: "yaml \<Rightarrow> bool" where
  "dollar_free (YString s) = (CHR ''$'' \<notin> set s)"
| "dollar_free (YSequence xs) = list_all dollar_free xs"
| "dollar_free (YMapping kvs) = (distinct (map fst kvs) \<and> list_all (\<lambda>(k, v). dollar_free k \<and> dollar_free v) kvs)"
| "dollar_free _ = True"

lemma expand_loop_Nil [simp]: "expand_loop whole table [] = Inr []"
  by (simp add: expand_loop.simps)

lemma expand_loop_plain [simp]:
  assumes "c \<noteq> CHR ''$''"
  shows "expand_loop whole table (c # s) = rbind (expand_loop whole table s) (\<lambda>r. Inr (c # r))"
proof (cases s)
  case (Cons d s')
  show ?thesis
  proof (cases "d = CHR ''$''")
    case True
    with assms Cons show ?thesis by (subst expand_loop.simps) simp
  next
    case False
    have "expand_loop whole table s =
        rbind (expand_loop whole table (dropWhile (\<lambda>c. c \<noteq> CHR ''$'') s')) (\<lambda>r.
          Inr (d # takeWhile (\<lambda>c. c \<noteq> CHR ''$'') s' @ r))"
      using Cons False by (subst expand_loop.simps) simp
    then show ?thesis
      using assms Cons False
      by (subst expand_loop.simps) (cases "expand_loop whole table (dropWhile (\<lambda>c. c \<noteq> CHR ''$'') s')"; simp)
  qed
qed (use assms in \<open>simp add: expand_loop.simps\<close>)

lemma expand_loop_escaped [simp]:
  "expand_loop whole table (CHR ''$'' # CHR ''$'' # CHR ''{'' # s) = rbind (expand_loop whole table s) (\<lambda>r. Inr (''${'' @ r))"
  by (subst expand_loop.simps) (simp add: starts_with_def)

lemma expand_loop_lone:
  "\<not> starts_with s ''${'' \<Longrightarrow> \<not> starts_with s ''{'' \<Longrightarrow>
     expand_loop whole table (CHR ''$'' # s) = rbind (expand_loop whole table s) (\<lambda>r. Inr (CHR ''$'' # r))"
  by (subst expand_loop.simps) (simp add: starts_with_def)



lemma escape_head: "starts_with (escape s) ''{'' \<longleftrightarrow> starts_with s ''{''"
  by (cases s) (auto simp: starts_with_def)

lemma escape_no_reference: "\<not> starts_with s ''{'' \<Longrightarrow> \<not> starts_with (escape s) ''${''"
  by (cases s) (auto simp: starts_with_def escape_head [unfolded starts_with_def, simplified])

lemma expand_loop_escape: "expand_loop whole table (escape s) = Inr s"
proof (induction s rule: length_induct)
  case (1 s)
  show ?case
  proof (cases s)
    case (Cons c s')
    have IH: "expand_loop whole table (escape t) = Inr t" if "length t < length s" for t using 1 that by blast
    show ?thesis
    proof (cases "c = CHR ''$''")
      case False
      with Cons IH [of s'] show ?thesis by simp
    next
      case True
      show ?thesis
      proof (cases "starts_with s' ''{''")
        case True
        then obtain t where t: "s' = CHR ''{'' # t" by (auto simp: starts_with_iff)
        with Cons \<open>c = CHR ''$''\<close> IH [of t] show ?thesis by (simp add: starts_with_def)
      next
        case no: False
        then have "expand_loop whole table (CHR ''$'' # escape s') = rbind (expand_loop whole table (escape s')) (\<lambda>r. Inr (CHR ''$'' # r))"
          by (intro expand_loop_lone) (simp_all add: escape_no_reference escape_head)
        with no True Cons IH [of s'] show ?thesis by simp
      qed
    qed
  qed simp
qed

lemma escape_id: "CHR ''$'' \<notin> set s \<Longrightarrow> escape s = s"
  by (induction s) auto

lemma dollar_in_escape: "CHR ''$'' \<in> set (escape s) \<longleftrightarrow> CHR ''$'' \<in> set s"
  by (induction s) auto

lemma env_vars_lookup:
  "k \<notin> set RESERVED \<Longrightarrow> env_vars env table k =
     (case map_of (rev env) k of Some v \<Rightarrow> Some (Some v) | None \<Rightarrow> table k)"
  unfolding env_vars_def
  by (induction env arbitrary: table) (auto simp: map_add_def split: option.splits)

lemma rmapM_id: "(\<And>x. x \<in> set xs \<Longrightarrow> f x = Inr x) \<Longrightarrow> rmapM f xs = Inr xs"
  by (induction xs) auto

lemma fold_update_distinct:
  "distinct (map fst (m @ kvs)) \<Longrightarrow> fold (\<lambda>(k, v) m. AList.update k v m) kvs m = m @ kvs"
proof (induction kvs arbitrary: m)
  case (Cons kv kvs)
  obtain k v where kv: "kv = (k, v)" by fastforce
  have "k \<notin> fst ` set m" using Cons.prems kv by auto
  then have "AList.update k v m = m @ [(k, v)]" by (induction m) auto
  with Cons kv show ?case by auto
qed simp

section \<open>Properties\<close>

text \<open>
  The escape is exact: a text in which every reference opener is written with a second dollar sign
  expands to the original text, whatever variables are defined.
\<close>

theorem expand_escape: "expand (escape s) table = Inr s"
  by (simp add: expand_def dollar_in_escape expand_loop_escape escape_id)



text \<open>
  The environment overrides the file's own variables, and neither can change what the two built-in
  names mean.
\<close>

theorem variables_precedence:
  assumes "variables env config_dir pwd root = Inr table"
    and "(case yaml_get ''vars'' root of Some (YMapping m) \<Rightarrow> file_vars m Map.empty | _ \<Rightarrow> Inr Map.empty) = Inr fv"
  shows "table k =
    (if k = ''PWD'' then Some pwd
     else if k = ''CONFIG_DIR'' then Some (case config_dir of Inr c \<Rightarrow> c | Inl _ \<Rightarrow> None)
     else (case map_of (rev env) k of Some v \<Rightarrow> Some (Some v) | None \<Rightarrow> fv k))"
proof -
  from assms obtain c where c: "config_dir = Inr c" "table = (env_vars env fv)(''CONFIG_DIR'' \<mapsto> c, ''PWD'' \<mapsto> pwd)"
    unfolding variables_def by auto
  then show ?thesis using env_vars_lookup [of k env fv] by (auto simp: RESERVED_def)
qed

theorem variables_precedence_witness:
  "\<exists>table. variables [(''X'', ''env'')] (Inr (Some ''/etc'')) None (YMapping [(YString ''vars'', YMapping [(YString ''X'', YNumber ''1'')])]) = Inr table \<and>
     table ''X'' = Some (Some ''env'') \<and> table ''CONFIG_DIR'' = Some (Some ''/etc'')"
proof -
  let ?root = "YMapping [(YString ''vars'', YMapping [(YString ''X'', YNumber ''1'')])]"
  have fv: "(case yaml_get ''vars'' ?root of Some (YMapping m) \<Rightarrow> file_vars m Map.empty | _ \<Rightarrow> Inr Map.empty) = Inr [''X'' \<mapsto> Some ''1'']"
    by (simp add: yaml_get_def RESERVED_def)
  then obtain table where t: "variables [(''X'', ''env'')] (Inr (Some ''/etc'')) None ?root = Inr table"
    by (simp add: variables_def)
  show ?thesis
    using variables_precedence [OF t fv, of "''X''"] variables_precedence [OF t fv, of "''CONFIG_DIR''"] t by simp
qed

text \<open>
  A configuration without a dollar sign is untouched, keys and order included.
\<close>

theorem substitute_dollar_free:
  assumes "dollar_free v" shows "substitute table v = Inr v"
  using assms
proof (induction v)
  case (YSequence xs)
  then have "rmapM (substitute table) xs = Inr xs" by (intro rmapM_id) (auto simp: list_all_iff)
  then show ?case by simp
next
  case (YMapping kvs)
  have "rmapM (\<lambda>(k, v). rbind (substitute table k) (\<lambda>k. rbind (substitute table v) (\<lambda>v. Inr (k, v)))) kvs = Inr kvs"
    using YMapping by (intro rmapM_id) (fastforce simp: list_all_iff)
  then show ?case using YMapping.prems fold_update_distinct [of "[]" kvs] by simp
qed (simp_all add: expand_def)

theorem substitute_dollar_free_witness:
  "substitute Map.empty (YSequence [YString ''a'', YBool True]) = Inr (YSequence [YString ''a'', YBool True])"
  by (rule substitute_dollar_free) simp

text \<open>A value under a YAML tag is passed over, whatever it holds.\<close>

lemma substitute_tagged: "substitute table (YTagged t v) = Inr (YTagged t v)"
  by simp

end
