(* ===== verification/Record_Batch.thy ===== *)
theory Record_Batch
  imports Oxidant_Prelude "HOL-Library.List_Lexorder" "HOL-Library.Product_Lexorder"
    "HOL-Library.Char_ord" "HOL-Library.Multiset"
begin

text \<open>
  The data model the table writer and the streaming engine share. An Arrow record batch is its
  schema (the fields in order) and its rows; a row is one cell per field. A Rust \<^verbatim>\<open>BTreeMap\<close> is an
  association list sorted by its keys, which makes its iteration order explicit.
\<close>

section \<open>Batches\<close>

datatype time_unit = Second | Millisecond | Microsecond | Nanosecond

datatype data_type =
    Utf8 | LargeUtf8 | Boolean | Int8 | Int16 | Int32 | Int64 | Float32 | Float64 | Date32 | Date64
  | Binary | LargeBinary | Decimal128 nat int
  | Timestamp time_unit "string option"
  | OtherType string

datatype cell = Null | IntCell int | StrCell string | BoolCell bool | OtherCell string

record field =
  f_name :: string
  f_type :: data_type

record record_batch =
  rb_schema :: "field list"
  rb_rows :: "cell list list"

definition num_rows :: "record_batch \<Rightarrow> nat" where
  "num_rows b = length (rb_rows b)"

definition num_columns :: "record_batch \<Rightarrow> nat" where
  "num_columns b = length (rb_schema b)"

definition total_rows :: "record_batch list \<Rightarrow> nat" where
  "total_rows bs = sum_list (map num_rows bs)"

definition all_rows :: "record_batch list \<Rightarrow> cell list list" where
  "all_rows bs = concat (map rb_rows bs)"

text \<open>\<^verbatim>\<open>Schema::index_of\<close>: the first field of that name.\<close>

primrec index_of :: "field list \<Rightarrow> string \<Rightarrow> nat option" where
  "index_of [] c = None"
| "index_of (f # fs) c = (if f_name f = c then Some 0 else map_option Suc (index_of fs c))"

lemma total_rows_simps [simp]:
  "total_rows [] = 0" "total_rows (b # bs) = num_rows b + total_rows bs"
  "total_rows (as @ bs) = total_rows as + total_rows bs"
  by (simp_all add: total_rows_def)

lemma all_rows_simps [simp]:
  "all_rows [] = []" "all_rows (b # bs) = rb_rows b @ all_rows bs"
  "all_rows (as @ bs) = all_rows as @ all_rows bs"
  by (simp_all add: all_rows_def)

lemma total_rows_length: "total_rows bs = length (all_rows bs)"
  by (induction bs) (simp_all add: num_rows_def)

lemma total_rows_0_iff: "total_rows bs = 0 \<longleftrightarrow> all_rows bs = []"
  by (simp add: total_rows_length)

lemma index_of_Some:
  "index_of fs c = Some i \<Longrightarrow> i < length fs \<and> f_name (fs ! i) = c"
  by (induction fs arbitrary: i) (auto split: if_splits)

lemma index_of_None: "index_of fs c = None \<longleftrightarrow> c \<notin> f_name ` set fs"
  by (induction fs) auto

section \<open>Ordered maps\<close>

text \<open>\<^verbatim>\<open>BTreeMap::insert\<close>, and \<^verbatim>\<open>entry(k).or_default().push(...)\<close> on a map of vectors.\<close>

fun bt_insert :: "'k::linorder \<Rightarrow> 'v \<Rightarrow> ('k \<times> 'v) list \<Rightarrow> ('k \<times> 'v) list" where
  "bt_insert k v [] = [(k, v)]"
| "bt_insert k v ((k', v') # m) =
     (if k < k' then (k, v) # (k', v') # m
      else if k = k' then (k, v) # m
      else (k', v') # bt_insert k v m)"

definition bt_get :: "('k \<times> 'v list) list \<Rightarrow> 'k \<Rightarrow> 'v list" where
  "bt_get m k = (case map_of m k of None \<Rightarrow> [] | Some vs \<Rightarrow> vs)"

definition bt_push :: "'k::linorder \<Rightarrow> 'v \<Rightarrow> ('k \<times> 'v list) list \<Rightarrow> ('k \<times> 'v list) list" where
  "bt_push k v m = bt_insert k (bt_get m k @ [v]) m"

definition bt_collect :: "('k::linorder \<times> 'v) list \<Rightarrow> ('k \<times> 'v) list" where
  "bt_collect kvs = fold (\<lambda>(k, v). bt_insert k v) kvs []"

definition bt_sorted :: "('k::linorder \<times> 'v) list \<Rightarrow> bool" where
  "bt_sorted m \<longleftrightarrow> sorted_wrt (<) (map fst m)"

lemma bt_sorted_Nil [simp]: "bt_sorted []"
  by (simp add: bt_sorted_def)

lemma bt_insert_keys: "fst ` set (bt_insert k v m) = insert k (fst ` set m)"
  by (induction k v m rule: bt_insert.induct) auto

lemma bt_insert_sorted [intro]: "bt_sorted m \<Longrightarrow> bt_sorted (bt_insert k v m)"
proof (induction k v m rule: bt_insert.induct)
  case (2 k v k' v' m)
  then show ?case
    using bt_insert_keys [of k v m]
    by (auto simp: bt_sorted_def)
qed (simp add: bt_sorted_def)

lemma bt_sorted_distinct: "bt_sorted m \<Longrightarrow> distinct (map fst m)"
  unfolding bt_sorted_def by (simp add: strict_sorted_iff)

lemma bt_insert_lookup: "bt_sorted m \<Longrightarrow> map_of (bt_insert k v m) = (map_of m)(k \<mapsto> v)"
proof (induction k v m rule: bt_insert.induct)
  case (2 k v k' v' m)
  then show ?case
    by (auto simp: bt_sorted_def fun_eq_iff)
qed simp

lemma bt_collect_sorted [simp]: "bt_sorted (bt_collect kvs)"
proof -
  have "bt_sorted m \<Longrightarrow> bt_sorted (fold (\<lambda>(k, v). bt_insert k v) kvs m)" for m
    by (induction kvs arbitrary: m) auto
  then show ?thesis
    by (simp add: bt_collect_def)
qed

lemma bt_get_push:
  "bt_sorted m \<Longrightarrow> bt_get (bt_push k v m) k' = (if k = k' then bt_get m k @ [v] else bt_get m k')"
  by (simp add: bt_get_def bt_push_def bt_insert_lookup)

lemma bt_push_sorted [intro]: "bt_sorted m \<Longrightarrow> bt_sorted (bt_push k v m)"
  by (auto simp: bt_push_def)

lemma bt_get_Nil [simp]: "bt_get [] k = []"
  by (simp add: bt_get_def)

section \<open>Maxima\<close>

lemma fold_max_start: "(c :: int) \<le> fold max ns c"
proof (induction ns arbitrary: c)
  case (Cons a ns)
  from Cons [of "max a c"] show ?case by simp
qed simp

lemma fold_max_upper: "n \<in> set ns \<Longrightarrow> n \<le> fold max ns (c :: int)"
proof (induction ns arbitrary: c)
  case (Cons a ns)
  then show ?case using fold_max_start [of "max a c" ns] by auto
qed simp

lemma fold_max_member: "fold max ns c \<in> insert (c :: int) (set ns)"
proof (induction ns arbitrary: c)
  case (Cons a ns)
  from Cons [of "max a c"] show ?case by (auto simp: max_def split: if_splits)
qed simp

end
