(* ===== verification/Stream_Source.thy ===== *)
theory Stream_Source
  imports Record_Batch Byte_Codec
begin

text \<open>
  Streaming sources (\<^verbatim>\<open>oxidant-streaming/src/source.rs\<close>): the replay position, the extent of a
  micro-batch, the trait every source implements (\<^verbatim>\<open>source_ops\<close>, its methods as a record of functions),
  and two implementations, the file directory and the rate generator. What a source sees of the
  outside is the environment of a call: the directory listing, the readers of DataFusion, and what
  Arrow decides (schema equality, which also compares the nullability and metadata that a \<^verbatim>\<open>field\<close>
  of the model leaves out, \<^verbatim>\<open>RecordBatch::try_new\<close>, and how names and types print).
  Paths are UTF-8, and the entries of one directory sort as their strings do.
\<close>

section \<open>Positions and ranges\<close>

record source_offsets =
  so_source :: string
  so_entries :: "(string \<times> int) list"

record batch_range =
  br_source :: string
  br_start :: "(string \<times> int) list"
  br_end :: "(string \<times> int) list"
  br_items :: "string list"

definition batch_range_default :: batch_range where
  "batch_range_default = \<lparr>br_source = [], br_start = [], br_end = [], br_items = []\<rparr>"

definition entry_or_zero :: "(string \<times> int) list \<Rightarrow> string \<Rightarrow> int" where
  "entry_or_zero m k = (case map_of m k of None \<Rightarrow> 0 | Some v \<Rightarrow> v)"

definition range_is_empty :: "batch_range \<Rightarrow> bool" where
  "range_is_empty r \<longleftrightarrow> br_items r = [] \<and> list_all (\<lambda>(k, e). e \<le> entry_or_zero (br_start r) k) (br_end r)"

record ('s, 'e) source_ops =
  src_plan_batch :: "'e \<Rightarrow> 's \<Rightarrow> 's \<times> batch_range result"
  src_poll_range :: "'e \<Rightarrow> 's \<Rightarrow> batch_range \<Rightarrow> 's \<times> record_batch list result"
  src_committed_offsets :: "'s \<Rightarrow> source_offsets option"
  src_restore_offsets :: "source_offsets \<Rightarrow> 's \<Rightarrow> 's"
  src_mark_durable :: "'e \<Rightarrow> 's \<Rightarrow> 's \<times> unit result"
  src_available_end :: "'e \<Rightarrow> 's \<Rightarrow> (string \<times> int) list option result"

section \<open>The file source\<close>

record file_source =
  fs_path :: string
  fs_format :: string
  fs_seen :: "string list"
  fs_schema :: "field list"
  fs_schema_pinned :: bool
  fs_options :: "string \<rightharpoonup> string"

text \<open>The reader \<^verbatim>\<open>poll_range\<close> calls for a format, with the options it passes.\<close>

datatype read_call =
    ReadParquet "field list option"
  | ReadJson "field list option"
  | ReadCsv bool char "field list option"

record file_env =
  fe_listing :: "string \<Rightarrow> (string \<times> bool) list option"
  fe_read :: "read_call \<Rightarrow> string \<Rightarrow> string + record_batch list"
  fe_schema_eq :: "record_batch \<Rightarrow> field list \<Rightarrow> bool"
  fe_try_new :: "field list \<Rightarrow> cell list list \<Rightarrow> string + record_batch"
  fe_show_names :: "string list \<Rightarrow> string"
  fe_show_type :: "data_type \<Rightarrow> string"

definition file_source_new :: "string \<Rightarrow> string \<Rightarrow> field list option \<Rightarrow> (string \<rightharpoonup> string) \<Rightarrow> file_source" where
  "file_source_new path format schema options =
     \<lparr>fs_path = path, fs_format = to_ascii_lowercase format, fs_seen = [],
      fs_schema = (case schema of None \<Rightarrow> [] | Some fs \<Rightarrow> fs),
      fs_schema_pinned = (case schema of None \<Rightarrow> False | Some fs \<Rightarrow> fs \<noteq> []), fs_options = options\<rparr>"

definition path_file_name :: "string \<Rightarrow> string" where
  "path_file_name p = List.last (split_on CHR ''/'' p)"

definition is_stream_data_file :: "string \<Rightarrow> string \<Rightarrow> bool" where
  "is_stream_data_file p format =
     (let name = path_file_name p; lower = to_ascii_lowercase name in
      if starts_with name ''.'' \<or> starts_with name ''_'' \<or> ends_with name ''.crc'' then False
      else if format = ''json'' then ends_with lower ''.json'' \<or> ends_with lower ''.jsonl''
      else if format = ''csv'' then ends_with lower ''.csv'' \<or> ends_with lower ''.txt''
      else if format = ''parquet'' then ends_with lower ''.parquet''
      else True)"

definition new_files :: "file_env \<Rightarrow> file_source \<Rightarrow> string list" where
  "new_files env s =
     (case fe_listing env (fs_path s) of
        None \<Rightarrow> []
      | Some entries \<Rightarrow>
          sort (map fst (filter (\<lambda>(p, is_file). is_file \<and> p \<notin> set (fs_seen s) \<and> is_stream_data_file p (fs_format s)) entries)))"

definition file_plan_batch :: "file_env \<Rightarrow> file_source \<Rightarrow> file_source \<times> batch_range result" where
  "file_plan_batch env s = (s, Inr (batch_range_default\<lparr>br_source := ''file'', br_items := new_files env s\<rparr>))"

text \<open>\<^verbatim>\<open>project_to_schema\<close>: reorder and select the columns of a file to the declared schema.\<close>

fun project_columns :: "file_env \<Rightarrow> record_batch \<Rightarrow> field list \<Rightarrow> nat list result" where
  "project_columns env b [] = Inr []"
| "project_columns env b (f # fs) =
     (case index_of (rb_schema b) (f_name f) of
        None \<Rightarrow> Inl (Execution (''streaming file is missing declared column `'' @ f_name f @ ''` (have '' @
                  fe_show_names env (map f_name (rb_schema b)) @ '')''))
      | Some i \<Rightarrow>
          if f_type (rb_schema b ! i) \<noteq> f_type f
          then Inl (Execution (''streaming file column `'' @ f_name f @ ''` has type '' @
                  fe_show_type env (f_type (rb_schema b ! i)) @ '', declared '' @ fe_show_type env (f_type f)))
          else rbind (project_columns env b fs) (\<lambda>cols. Inr (i # cols)))"

definition project_to_schema :: "file_env \<Rightarrow> record_batch \<Rightarrow> field list \<Rightarrow> record_batch result" where
  "project_to_schema env b want =
     (if fe_schema_eq env b want then Inr b
      else rbind (project_columns env b want) (\<lambda>cols.
        case fe_try_new env want (map (\<lambda>row. map (\<lambda>i. row ! i) cols) (rb_rows b)) of
          Inl e \<Rightarrow> Inl (Execution (''project stream schema: '' @ e))
        | Inr b' \<Rightarrow> Inr b'))"

fun project_all :: "file_env \<Rightarrow> field list \<Rightarrow> record_batch list \<Rightarrow> record_batch list result" where
  "project_all env want [] = Inr []"
| "project_all env want (b # bs) =
     rbind (project_to_schema env b want) (\<lambda>b'. rbind (project_all env want bs) (\<lambda>bs'. Inr (b' # bs')))"

definition csv_has_header :: "(string \<rightharpoonup> string) \<Rightarrow> bool" where
  "csv_has_header opts = (case opts ''header'' of None \<Rightarrow> False | Some v \<Rightarrow> eq_ignore_ascii_case v ''true'')"

definition csv_delimiter :: "(string \<rightharpoonup> string) \<Rightarrow> char" where
  "csv_delimiter opts =
     (case (case opts ''delimiter'' of None \<Rightarrow> opts ''sep'' | Some v \<Rightarrow> Some v) of
        Some (c # _) \<Rightarrow> c | _ \<Rightarrow> CHR '','')"

definition read_call_of :: "file_source \<Rightarrow> read_call result" where
  "read_call_of s =
     (let pinned = (if fs_schema_pinned s then Some (fs_schema s) else None) in
      if fs_format s = ''parquet'' then Inr (ReadParquet pinned)
      else if fs_format s = ''json'' then Inr (ReadJson pinned)
      else if fs_format s = ''csv''
        then Inr (ReadCsv (csv_has_header (fs_options s)) (csv_delimiter (fs_options s)) pinned)
      else Inl (Unsupported (''readStream.format(`'' @ fs_format s @ ''`) is not a file source'')))"

fun read_items :: "file_env \<Rightarrow> string list \<Rightarrow> file_source \<Rightarrow> file_source \<times> record_batch list result" where
  "read_items env [] s = (s, Inr [])"
| "read_items env (p # ps) s =
     (case read_call_of s of
        Inl e \<Rightarrow> (s, Inl e)
      | Inr call \<Rightarrow>
         (case fe_read env call p of
            Inl e \<Rightarrow> (s, Inl (Execution (''read `'' @ p @ ''`: '' @ e)))
          | Inr bs \<Rightarrow>
             (case (if fs_schema_pinned s then project_all env (fs_schema s) bs else Inr bs) of
                Inl e \<Rightarrow> (s, Inl e)
              | Inr out \<Rightarrow>
                  (let s1 = (if fs_schema_pinned s then s
                             else case bs of [] \<Rightarrow> s | b # _ \<Rightarrow> s\<lparr>fs_schema := rb_schema b\<rparr>)
                   in case read_items env ps s1 of
                        (s2, Inl e) \<Rightarrow> (s2, Inl e)
                      | (s2, Inr rest) \<Rightarrow> (s2, Inr (out @ rest))))))"

definition extend_seen :: "string list \<Rightarrow> string list \<Rightarrow> string list" where
  "extend_seen seen ps = fold (\<lambda>p acc. if p \<in> set acc then acc else acc @ [p]) ps seen"

definition file_poll_range :: "file_env \<Rightarrow> file_source \<Rightarrow> batch_range \<Rightarrow> file_source \<times> record_batch list result" where
  "file_poll_range env s r =
     (if br_source r \<noteq> ''file'' \<or> br_items r = [] then (s, Inr [])
      else case read_items env (br_items r) s of
        (s', Inl e) \<Rightarrow> (s', Inl e)
      | (s', Inr bs) \<Rightarrow> (s'\<lparr>fs_seen := extend_seen (fs_seen s') (br_items r)\<rparr>, Inr bs))"

definition file_committed_offsets :: "file_source \<Rightarrow> source_offsets option" where
  "file_committed_offsets s = Some \<lparr>so_source = ''file'', so_entries = bt_collect (map (\<lambda>p. (p, 1)) (fs_seen s))\<rparr>"

definition file_restore_offsets :: "source_offsets \<Rightarrow> file_source \<Rightarrow> file_source" where
  "file_restore_offsets o1 s =
     (if so_source o1 \<noteq> ''file'' then s else s\<lparr>fs_seen := extend_seen (fs_seen s) (map fst (so_entries o1))\<rparr>)"

definition file_ops :: "(file_source, file_env) source_ops" where
  "file_ops = \<lparr>src_plan_batch = file_plan_batch, src_poll_range = file_poll_range,
     src_committed_offsets = file_committed_offsets, src_restore_offsets = file_restore_offsets,
     src_mark_durable = (\<lambda>_ s. (s, Inr ())), src_available_end = (\<lambda>_ _. Inr None)\<rparr>"

section \<open>The rate source\<close>

record rate_source =
  rs_rows_per_batch :: nat
  rs_batch_count :: nat
  rs_max_batches :: nat

text \<open>\<^verbatim>\<open>i64\<close> addition of a release build wraps.\<close>

definition wrap_i64 :: "int \<Rightarrow> int" where
  "wrap_i64 i = to_signed 64 (of_signed 64 i)"

definition rate_source_new :: "nat \<Rightarrow> nat \<Rightarrow> rate_source" where
  "rate_source_new rows_per_batch max_batches =
     \<lparr>rs_rows_per_batch = rows_per_batch, rs_batch_count = 0, rs_max_batches = max_batches\<rparr>"

definition rate_plan_batch :: "'e \<Rightarrow> rate_source \<Rightarrow> rate_source \<times> batch_range result" where
  "rate_plan_batch env s =
     (if rs_max_batches s \<le> rs_batch_count s then (s, Inr batch_range_default)
      else (s, Inr \<lparr>br_source = ''rate'', br_start = [(''batch'', to_signed 64 (rs_batch_count s))],
                    br_end = [(''batch'', wrap_i64 (to_signed 64 (rs_batch_count s) + 1))], br_items = []\<rparr>))"

definition rate_poll_range ::
  "(string \<Rightarrow> record_batch list result) \<Rightarrow> rate_source \<Rightarrow> batch_range \<Rightarrow> rate_source \<times> record_batch list result" where
  "rate_poll_range sql s r =
     (if br_source r \<noteq> ''rate'' \<or> range_is_empty r then (s, Inr [])
      else (s\<lparr>rs_batch_count := of_signed 64 (entry_or_zero (br_end r) ''batch'')\<rparr>, 
            sql (''SELECT id FROM range(0, '' @ show_nat (rs_rows_per_batch s) @ '', 1) AS t(id)'')))"

definition rate_committed_offsets :: "rate_source \<Rightarrow> source_offsets option" where
  "rate_committed_offsets s = Some \<lparr>so_source = ''rate'', so_entries = [(''batch'', to_signed 64 (rs_batch_count s))]\<rparr>"

definition rate_restore_offsets :: "source_offsets \<Rightarrow> rate_source \<Rightarrow> rate_source" where
  "rate_restore_offsets o1 s =
     (if so_source o1 \<noteq> ''rate'' then s
      else s\<lparr>rs_batch_count := of_signed 64 (entry_or_zero (so_entries o1) ''batch'')\<rparr>)"

definition rate_available_end :: "rate_source \<Rightarrow> (string \<times> int) list option" where
  "rate_available_end s = Some [(''batch'', int (min (rs_max_batches s) (2 ^ 63 - 1)))]"

definition rate_ops :: "(rate_source, string \<Rightarrow> record_batch list result) source_ops" where
  "rate_ops = \<lparr>src_plan_batch = rate_plan_batch, src_poll_range = rate_poll_range,
     src_committed_offsets = rate_committed_offsets, src_restore_offsets = rate_restore_offsets,
     src_mark_durable = (\<lambda>_ s. (s, Inr ())), src_available_end = (\<lambda>_ s. Inr (rate_available_end s))\<rparr>"

section \<open>Consecutive ranges\<close>

text \<open>
  The position after a list of ranges, and the lists in which every range is new at the position the
  ranges before it lead to.
\<close>

definition position_after :: "('p \<Rightarrow> batch_range \<Rightarrow> 'p) \<Rightarrow> 'p \<Rightarrow> batch_range list \<Rightarrow> 'p" where
  "position_after advance p rs = fold (\<lambda>r p. advance p r) rs p"

fun range_chain :: "('p \<Rightarrow> batch_range \<Rightarrow> bool) \<Rightarrow> ('p \<Rightarrow> batch_range \<Rightarrow> 'p) \<Rightarrow> 'p \<Rightarrow> batch_range list \<Rightarrow> bool" where
  "range_chain fresh advance p [] = True"
| "range_chain fresh advance p (r # rs) = (fresh p r \<and> range_chain fresh advance (advance p r) rs)"

lemma position_after_simps [simp]:
  "position_after advance p [] = p"
  "position_after advance p (rs @ [r]) = advance (position_after advance p rs) r"
  by (simp_all add: position_after_def)

lemma position_after_Cons: "position_after advance p (r # rs) = position_after advance (advance p r) rs"
  by (simp add: position_after_def)

lemma range_chain_snoc:
  "range_chain fresh advance p (rs @ [r]) \<longleftrightarrow> range_chain fresh advance p rs \<and> fresh (position_after advance p rs) r"
  by (induction rs arbitrary: p) (simp_all add: position_after_Cons)

lemma range_chain_append:
  "range_chain fresh advance p (rs @ ss) \<longleftrightarrow>
     range_chain fresh advance p rs \<and> range_chain fresh advance (position_after advance p rs) ss"
  by (induction rs arbitrary: p) (simp_all add: position_after_Cons)

section \<open>The contract of a replayable source\<close>

text \<open>
  What the offset log needs of a source. Planning keeps the position and offers a range that is new
  there; polling a planned range, whenever and however often, gives the records of the range, and
  takes the position to its end. A poll that fails may have moved the position already (the rate
  source sets its counter before it runs the query), so a failed poll promises only that the position
  is one of the two. A position survives being saved and restored into a source as it is built.
\<close>

locale replayable_source =
  fixes src :: "('s, 'e) source_ops" and start :: 's and env_ok :: "'e \<Rightarrow> bool" and inv :: "'s \<Rightarrow> bool"
    and pos :: "'s \<Rightarrow> 'p" and advance :: "'p \<Rightarrow> batch_range \<Rightarrow> 'p" and fresh :: "'p \<Rightarrow> batch_range \<Rightarrow> bool"
    and data :: "batch_range \<Rightarrow> record_batch list"
  assumes inv_start: "inv start"
    and plan_law: "inv s \<Longrightarrow> env_ok e \<Longrightarrow> src_plan_batch src e s = (s', planned) \<Longrightarrow>
      inv s' \<and> pos s' = pos s \<and> (case planned of Inl x \<Rightarrow> True | Inr rg \<Rightarrow> range_is_empty rg \<or> fresh (pos s) rg)"
    and poll_law: "inv s \<Longrightarrow> env_ok e \<Longrightarrow> fresh p rg \<Longrightarrow> src_poll_range src e s rg = (s', polled) \<Longrightarrow>
      inv s' \<and> (pos s' = pos s \<or> pos s' = advance (pos s) rg) \<and>
      (case polled of Inl x \<Rightarrow> True | Inr bs \<Rightarrow> bs = data rg \<and> pos s' = advance (pos s) rg)"
    and advance_idem: "advance (advance p rg) rg = advance p rg"
    and committed_law: "inv s \<Longrightarrow> \<exists>o1. src_committed_offsets src s = Some o1 \<and>
      inv (src_restore_offsets src o1 start) \<and> pos (src_restore_offsets src o1 start) = pos s"
    and durable_law: "inv s \<Longrightarrow> env_ok e \<Longrightarrow> src_mark_durable src e s = (s', told) \<Longrightarrow> inv s' \<and> pos s' = pos s"

section \<open>The file source keeps the contract\<close>

definition read_one :: "file_env \<Rightarrow> file_source \<Rightarrow> string \<Rightarrow> record_batch list result" where
  "read_one env s p =
     rbind (read_call_of s) (\<lambda>call. case fe_read env call p of
       Inl e \<Rightarrow> Inl (Execution (''read `'' @ p @ ''`: '' @ e))
     | Inr bs \<Rightarrow> if fs_schema_pinned s then project_all env (fs_schema s) bs else Inr bs)"

text \<open>Two sources of one configuration differ in what they have seen and in the schema they inferred.\<close>

definition same_files :: "file_source \<Rightarrow> file_source \<Rightarrow> bool" where
  "same_files s0 s \<longleftrightarrow> fs_path s = fs_path s0 \<and> fs_format s = fs_format s0 \<and> fs_schema_pinned s = fs_schema_pinned s0 \<and>
     fs_options s = fs_options s0 \<and> (fs_schema_pinned s0 \<longrightarrow> fs_schema s = fs_schema s0)"

text \<open>The files do not change, and a directory lists an entry once.\<close>

definition files_stable :: "file_source \<Rightarrow> (string \<Rightarrow> record_batch list) \<Rightarrow> file_env \<Rightarrow> bool" where
  "files_stable s0 content env \<longleftrightarrow>
     (\<forall>p bs. read_one env s0 p = Inr bs \<longrightarrow> bs = content p) \<and>
     (\<forall>es. fe_listing env (fs_path s0) = Some es \<longrightarrow> distinct (map fst es))"

definition file_fresh :: "string set \<Rightarrow> batch_range \<Rightarrow> bool" where
  "file_fresh p r \<longleftrightarrow> br_source r = ''file'' \<and> br_items r \<noteq> [] \<and> distinct (br_items r) \<and> set (br_items r) \<inter> p = {}"

lemma set_extend_seen [simp]: "set (extend_seen seen ps) = set seen \<union> set ps"
  unfolding extend_seen_def by (induction ps arbitrary: seen) auto

lemma bt_collect_keys: "fst ` set (bt_collect kvs) = fst ` set kvs"
proof -
  have "fst ` set (fold (\<lambda>(k, v). bt_insert k v) kvs m) = fst ` set kvs \<union> fst ` set m" for m
    by (induction kvs arbitrary: m) (simp_all add: bt_insert_keys case_prod_beta)
  then show ?thesis by (simp add: bt_collect_def)
qed

lemma read_call_same: "same_files s0 s \<Longrightarrow> read_call_of s = read_call_of s0"
  by (auto simp: same_files_def read_call_of_def Let_def)

lemma read_one_same:
  assumes "same_files s0 s"
  shows "read_one env s = read_one env s0"
proof -
  have "fs_schema_pinned s = fs_schema_pinned s0" "fs_schema_pinned s0 \<Longrightarrow> fs_schema s = fs_schema s0"
    using assms by (simp_all add: same_files_def)
  then have "(if fs_schema_pinned s then project_all env (fs_schema s) bs else Inr bs) =
      (if fs_schema_pinned s0 then project_all env (fs_schema s0) bs else Inr bs)" for bs by simp
  then show ?thesis by (simp only: fun_eq_iff read_one_def read_call_same [OF assms] simp_thms)
qed

lemma read_items_step:
  "read_items env (p # ps) s =
     (case read_one env s p of
        Inl e \<Rightarrow> (s, Inl e)
      | Inr out \<Rightarrow>
          (let s1 = (if fs_schema_pinned s then s
                     else case out of [] \<Rightarrow> s | b # _ \<Rightarrow> s\<lparr>fs_schema := rb_schema b\<rparr>)
           in case read_items env ps s1 of (s2, Inl e) \<Rightarrow> (s2, Inl e) | (s2, Inr rest) \<Rightarrow> (s2, Inr (out @ rest))))"
  by (auto simp: read_one_def rbind_def Let_def split: sum.splits prod.splits)

lemma read_items_spec:
  assumes "same_files s0 s" and "files_stable s0 content env" and "read_items env ps s = (s', r)"
  shows "same_files s0 s' \<and> fs_seen s' = fs_seen s \<and> (case r of Inl e \<Rightarrow> True | Inr bs \<Rightarrow> bs = concat (map content ps))"
  using assms
proof (induction ps arbitrary: s s' r)
  case Nil
  then show ?case by auto
next
  case (Cons p ps)
  note one = read_one_same [OF Cons.prems(1), of env]
  show ?case
  proof (cases "read_one env s p")
    case (Inl e)
    then have "s' = s" "r = Inl e" using Cons.prems(3) by (simp_all add: read_items_step del: read_items.simps)
    with Cons.prems(1) show ?thesis by simp
  next
    case (Inr out)
    let ?s1 = "if fs_schema_pinned s then s else case out of [] \<Rightarrow> s | b # _ \<Rightarrow> s\<lparr>fs_schema := rb_schema b\<rparr>"
    obtain s2 r2 where r2: "read_items env ps ?s1 = (s2, r2)" by (metis surj_pair)
    have s1: "same_files s0 ?s1" "fs_seen ?s1 = fs_seen s"
      using Cons.prems(1) by (auto simp: same_files_def split: list.splits)
    have out: "out = content p" using Cons.prems(2) Inr one by (auto simp: files_stable_def)
    have "s' = s2" "r = (case r2 of Inl e \<Rightarrow> Inl e | Inr rest \<Rightarrow> Inr (out @ rest))"
      using Cons.prems(3) Inr r2 by (auto simp: read_items_step Let_def simp del: read_items.simps split: sum.splits)
    with Cons.IH [OF s1(1) Cons.prems(2) r2] s1(2) out show ?thesis by (auto split: sum.splits)
  qed
qed

lemma new_files_fresh:
  assumes "same_files s0 s" and "files_stable s0 content env"
  shows "distinct (new_files env s) \<and> set (new_files env s) \<inter> set (fs_seen s) = {}"
proof (cases "fe_listing env (fs_path s)")
  case (Some es)
  then have "distinct (map fst es)" using assms by (auto simp: files_stable_def same_files_def)
  then have "distinct (map fst (filter P es))" for P by (rule distinct_map_filter)
  with Some show ?thesis by (auto simp: new_files_def)
qed (simp add: new_files_def)

interpretation files: replayable_source file_ops "s0\<lparr>fs_seen := []\<rparr>" "files_stable s0 content" "same_files s0"
  "\<lambda>s. set (fs_seen s)" "\<lambda>p r. p \<union> set (br_items r)" file_fresh "\<lambda>r. concat (map content (br_items r))"
  for s0 :: file_source and content :: "string \<Rightarrow> record_batch list"
proof (unfold_locales, goal_cases)
  case 1
  then show ?case by (simp add: same_files_def)
next
  case (2 s e s' planned)
  then show ?case using new_files_fresh [OF 2(1,2)]
    by (auto simp: file_ops_def file_plan_batch_def file_fresh_def batch_range_default_def range_is_empty_def)
next
  case (3 s e p rg s' polled)
  obtain s1 r1 where r1: "read_items e (br_items rg) s = (s1, r1)" by (metis surj_pair)
  from read_items_spec [OF 3(1,2) r1] 3(3,4) r1 show ?case
    by (auto simp: file_ops_def file_poll_range_def file_fresh_def same_files_def split: sum.splits)
next
  case (4 p rg)
  then show ?case by auto
next
  case (5 s)
  then show ?case
    by (auto simp: file_ops_def file_committed_offsets_def file_restore_offsets_def same_files_def bt_collect_keys image_image)
next
  case (6 s e s' told)
  then show ?case by (auto simp: file_ops_def)
qed

section \<open>The rate source keeps the contract\<close>

definition rate_sql :: "nat \<Rightarrow> string" where
  "rate_sql n = ''SELECT id FROM range(0, '' @ show_nat n @ '', 1) AS t(id)''"

definition rate_inv :: "rate_source \<Rightarrow> rate_source \<Rightarrow> bool" where
  "rate_inv s0 s \<longleftrightarrow> rs_rows_per_batch s = rs_rows_per_batch s0 \<and> rs_batch_count s < 2 ^ 63"

definition rate_fresh :: "nat \<Rightarrow> batch_range \<Rightarrow> bool" where
  "rate_fresh p r \<longleftrightarrow> Suc p < 2 ^ 63 \<and>
     r = \<lparr>br_source = ''rate'', br_start = [(''batch'', int p)], br_end = [(''batch'', int p + 1)], br_items = []\<rparr>"

lemma to_signed_small: "n < 2 ^ 63 \<Longrightarrow> to_signed 64 n = int n"
  by (simp add: to_signed_def)

lemma of_signed_small: "n < 2 ^ 63 \<Longrightarrow> of_signed 64 (int n) = n"
  by (simp add: of_signed_def)

lemma wrap_i64_small: "n < 2 ^ 63 \<Longrightarrow> wrap_i64 (int n) = int n"
  by (simp add: wrap_i64_def to_signed_small of_signed_small)

text \<open>At the last position the end of the range wraps below its start, so the source is idle there.\<close>

lemma rate_plan_fresh:
  assumes "rate_inv s0 s" and "rate_plan_batch e s = (s', Inr r)"
  shows "range_is_empty r \<or> rate_fresh (rs_batch_count s) r"
proof (cases "Suc (rs_batch_count s) < 2 ^ 63")
  case True
  have "wrap_i64 (int (rs_batch_count s) + 1) = int (rs_batch_count s) + 1"
    using wrap_i64_small [OF True] by (simp add: ac_simps)
  with assms True show ?thesis
    by (auto simp: rate_plan_batch_def rate_fresh_def rate_inv_def to_signed_small batch_range_default_def range_is_empty_def split: if_splits)
next
  case False
  then have "rs_batch_count s = 2 ^ 63 - 1" using assms(1) by (simp add: rate_inv_def)
  moreover have "wrap_i64 (int (2 ^ 63 - 1) + 1) \<le> int (2 ^ 63 - 1)"
    by (simp add: wrap_i64_def of_signed_def to_signed_def)
  ultimately show ?thesis using assms
    by (auto simp: rate_plan_batch_def rate_inv_def to_signed_small batch_range_default_def range_is_empty_def entry_or_zero_def split: if_splits)
qed

lemma rate_poll_fresh:
  assumes "rate_inv s0 s" and "rate_fresh p r"
  shows "rate_poll_range sql s r = (s\<lparr>rs_batch_count := Suc p\<rparr>, sql (rate_sql (rs_rows_per_batch s0)))"
proof -
  have "of_signed 64 (int p + 1) = Suc p"
    using assms(2) of_signed_small [of "Suc p"] by (simp add: rate_fresh_def ac_simps)
  with assms show ?thesis
    by (simp add: rate_poll_range_def rate_fresh_def rate_inv_def range_is_empty_def entry_or_zero_def rate_sql_def)
qed

interpretation rate: replayable_source rate_ops "s0\<lparr>rs_batch_count := 0\<rparr>"
  "\<lambda>sql. \<forall>bs. sql (rate_sql (rs_rows_per_batch s0)) = Inr bs \<longrightarrow> bs = rows" "rate_inv s0" rs_batch_count
  "\<lambda>p r. of_signed 64 (entry_or_zero (br_end r) ''batch'')" rate_fresh "\<lambda>r. rows"
  for s0 :: rate_source and rows :: "record_batch list"
proof (unfold_locales, goal_cases)
  case 1
  then show ?case by (simp add: rate_inv_def)
next
  case (2 s e s' planned)
  have "s' = s" using 2(3) by (auto simp: rate_ops_def rate_plan_batch_def split: if_splits)
  with 2 rate_plan_fresh [OF 2(1), of e s'] show ?case by (auto simp: rate_ops_def split: sum.splits)
next
  case (3 s e p rg s' polled)
  have "of_signed 64 (entry_or_zero (br_end rg) ''batch'') = Suc p"
    using 3(3) of_signed_small [of "Suc p"] by (simp add: rate_fresh_def entry_or_zero_def ac_simps)
  moreover have "Suc p < 2 ^ 63" using 3(3) by (simp add: rate_fresh_def)
  ultimately show ?case using 3(1,2,4) rate_poll_fresh [OF 3(1,3), of e]
    by (auto simp: rate_ops_def rate_inv_def split: sum.splits)
next
  case (4 p rg)
  then show ?case by simp
next
  case (5 s)
  then show ?case
    by (auto simp: rate_ops_def rate_committed_offsets_def rate_restore_offsets_def rate_inv_def entry_or_zero_def
        to_signed_small of_signed_small)
next
  case (6 s e s' told)
  then show ?case by (auto simp: rate_ops_def)
qed

end
