(* ===== verification/Stream_State.thy ===== *)
theory Stream_State
  imports Record_Batch Byte_Codec
begin

text \<open>
  The state a streaming query carries from batch to batch (\<^verbatim>\<open>oxidant-streaming/src/watermark.rs\<close>
  and \<^verbatim>\<open>state.rs\<close>): the event-time watermark and the keys \<^verbatim>\<open>dropDuplicates\<close> has seen. Event times
  are microseconds in 64 bits, with Rust's saturating arithmetic. Arrow's rendering of a value as
  text is a parameter \<^verbatim>\<open>fmt\<close>, and the types it cannot render are named by \<^verbatim>\<open>fmt_error\<close>.
\<close>

section \<open>Saturating arithmetic\<close>

definition i64_max :: int where "i64_max = 2 ^ 63 - 1"
definition i64_min :: int where "i64_min = - (2 ^ 63)"

definition saturate :: "int \<Rightarrow> int" where
  "saturate i = (if i < i64_min then i64_min else if i64_max < i then i64_max else i)"

section \<open>Watermarks\<close>

record watermark_config =
  event_time_column :: string
  delay_ms :: nat

type_synonym options_map = "string \<Rightarrow> string option"

definition or_else :: "'a option \<Rightarrow> 'a option \<Rightarrow> 'a option" where
  "or_else x y = (case x of None \<Rightarrow> y | Some v \<Rightarrow> Some v)"

definition watermark_from_options :: "options_map \<Rightarrow> watermark_config option" where
  "watermark_from_options opts =
     (case or_else (opts ''eventTimeColumn'') (opts ''watermarkColumn'') of
        None \<Rightarrow> None
      | Some col \<Rightarrow>
          Some \<lparr>event_time_column = col,
                delay_ms = (case Option.bind (or_else (opts ''delayMs'') (opts ''watermarkDelayMs'')) parse_u64 of
                              None \<Rightarrow> 0 | Some n \<Rightarrow> n)\<rparr>)"

text \<open>\<^verbatim>\<open>Duration::as_micros() as i64\<close> keeps the low 64 bits.\<close>

definition delay_micros :: "watermark_config \<Rightarrow> int" where
  "delay_micros c = to_signed 64 (delay_ms c * 1000 mod 2 ^ 64)"

definition watermark_for :: "watermark_config \<Rightarrow> int \<Rightarrow> int" where
  "watermark_for c mx = saturate (mx - delay_micros c)"

text \<open>Rust's division truncates towards zero.\<close>

definition div_trunc :: "int \<Rightarrow> int \<Rightarrow> int" where
  "div_trunc a b = (if a < 0 then - ((- a) div b) else a div b)"

definition event_time_micros :: "data_type \<Rightarrow> cell \<Rightarrow> int option" where
  "event_time_micros t c =
     (case c of
        IntCell v \<Rightarrow>
          (case t of
             Timestamp Second tz \<Rightarrow> Some (saturate (v * 1000000))
           | Timestamp Millisecond tz \<Rightarrow> Some (saturate (v * 1000))
           | Timestamp Microsecond tz \<Rightarrow> Some v
           | Timestamp Nanosecond tz \<Rightarrow> Some (div_trunc v 1000)
           | Date32 \<Rightarrow> Some (saturate (v * 86400000000))
           | _ \<Rightarrow> None)
      | _ \<Rightarrow> None)"

definition column_times :: "record_batch \<Rightarrow> nat \<Rightarrow> int option list" where
  "column_times b i = map (\<lambda>row. event_time_micros (f_type (rb_schema b ! i)) (row ! i)) (rb_rows b)"

definition somes :: "'a option list \<Rightarrow> 'a list" where
  "somes xs = List.map_filter id xs"

definition max_event_time_micros :: "record_batch \<Rightarrow> nat \<Rightarrow> int option" where
  "max_event_time_micros b i =
     (case somes (column_times b i) of [] \<Rightarrow> None | t # ts \<Rightarrow> Some (fold max ts t))"

text \<open>\<^verbatim>\<open>WatermarkTracker\<close>: the greatest event time seen, and the watermark before this batch.\<close>

type_synonym tracker = "int option"

definition observe_batch :: "watermark_config \<Rightarrow> record_batch \<Rightarrow> tracker \<Rightarrow> tracker" where
  "observe_batch c b seen =
     (case index_of (rb_schema b) (event_time_column c) of
        None \<Rightarrow> seen
      | Some i \<Rightarrow>
          (case max_event_time_micros b i of
             None \<Rightarrow> seen
           | Some m \<Rightarrow> Some (case seen of None \<Rightarrow> m | Some s \<Rightarrow> max s m)))"

definition observe :: "watermark_config \<Rightarrow> record_batch list \<Rightarrow> tracker \<Rightarrow> int option \<times> tracker" where
  "observe c bs seen = (map_option (watermark_for c) seen, fold (observe_batch c) bs seen)"

definition count_late :: "watermark_config \<Rightarrow> record_batch list \<Rightarrow> int \<Rightarrow> nat" where
  "count_late c bs wm =
     sum_list (map (\<lambda>b. case index_of (rb_schema b) (event_time_column c) of
        None \<Rightarrow> 0
      | Some i \<Rightarrow> length (filter (\<lambda>t. case t of Some m \<Rightarrow> m < wm | None \<Rightarrow> False) (column_times b i))) bs)"

section \<open>Deduplication\<close>

type_synonym dedup_state = "string \<rightharpoonup> int"

definition format_cell :: "(data_type \<Rightarrow> cell \<Rightarrow> string) \<Rightarrow> data_type \<Rightarrow> cell \<Rightarrow> string" where
  "format_cell fmt t c = (if c = Null then CHR 0x00 # ''null'' else fmt t c)"

text \<open>
  Arrow's formatter is used with its default options, which render a value it cannot display as a text
  and never fail. \<^verbatim>\<open>row_key\<close>: a separator before each field once the key is not empty.\<close>

definition push_field :: "string \<Rightarrow> string \<Rightarrow> string" where
  "push_field key v = (if key = [] then v else key @ CHR 0x1F # v)"

definition key_of_fields :: "string list \<Rightarrow> string" where
  "key_of_fields vs = fold (\<lambda>v key. push_field key v) vs []"

definition row_fields :: "(data_type \<Rightarrow> cell \<Rightarrow> string) \<Rightarrow> field list \<Rightarrow> nat list \<Rightarrow> cell list \<Rightarrow> string list" where
  "row_fields fmt fs cols row = map (\<lambda>i. format_cell fmt (f_type (fs ! i)) (row ! i)) cols"

definition dedup_key :: "(data_type \<Rightarrow> cell \<Rightarrow> string) \<Rightarrow> field list \<Rightarrow> nat list \<Rightarrow> cell list \<Rightarrow> string" where
  "dedup_key fmt fs cols row = key_of_fields (row_fields fmt fs cols row)"

fun key_formatters :: "(data_type \<Rightarrow> string option) \<Rightarrow> field list \<Rightarrow> nat list \<Rightarrow> unit result" where
  "key_formatters fmt_error fs [] = Inr ()"
| "key_formatters fmt_error fs (i # is) =
     (case fmt_error (f_type (fs ! i)) of
        Some e \<Rightarrow> Inl (Execution (''dropDuplicates cannot key on column '' @ show_nat i @ '': '' @ e))
      | None \<Rightarrow> key_formatters fmt_error fs is)"

definition row_time :: "field list \<Rightarrow> nat option \<Rightarrow> cell list \<Rightarrow> int" where
  "row_time fs tcol row =
     (case tcol of
        None \<Rightarrow> i64_max
      | Some i \<Rightarrow> (case event_time_micros (f_type (fs ! i)) (row ! i) of None \<Rightarrow> i64_max | Some t \<Rightarrow> t))"

fun dedup_rows :: "(cell list \<Rightarrow> string) \<Rightarrow> (cell list \<Rightarrow> int) \<Rightarrow> cell list list \<Rightarrow> dedup_state \<Rightarrow> cell list list \<times> dedup_state" where
  "dedup_rows key at [] seen = ([], seen)"
| "dedup_rows key at (r # rs) seen =
     (if seen (key r) \<noteq> None then dedup_rows key at rs seen
      else case dedup_rows key at rs (seen(key r \<mapsto> at r)) of (kept, seen') \<Rightarrow> (r # kept, seen'))"

fun dedup_each ::
  "(data_type \<Rightarrow> cell \<Rightarrow> string) \<Rightarrow> (data_type \<Rightarrow> string option) \<Rightarrow> nat list \<Rightarrow> nat option \<Rightarrow> record_batch list \<Rightarrow> dedup_state \<Rightarrow> record_batch list result \<times> dedup_state" where
  "dedup_each fmt fe cols tcol [] seen = (Inr [], seen)"
| "dedup_each fmt fe cols tcol (b # bs) seen =
     (case key_formatters fe (rb_schema b) cols of
        Inl e \<Rightarrow> (Inl e, seen)
      | Inr _ \<Rightarrow>
          (case dedup_rows (dedup_key fmt (rb_schema b) cols) (row_time (rb_schema b) tcol) (rb_rows b) seen of
             (kept, seen1) \<Rightarrow>
               (case dedup_each fmt fe cols tcol bs seen1 of
                  (r, seen2) \<Rightarrow>
                    (rbind r (\<lambda>out. Inr (if kept = [] then out else b\<lparr>rb_rows := kept\<rparr> # out)), seen2))))"

definition dedup_batches ::
  "(data_type \<Rightarrow> cell \<Rightarrow> string) \<Rightarrow> (data_type \<Rightarrow> string option) \<Rightarrow> record_batch list \<Rightarrow> nat list \<Rightarrow> nat option \<Rightarrow> dedup_state \<Rightarrow> record_batch list result \<times> dedup_state" where
  "dedup_batches fmt fe bs cols tcol seen =
     (if cols = [] then (Inr bs, seen) else dedup_each fmt fe cols tcol bs seen)"

definition expire :: "int \<Rightarrow> dedup_state \<Rightarrow> dedup_state" where
  "expire wm seen = (\<lambda>k. case seen k of None \<Rightarrow> None | Some t \<Rightarrow> if wm \<le> t then Some t else None)"

fun resolve_key_columns :: "record_batch \<Rightarrow> string list \<Rightarrow> nat list result" where
  "resolve_key_columns b [] = Inr []"
| "resolve_key_columns b (n # ns) =
     (case index_of (rb_schema b) n of
        None \<Rightarrow> Inl (Plan (''`dedup_columns` names `'' @ n @ ''`, which the stream does not produce; available: '' @
                    join '', '' (map f_name (rb_schema b))))
      | Some i \<Rightarrow> rbind (resolve_key_columns b ns) (\<lambda>is. Inr (i # is)))"

text \<open>
  What a micro-batch does with this state (\<^verbatim>\<open>run_batch_inner\<close> of \<^verbatim>\<open>scheduler.rs\<close>): the watermark observes
  the batch, the rows are deduplicated, and the keys behind the new watermark are forgotten.
\<close>

definition observe_opt :: "watermark_config option \<Rightarrow> record_batch list \<Rightarrow> tracker \<Rightarrow> nat \<times> tracker" where
  "observe_opt wm bs tr =
     (case wm of
        None \<Rightarrow> (0, tr)
      | Some c \<Rightarrow> (case observe c bs tr of (before, tr') \<Rightarrow> ((case before of None \<Rightarrow> 0 | Some w \<Rightarrow> count_late c bs w), tr')))"

definition expire_opt :: "watermark_config option \<Rightarrow> tracker \<Rightarrow> dedup_state \<Rightarrow> dedup_state" where
  "expire_opt wm tr seen =
     (case (wm, tr) of (Some c, Some m) \<Rightarrow> expire (watermark_for c m) seen | _ \<Rightarrow> seen)"

definition event_column :: "watermark_config option \<Rightarrow> record_batch list \<Rightarrow> nat option" where
  "event_column wm bs =
     (case (wm, bs) of (Some c, b # _) \<Rightarrow> index_of (rb_schema b) (event_time_column c) | _ \<Rightarrow> None)"

definition dedup_micro_batch ::
  "(data_type \<Rightarrow> cell \<Rightarrow> string) \<Rightarrow> (data_type \<Rightarrow> string option) \<Rightarrow> watermark_config option \<Rightarrow> nat list \<Rightarrow> record_batch list \<Rightarrow> tracker \<Rightarrow> dedup_state \<Rightarrow> record_batch list result \<times> dedup_state" where
  "dedup_micro_batch fmt fe wm cols bs tr seen =
     (case dedup_batches fmt fe bs cols (event_column wm bs) seen of
        (Inl e, seen') \<Rightarrow> (Inl e, seen')
      | (Inr out, seen') \<Rightarrow> (Inr out, expire_opt wm tr seen'))"

section \<open>The watermark only moves forward\<close>

definition wm_le :: "tracker \<Rightarrow> tracker \<Rightarrow> bool" where
  "wm_le a b \<longleftrightarrow> (case (a, b) of (None, _) \<Rightarrow> True | (Some x, Some y) \<Rightarrow> x \<le> y | _ \<Rightarrow> False)"

lemma wm_le_refl [simp]: "wm_le a a" and wm_le_trans: "wm_le a b \<Longrightarrow> wm_le b c \<Longrightarrow> wm_le a c"
  by (auto simp: wm_le_def split: option.splits)

lemma observe_batch_le: "wm_le tr (observe_batch c b tr)"
  by (auto simp: observe_batch_def wm_le_def split: option.splits)

lemma observe_fold_le: "wm_le tr (fold (observe_batch c) bs tr)"
  by (induction bs arbitrary: tr) (auto intro: wm_le_trans [OF observe_batch_le])

lemma watermark_for_mono: "x \<le> y \<Longrightarrow> watermark_for c x \<le> watermark_for c y"
  by (auto simp: watermark_for_def saturate_def i64_min_def i64_max_def)

lemma observe_batch_covers:
  assumes "index_of (rb_schema b) (event_time_column c) = Some i" and "row \<in> set (rb_rows b)"
    and "event_time_micros (f_type (rb_schema b ! i)) (row ! i) = Some t"
  shows "\<exists>m. observe_batch c b tr = Some m \<and> t \<le> m"
proof -
  have "Some t \<in> set (column_times b i)" using assms(2,3) by (force simp: column_times_def)
  then have t: "t \<in> set (somes (column_times b i))" by (force simp: somes_def List.map_filter_def)
  then obtain x xs where xs: "somes (column_times b i) = x # xs" by (cases "somes (column_times b i)") auto
  with t have "t \<le> fold max xs x" using fold_max_start [of x xs] fold_max_upper [of t xs x] by auto
  with assms(1) xs show ?thesis by (auto simp: observe_batch_def max_event_time_micros_def split: option.splits)
qed

section \<open>Keys\<close>

lemma fold_push_nonempty:
  "key \<noteq> [] \<Longrightarrow> fold (\<lambda>v key. push_field key v) vs key = key @ concat (map (\<lambda>v. CHR 0x1F # v) vs)"
  by (induction vs arbitrary: key) (simp_all add: push_field_def)

lemma join_cons: "join [d] (w # ws) = w @ concat (map (\<lambda>v. d # v) ws)"
proof (induction ws arbitrary: w)
  case (Cons v ws)
  then show ?case by (cases ws) simp_all
qed simp

lemma key_of_fields_join: "key_of_fields vs = join [CHR 0x1F] (dropWhile (\<lambda>v. v = []) vs)"
proof (induction vs)
  case (Cons v vs)
  show ?case
  proof (cases "v = []")
    case True
    with Cons show ?thesis by (simp add: key_of_fields_def push_field_def)
  next
    case False
    moreover have "push_field [] v = v" by (simp add: push_field_def)
    ultimately show ?thesis by (simp add: key_of_fields_def fold_push_nonempty join_cons)
  qed
qed (simp add: key_of_fields_def)

lemma split_on_join_words:
  "list_all (\<lambda>w. d \<notin> set w) (w # ws) \<Longrightarrow> split_on d (join [d] (w # ws)) = w # ws"
proof (induction ws arbitrary: w)
  case Nil
  then show ?case by (simp add: split_on_none)
next
  case (Cons v ws)
  then have "split_on d (join [d] (v # ws)) = v # ws" by simp
  with Cons.prems show ?case by (simp add: split_on_append)
qed

lemma dropWhile_parts:
  "\<exists>k. vs = replicate k [] @ dropWhile (\<lambda>v. v = []) vs"
proof (induction vs)
  case (Cons v vs)
  then obtain k where "vs = replicate k [] @ dropWhile (\<lambda>v. v = []) vs" by blast
  then have "v = [] \<Longrightarrow> v # vs = replicate (Suc k) [] @ dropWhile (\<lambda>v. v = []) (v # vs)" by simp
  moreover have "v \<noteq> [] \<Longrightarrow> v # vs = replicate 0 [] @ dropWhile (\<lambda>v. v = []) (v # vs)" by simp
  ultimately show ?case by blast
qed simp

lemma key_of_fields_inj:
  assumes "length vs = length ws" and "list_all (\<lambda>v. CHR 0x1F \<notin> set v) vs" and "list_all (\<lambda>v. CHR 0x1F \<notin> set v) ws"
    and "key_of_fields vs = key_of_fields ws"
  shows "vs = ws"
proof -
  have free: "list_all (\<lambda>v. CHR 0x1F \<notin> set v) (dropWhile (\<lambda>v. v = []) xs)" if "list_all (\<lambda>v. CHR 0x1F \<notin> set v) xs" for xs :: "string list"
    using that by (auto simp: list_all_iff dest: set_dropWhileD)
  have e: "join [CHR 0x1F] (dropWhile (\<lambda>v. v = []) vs) = join [CHR 0x1F] (dropWhile (\<lambda>v. v = []) ws)"
    using assms(4) by (simp add: key_of_fields_join)
  have nil: "join [CHR 0x1F] (dropWhile (\<lambda>v. v = []) xs) = [] \<longleftrightarrow> dropWhile (\<lambda>v. v = []) xs = []" for xs :: "string list"
  proof (cases "dropWhile (\<lambda>v. v = []) xs")
    case (Cons x ys)
    then have "x \<noteq> []" by (metis (mono_tags) hd_dropWhile list.distinct(1) list.sel(1))
    with Cons show ?thesis by (simp add: join_cons)
  next
    case Nil
    then show ?thesis by (simp only: join.simps simp_thms)
  qed
  have "dropWhile (\<lambda>v. v = []) vs = dropWhile (\<lambda>v. v = []) ws"
  proof (cases "dropWhile (\<lambda>v. v = []) vs = []")
    case True
    then show ?thesis using e nil by metis
  next
    case False
    then obtain a as b bs where "dropWhile (\<lambda>v. v = []) vs = a # as" "dropWhile (\<lambda>v. v = []) ws = b # bs"
      using e nil by (metis list.exhaust)
    with e split_on_join_words [of "CHR 0x1F" a as] split_on_join_words [of "CHR 0x1F" b bs] free [OF assms(2)] free [OF assms(3)]
    show ?thesis by metis
  qed
  moreover obtain j where "vs = replicate j [] @ dropWhile (\<lambda>v. v = []) vs" using dropWhile_parts by blast
  moreover obtain k where "ws = replicate k [] @ dropWhile (\<lambda>v. v = []) ws" using dropWhile_parts by blast
  ultimately show ?thesis using assms(1) by (metis add_right_cancel length_append length_replicate)
qed

section \<open>Deduplication of rows\<close>

lemma dedup_rows_spec:
  assumes "dedup_rows key at rs seen = (kept, seen')"
  shows "distinct (map key kept) \<and> key ` set kept = key ` set rs - dom seen \<and> set kept \<subseteq> set rs \<and>
    seen' = (\<lambda>k. case seen k of Some t \<Rightarrow> Some t | None \<Rightarrow> map_of (map (\<lambda>r. (key r, at r)) kept) k)"
  using assms
proof (induction key at rs seen arbitrary: kept seen' rule: dedup_rows.induct)
  case (2 key at r rs seen)
  show ?case
  proof (cases "seen (key r) \<noteq> None")
    case True
    then have "key r \<in> dom seen" by (simp add: dom_def)
    with True 2(1) [OF True] 2(3) show ?thesis by auto
  next
    case False
    then have n: "seen (key r) = None" by simp
    from False 2(3) obtain k1 where k1: "dedup_rows key at rs (seen(key r \<mapsto> at r)) = (k1, seen')" "kept = r # k1"
      by (auto split: prod.splits)
    note ih = 2(2) [OF False k1(1)]
    then have nk: "key r \<notin> key ` set k1" by auto
    from ih have s: "seen' = (\<lambda>k. case (seen(key r \<mapsto> at r)) k of Some t \<Rightarrow> Some t | None \<Rightarrow> map_of (map (\<lambda>r. (key r, at r)) k1) k)" by blast
    have "seen' = (\<lambda>k. case seen k of Some t \<Rightarrow> Some t | None \<Rightarrow> map_of (map (\<lambda>r. (key r, at r)) kept) k)"
      unfolding s k1(2) using n by (auto simp: fun_eq_iff split: option.splits)
    moreover have "key ` set kept = key ` set (r # rs) - dom seen" using ih n k1(2) by (auto simp: dom_def)
    ultimately show ?thesis using ih nk k1(2) by auto
  qed
next
  case (1 key at seen)
  then show ?case by (auto simp: fun_eq_iff split: option.split)
qed

lemma dedup_rows_append:
  "dedup_rows key at (xs @ ys) seen =
     (case dedup_rows key at xs seen of (k1, s1) \<Rightarrow> case dedup_rows key at ys s1 of (k2, s2) \<Rightarrow> (k1 @ k2, s2))"
proof (induction xs arbitrary: seen)
  case (Cons x xs)
  show ?case
    using Cons.IH [of seen] Cons.IH [of "seen(key x \<mapsto> at x)"]
    by (cases "dedup_rows key at xs (seen(key x \<mapsto> at x))") (simp del: fun_upd_apply split: prod.split)
qed simp

lemma dedup_each_rows:
  assumes "dedup_each fmt fe cols tcol bs seen = (Inr out, seen')" and "list_all (\<lambda>b. rb_schema b = fs) bs"
  shows "dedup_rows (dedup_key fmt fs cols) (row_time fs tcol) (all_rows bs) seen = (all_rows out, seen')"
  using assms
proof (induction bs arbitrary: seen out)
  case (Cons b bs)
  obtain kept seen1 where k: "dedup_rows (dedup_key fmt fs cols) (row_time fs tcol) (rb_rows b) seen = (kept, seen1)"
    by fastforce
  from Cons.prems k obtain out1 where out1: "dedup_each fmt fe cols tcol bs seen1 = (Inr out1, seen')"
      "out = (if kept = [] then out1 else b\<lparr>rb_rows := kept\<rparr> # out1)"
    by (auto split: sum.splits prod.splits)
  from Cons.IH [OF out1(1)] Cons.prems(2) k out1(2) show ?case by (simp add: dedup_rows_append)
qed simp

lemma dedup_batches_rows:
  assumes "dedup_batches fmt fe bs cols tcol seen = (Inr out, seen')" and "list_all (\<lambda>b. rb_schema b = fs) bs" and "cols \<noteq> []"
  shows "dedup_rows (dedup_key fmt fs cols) (row_time fs tcol) (all_rows bs) seen = (all_rows out, seen')"
  using assms dedup_each_rows by (simp add: dedup_batches_def)

text \<open>A query with deduplication, micro-batch by micro-batch: what it emitted so far, and its state.\<close>

fun dedup_stream ::
  "(data_type \<Rightarrow> cell \<Rightarrow> string) \<Rightarrow> (data_type \<Rightarrow> string option) \<Rightarrow> watermark_config option \<Rightarrow> nat list \<Rightarrow> record_batch list list \<Rightarrow> cell list list \<times> tracker \<times> dedup_state \<Rightarrow> (cell list list \<times> tracker \<times> dedup_state) option" where
  "dedup_stream fmt fe wm cols [] s = Some s"
| "dedup_stream fmt fe wm cols (bs # bss) (emitted, tr, seen) =
     (case observe_opt wm bs tr of (late, tr') \<Rightarrow>
        (case dedup_micro_batch fmt fe wm cols bs tr' seen of
           (Inl e, seen') \<Rightarrow> None
         | (Inr out, seen') \<Rightarrow> dedup_stream fmt fe wm cols bss (emitted @ all_rows out, tr', seen')))"

abbreviation time_column :: "watermark_config option \<Rightarrow> field list \<Rightarrow> nat option" where
  "time_column wm fs \<equiv> Option.bind wm (\<lambda>c. index_of fs (event_time_column c))"

definition behind :: "watermark_config option \<Rightarrow> tracker \<Rightarrow> int \<Rightarrow> bool" where
  "behind wm tr t \<longleftrightarrow> (case (wm, tr) of (Some c, Some m) \<Rightarrow> t < watermark_for c m | _ \<Rightarrow> False)"

definition dedup_inv :: "(cell list \<Rightarrow> string) \<Rightarrow> (cell list \<Rightarrow> int) \<Rightarrow> watermark_config option \<Rightarrow> cell list list \<times> tracker \<times> dedup_state \<Rightarrow> bool" where
  "dedup_inv key at wm = (\<lambda>(emitted, tr, seen). \<forall>r \<in> set emitted. seen (key r) = Some (at r) \<or> behind wm tr (at r))"

lemma behind_mono: "behind wm tr t \<Longrightarrow> wm_le tr tr' \<Longrightarrow> behind wm tr' t"
  by (auto simp: behind_def wm_le_def split: option.splits intro: less_le_trans [OF _ watermark_for_mono])

lemma observe_opt_le: "observe_opt wm bs tr = (late, tr') \<Longrightarrow> wm_le tr tr'"
  using observe_fold_le by (auto simp: observe_opt_def observe_def split: option.splits)

lemma expire_opt_keeps: "seen k = Some t \<Longrightarrow> expire_opt wm tr seen k = Some t \<or> behind wm tr t"
  by (auto simp: expire_opt_def expire_def behind_def split: option.splits)

lemma event_column_rows:
  "list_all (\<lambda>b. rb_schema b = fs) bs \<Longrightarrow> bs = [] \<or> event_column wm bs = time_column wm fs"
  by (cases bs; cases wm) (auto simp: event_column_def)

lemma dedup_step:
  assumes "dedup_inv key at wm (emitted, tr, seen)"
    and "key = dedup_key fmt fs cols" and "at = row_time fs (time_column wm fs)"
    and "list_all (\<lambda>b. rb_schema b = fs) bs" and "cols \<noteq> []"
    and "observe_opt wm bs tr = (late, tr')" and "dedup_micro_batch fmt fe wm cols bs tr' seen = (Inr out, seen')"
  shows "dedup_inv key at wm (emitted @ all_rows out, tr', seen')"
    "distinct (map key (all_rows out))"
    "r \<in> set emitted \<Longrightarrow> r' \<in> set (all_rows out) \<Longrightarrow> key r = key r' \<Longrightarrow> behind wm tr (at r)"
proof -
  obtain seen1 where d: "dedup_batches fmt fe bs cols (event_column wm bs) seen = (Inr out, seen1)" "seen' = expire_opt wm tr' seen1"
    using assms(7) by (auto simp: dedup_micro_batch_def split: prod.splits sum.splits)
  have rows: "dedup_rows key at (all_rows bs) seen = (all_rows out, seen1)"
  proof (cases "bs = []")
    case True
    then show ?thesis using d(1) assms(5) by (auto simp: dedup_batches_def)
  next
    case False
    then show ?thesis using dedup_batches_rows [OF d(1) assms(4,5)] event_column_rows [OF assms(4), of wm] assms(2,3) by simp
  qed
  note sp = dedup_rows_spec [OF rows]
  then show "distinct (map key (all_rows out))" by blast
  have fresh: "seen (key r') = None" if "r' \<in> set (all_rows out)" for r'
    using sp that by (metis DiffD2 domIff imageI)
  then show "r \<in> set emitted \<Longrightarrow> r' \<in> set (all_rows out) \<Longrightarrow> key r = key r' \<Longrightarrow> behind wm tr (at r)"
    using assms(1) by (force simp: dedup_inv_def)
  have seen1: "seen1 = (\<lambda>k. case seen k of Some t \<Rightarrow> Some t | None \<Rightarrow> map_of (map (\<lambda>r. (key r, at r)) (all_rows out)) k)"
    using sp by blast
  have le: "wm_le tr tr'" using assms(6) by (rule observe_opt_le)
  have "seen1 (key r) = Some (at r) \<or> behind wm tr' (at r)" if "r \<in> set (emitted @ all_rows out)" for r
  proof (cases "r \<in> set (all_rows out)")
    case True
    have "map_of (map (\<lambda>r. (key r, at r)) (all_rows out)) (key r) = Some (at r)"
      using sp True by (intro map_of_is_SomeI) (auto simp: o_def)
    then show ?thesis using fresh [OF True] by (simp add: seen1)
  next
    case False
    then show ?thesis using that assms(1) behind_mono [OF _ le] by (auto simp: dedup_inv_def seen1)
  qed
  then show "dedup_inv key at wm (emitted @ all_rows out, tr', seen')"
    using expire_opt_keeps [of seen1 _ _ wm tr'] unfolding dedup_inv_def d(2) by blast
qed

lemma dedup_stream_inv:
  assumes "key = dedup_key fmt fs cols" and "at = row_time fs (time_column wm fs)" and "cols \<noteq> []"
    and "list_all (list_all (\<lambda>b. rb_schema b = fs)) bss"
    and "dedup_inv key at wm s" and "dedup_stream fmt fe wm cols bss s = Some s'"
  shows "dedup_inv key at wm s'"
  using assms(4-6)
proof (induction bss arbitrary: s)
  case (Cons bs bss)
  obtain emitted tr seen where s: "s = (emitted, tr, seen)" by (metis prod_cases3)
  obtain late tr' where o: "observe_opt wm bs tr = (late, tr')" by fastforce
  from Cons.prems(3) s o obtain out seen' where d: "dedup_micro_batch fmt fe wm cols bs tr' seen = (Inr out, seen')"
      and n: "dedup_stream fmt fe wm cols bss (emitted @ all_rows out, tr', seen') = Some s'"
    by (auto split: prod.splits sum.splits)
  from Cons.prems(1) have sch: "list_all (\<lambda>b. rb_schema b = fs) bs" and rest: "list_all (list_all (\<lambda>b. rb_schema b = fs)) bss" by simp_all
  have "dedup_inv key at wm (emitted @ all_rows out, tr', seen')"
    by (rule dedup_step(1) [OF _ assms(1,2) sch assms(3) o d]) (use Cons.prems(2) s in simp)
  from Cons.IH [OF rest this n] show ?case .
qed simp

text \<open>Click events with an id and a time in milliseconds, for the examples.\<close>

definition click_schema :: "field list" where
  "click_schema = [\<lparr>f_name = ''id'', f_type = Int64\<rparr>, \<lparr>f_name = ''ts'', f_type = Timestamp Millisecond None\<rparr>]"

definition clicks :: "(int \<times> int) list \<Rightarrow> record_batch" where
  "clicks rows = \<lparr>rb_schema = click_schema, rb_rows = map (\<lambda>(i, t). [IntCell i, IntCell t]) rows\<rparr>"

definition click_fmt :: "data_type \<Rightarrow> cell \<Rightarrow> string" where
  "click_fmt t c = (case c of IntCell i \<Rightarrow> show_int i | _ \<Rightarrow> [])"

definition click_wm :: watermark_config where
  "click_wm = \<lparr>event_time_column = ''ts'', delay_ms = 10\<rparr>"

text \<open>
  C6. A duplicate is emitted only after its key was allowed to expire: when a row of a micro-batch is
  emitted although a row with the same key was emitted in an earlier micro-batch, the earlier row's
  event time was behind the watermark before this micro-batch; and no two rows of one micro-batch's
  output share a key.
\<close>

theorem duplicate_only_behind_watermark:
  assumes "dedup_stream fmt fe wm cols bss ([], tr0, Map.empty) = Some (emitted, tr, seen)"
    and "list_all (list_all (\<lambda>b. rb_schema b = fs)) (bss @ [bs])" and "cols \<noteq> []"
    and "observe_opt wm bs tr = (late, tr')" and "dedup_micro_batch fmt fe wm cols bs tr' seen = (Inr out, seen')"
  shows "distinct (map (dedup_key fmt fs cols) (all_rows out)) \<and>
    (\<forall>r r'. r \<in> set emitted \<and> r' \<in> set (all_rows out) \<and> dedup_key fmt fs cols r = dedup_key fmt fs cols r' \<longrightarrow>
       (\<exists>c m. wm = Some c \<and> tr = Some m \<and> row_time fs (time_column wm fs) r < watermark_for c m))"
proof -
  let ?key = "dedup_key fmt fs cols" and ?at = "row_time fs (time_column wm fs)"
  have sch: "list_all (list_all (\<lambda>b. rb_schema b = fs)) bss" "list_all (\<lambda>b. rb_schema b = fs) bs" using assms(2) by simp_all
  have "dedup_inv ?key ?at wm ([], tr0, Map.empty)" by (simp add: dedup_inv_def)
  from dedup_stream_inv [OF refl refl assms(3) sch(1) this assms(1)]
  have inv: "dedup_inv ?key ?at wm (emitted, tr, seen)" .
  note st = dedup_step [OF inv refl refl sch(2) assms(3-5)]
  have "\<exists>c m. wm = Some c \<and> tr = Some m \<and> ?at r < watermark_for c m" if "behind wm tr (?at r)" for r
    using that by (auto simp: behind_def split: option.splits)
  with st(2,3) show ?thesis by blast
qed

theorem duplicate_only_behind_watermark_witness:
  "\<exists>c m. Some click_wm = Some c \<and> Some 900000 = Some m \<and> row_time click_schema (Some 1) [IntCell 7, IntCell 100] < watermark_for c m"
proof -
  let ?bss = "[[clicks [(7, 100), (8, 900)]]]" and ?bs = "[clicks [(7, 1000), (7, 1001)]]"
  let ?run = "dedup_stream click_fmt (\<lambda>_. None) (Some click_wm) [0] ?bss ([], None, Map.empty)"
  have k: "show_int 7 = ''7''" "show_int 8 = ''8''" by code_simp+
  note ev = clicks_def click_schema_def click_wm_def observe_opt_def observe_def observe_batch_def max_event_time_micros_def
    column_times_def event_time_micros_def somes_def List.map_filter_def saturate_def i64_min_def i64_max_def dedup_micro_batch_def
    dedup_batches_def dedup_key_def row_fields_def key_of_fields_def push_field_def format_cell_def click_fmt_def k event_column_def
    expire_opt_def expire_def watermark_for_def delay_micros_def to_signed_def row_time_def
  have "\<exists>seen. ?run = Some ([[IntCell 7, IntCell 100], [IntCell 8, IntCell 900]], Some 900000, seen) \<and> seen ''7'' = None"
    by (simp add: ev)
  then obtain seen where run: "?run = Some ([[IntCell 7, IntCell 100], [IntCell 8, IntCell 900]], Some 900000, seen)" "seen ''7'' = None"
    by blast
  have obs: "\<exists>late. observe_opt (Some click_wm) ?bs (Some 900000) = (late, Some 1001000)" by (simp add: ev)
  have out: "\<exists>seen'. dedup_micro_batch click_fmt (\<lambda>_. None) (Some click_wm) [0] ?bs (Some 1001000) seen = (Inr [clicks [(7, 1000)]], seen')"
    using run(2) by (simp add: ev)
  have sch: "list_all (list_all (\<lambda>b. rb_schema b = click_schema)) (?bss @ [?bs])" by (simp add: clicks_def)
  have tc: "time_column (Some click_wm) click_schema = Some 1" by (simp add: click_wm_def click_schema_def)
  obtain late seen' where l: "observe_opt (Some click_wm) ?bs (Some 900000) = (late, Some 1001000)"
    "dedup_micro_batch click_fmt (\<lambda>_. None) (Some click_wm) [0] ?bs (Some 1001000) seen = (Inr [clicks [(7, 1000)]], seen')"
    using obs out by blast
  have "dedup_key click_fmt click_schema [0] [IntCell 7, IntCell 100] = dedup_key click_fmt click_schema [0] [IntCell 7, IntCell 1000]"
    by (simp add: dedup_key_def row_fields_def)
  with duplicate_only_behind_watermark [OF run(1) sch _ l] show ?thesis
    unfolding tc by (simp add: clicks_def)
qed

text \<open>
  C26. Deduplication drops nothing but repetitions: the keys of the rows a micro-batch emits are exactly
  the keys of its rows that were not remembered, each once, and every one of them is remembered
  afterwards until the watermark passes its event time.
\<close>

theorem dedup_exact:
  assumes "dedup_batches fmt fe bs cols tcol seen = (Inr out, seen')" and "list_all (\<lambda>b. rb_schema b = fs) bs" and "cols \<noteq> []"
  shows "dedup_key fmt fs cols ` set (all_rows out) = dedup_key fmt fs cols ` set (all_rows bs) - dom seen \<and>
    distinct (map (dedup_key fmt fs cols) (all_rows out)) \<and> set (all_rows out) \<subseteq> set (all_rows bs) \<and>
    dom seen' = dom seen \<union> dedup_key fmt fs cols ` set (all_rows bs)"
proof -
  note sp = dedup_rows_spec [OF dedup_batches_rows [OF assms]]
  let ?key = "dedup_key fmt fs cols"
  have "dom seen' = dom seen \<union> ?key ` set (all_rows out)"
  proof -
    have "seen' = map_of (map (\<lambda>r. (?key r, row_time fs tcol r)) (all_rows out)) ++ seen"
      unfolding map_add_def using sp by (elim conjE)
    then show ?thesis by (simp add: dom_map_of_conv_image_fst image_image)
  qed
  moreover have "dom seen \<union> (A - dom seen) = dom seen \<union> A" for A by (rule Un_Diff_cancel)
  ultimately show ?thesis using sp by (elim conjE) (simp only: simp_thms)
qed

theorem dedup_exact_witness:
  "dedup_key click_fmt click_schema [0] ` set (all_rows [clicks [(7, 1)]]) = dedup_key click_fmt click_schema [0] ` set (all_rows [clicks [(7, 1), (7, 2)]]) - dom Map.empty"
proof -
  have k: "show_int 7 = ''7''" by code_simp
  have "\<exists>seen'. dedup_batches click_fmt (\<lambda>_. None) [clicks [(7, 1), (7, 2)]] [0] None Map.empty = (Inr [clicks [(7, 1)]], seen')"
    by (simp add: dedup_batches_def clicks_def dedup_key_def row_fields_def key_of_fields_def push_field_def format_cell_def click_fmt_def k)
  then obtain seen' where "dedup_batches click_fmt (\<lambda>_. None) [clicks [(7, 1), (7, 2)]] [0] None Map.empty = (Inr [clicks [(7, 1)]], seen')" ..
  from dedup_exact [OF this, of click_schema] show ?thesis by (simp add: clicks_def)
qed

text \<open>
  The watermark is an event-time claim that never retreats: observing a micro-batch returns the
  watermark that held before it, and the time remembered afterwards is at least the one before and at
  least every event time in the batch.
\<close>

theorem watermark_observes:
  assumes "observe c bs tr = (before, tr')" and "b \<in> set bs" and "row \<in> set (rb_rows b)"
    and "index_of (rb_schema b) (event_time_column c) = Some i"
    and "event_time_micros (f_type (rb_schema b ! i)) (row ! i) = Some t"
  shows "before = map_option (watermark_for c) tr \<and>
    (\<exists>m. tr' = Some m \<and> t \<le> m \<and> (case before of None \<Rightarrow> True | Some w \<Rightarrow> w \<le> watermark_for c m))"
proof -
  have b: "before = map_option (watermark_for c) tr" and tr': "tr' = fold (observe_batch c) bs tr"
    using assms(1) by (simp_all add: observe_def)
  obtain xs ys where bs: "bs = xs @ b # ys" using assms(2) by (meson split_list)
  obtain m0 where m0: "observe_batch c b (fold (observe_batch c) xs tr) = Some m0" "t \<le> m0"
    using observe_batch_covers [OF assms(4,3,5)] by blast
  have "wm_le (Some m0) tr'" using observe_fold_le [of "Some m0" c ys] m0(1) by (simp add: tr' bs)
  then obtain m where m: "tr' = Some m" "t \<le> m" using m0(2) by (auto simp: wm_le_def split: option.splits)
  moreover have "wm_le tr tr'" using observe_fold_le tr' by simp
  ultimately show ?thesis using b watermark_for_mono by (auto simp: wm_le_def split: option.splits)
qed

theorem watermark_observes_witness:
  "snd (observe click_wm [clicks [(7, 100)]] (Some 5000)) = Some 100000 \<and>
   (\<exists>m. snd (observe click_wm [clicks [(7, 100)]] (Some 5000)) = Some m \<and> 100000 \<le> m)"
proof -
  have o: "observe click_wm [clicks [(7, 100)]] (Some 5000) = (Some (watermark_for click_wm 5000), Some 100000)"
    by (simp add: observe_def observe_batch_def clicks_def click_schema_def click_wm_def max_event_time_micros_def column_times_def
        event_time_micros_def somes_def List.map_filter_def saturate_def i64_min_def i64_max_def)
  have "\<exists>m. Some 100000 = Some m \<and> (100000 :: int) \<le> m"
    using watermark_observes [OF o, of "clicks [(7, 100)]" "[IntCell 7, IntCell 100]" 1 100000]
    by (simp add: clicks_def click_schema_def click_wm_def event_time_micros_def saturate_def i64_min_def i64_max_def)
  then show ?thesis by (simp add: o)
qed

text \<open>The keys of two rows with a field that holds the separator can coincide although the rows differ.\<close>

lemma key_separator_collision:
  "key_of_fields [''a'' @ CHR 0x1F # ''b'', ''c''] = key_of_fields [''a'', ''b'' @ CHR 0x1F # ''c'']"
  by (simp add: key_of_fields_def push_field_def)

end
