(* ===== verification/Stream_Checkpoint.thy ===== *)
theory Stream_Checkpoint
  imports Stream_Source Stream_State
begin

text \<open>
  The checkpoint of a streaming query (\<^verbatim>\<open>oxidant-streaming/src/checkpoint.rs\<close>): the resume record, the
  log of planned ranges and the log of committed batches, and the reconciliation of the three when a
  query starts (\<^verbatim>\<open>recover_from_log\<close> of \<^verbatim>\<open>scheduler.rs\<close>). The object store is explicit state; a put is
  atomic, and each call takes what the store answers: a read may fail, a put may be stored or not and
  its acknowledgement may be lost, a delete may have no effect.
\<close>

section \<open>The store\<close>

record checkpoint_state =
  cs_query_id :: string
  cs_run_id :: string
  cs_batch_id :: nat
  cs_source_offsets :: "source_offsets option"
  cs_committed_batch_id :: nat
  cs_watermark_micros :: int
  cs_max_event_time_micros :: "int option"
  cs_dedup_state :: "dedup_state option"
  cs_pruned_through :: nat

definition checkpoint_state_default :: checkpoint_state where
  "checkpoint_state_default =
     \<lparr>cs_query_id = [], cs_run_id = [], cs_batch_id = 0, cs_source_offsets = None,
      cs_committed_batch_id = 0, cs_watermark_micros = 0, cs_max_event_time_micros = None,
      cs_dedup_state = None, cs_pruned_through = 0\<rparr>"

record batch_commit =
  bc_batch_id :: nat
  bc_num_output_rows :: nat
  bc_resume_position :: "source_offsets option"

record checkpoint_store =
  ck_offsets :: "checkpoint_state option"
  ck_planned :: "nat \<rightharpoonup> batch_range"
  ck_commits :: "nat \<rightharpoonup> batch_commit"
  ck_location :: string

datatype put_ack = PutOk | PutUnacked string | PutFailed string

fun put_lands :: "put_ack \<Rightarrow> bool" where
  "put_lands (PutFailed e) = False"
| "put_lands _ = True"

fun put_result :: "put_ack \<Rightarrow> string + unit" where
  "put_result PutOk = Inr ()"
| "put_result (PutUnacked e) = Inl e"
| "put_result (PutFailed e) = Inl e"

section \<open>Operations\<close>

definition load :: "string option \<Rightarrow> checkpoint_store \<Rightarrow> string + checkpoint_state" where
  "load fault ck =
     (case fault of
        Some e \<Rightarrow> Inl e
      | None \<Rightarrow> Inr (case ck_offsets ck of None \<Rightarrow> checkpoint_state_default | Some s \<Rightarrow> s))"

definition load_or_default :: "string option \<Rightarrow> checkpoint_store \<Rightarrow> checkpoint_state" where
  "load_or_default fault ck = (case load fault ck of Inl _ \<Rightarrow> checkpoint_state_default | Inr s \<Rightarrow> s)"

definition save :: "put_ack \<Rightarrow> checkpoint_state \<Rightarrow> checkpoint_store \<Rightarrow> checkpoint_store \<times> (string + unit)" where
  "save a s ck = ((if put_lands a then ck\<lparr>ck_offsets := Some s\<rparr> else ck), put_result a)"

definition init_for_query ::
  "string option \<Rightarrow> put_ack \<Rightarrow> string \<Rightarrow> string \<Rightarrow> checkpoint_store \<Rightarrow> checkpoint_store \<times> (string + unit)" where
  "init_for_query fault a qid run ck =
     (let s = load_or_default fault ck;
          s1 = (if cs_query_id s = [] then s\<lparr>cs_query_id := qid\<rparr> else s)
      in save a (s1\<lparr>cs_run_id := run\<rparr>) ck)"

definition save_planned :: "put_ack \<Rightarrow> nat \<Rightarrow> batch_range \<Rightarrow> checkpoint_store \<Rightarrow> checkpoint_store \<times> (string + unit)" where
  "save_planned a b r ck =
     ((if put_lands a then ck\<lparr>ck_planned := (ck_planned ck)(b \<mapsto> r)\<rparr> else ck), put_result a)"

definition load_planned :: "string option \<Rightarrow> nat \<Rightarrow> checkpoint_store \<Rightarrow> string + batch_range option" where
  "load_planned fault b ck = (case fault of Some e \<Rightarrow> Inl e | None \<Rightarrow> Inr (ck_planned ck b))"

definition save_commit :: "put_ack \<Rightarrow> batch_commit \<Rightarrow> checkpoint_store \<Rightarrow> checkpoint_store \<times> (string + unit)" where
  "save_commit a c ck =
     ((if put_lands a then ck\<lparr>ck_commits := (ck_commits ck)(bc_batch_id c \<mapsto> c)\<rparr> else ck), put_result a)"

definition load_commit :: "string option \<Rightarrow> nat \<Rightarrow> checkpoint_store \<Rightarrow> string + batch_commit option" where
  "load_commit fault b ck = (case fault of Some e \<Rightarrow> Inl e | None \<Rightarrow> Inr (ck_commits ck b))"

definition is_committed :: "string option \<Rightarrow> nat \<Rightarrow> checkpoint_store \<Rightarrow> string + bool" where
  "is_committed fault b ck = rbind (load_commit fault b ck) (\<lambda>c. Inr (c \<noteq> None))"

definition PRUNE_BATCH :: nat where "PRUNE_BATCH = 8"

text \<open>The first argument says which of the two deletes of a batch take effect.\<close>

definition delete_entries :: "bool \<times> bool \<Rightarrow> nat \<Rightarrow> checkpoint_store \<Rightarrow> checkpoint_store" where
  "delete_entries del b ck =
     ck\<lparr>ck_planned := (if fst del then (ck_planned ck)(b := None) else ck_planned ck),
        ck_commits := (if snd del then (ck_commits ck)(b := None) else ck_commits ck)\<rparr>"

function prune_loop :: "(nat \<Rightarrow> bool \<times> bool) \<Rightarrow> nat \<Rightarrow> nat \<Rightarrow> nat \<Rightarrow> checkpoint_store \<Rightarrow> checkpoint_store \<times> nat" where
  "prune_loop del through committed pruned ck =
     (if pruned + 1 < committed \<and> pruned < through + PRUNE_BATCH
      then prune_loop del through committed (pruned + 1) (delete_entries (del (pruned + 1)) (pruned + 1) ck)
      else (ck, pruned))"
  by pat_completeness auto
termination
  by (relation "measure (\<lambda>(del, through, committed, pruned, ck). through + PRUNE_BATCH - pruned)") auto

declare prune_loop.simps [simp del]

definition prune_log :: "(nat \<Rightarrow> bool \<times> bool) \<Rightarrow> nat \<Rightarrow> nat \<Rightarrow> checkpoint_store \<Rightarrow> checkpoint_store \<times> nat" where
  "prune_log del through committed ck = prune_loop del through committed through ck"

section \<open>Recovery\<close>

definition MAX_RECOVERED :: nat where "MAX_RECOVERED = 64"

record recover_faults =
  rf_load :: "string option"
  rf_commit :: "nat \<Rightarrow> string option"
  rf_save :: "nat \<Rightarrow> put_ack"

definition ck_error :: "checkpoint_store \<Rightarrow> string \<Rightarrow> string \<Rightarrow> error" where
  "ck_error ck what e = Io (''streaming checkpoint `'' @ ck_location ck @ ''`: '' @ what @ e)"

primrec recover_loop :: "nat \<Rightarrow> recover_faults \<Rightarrow> checkpoint_state \<Rightarrow> checkpoint_store \<Rightarrow> checkpoint_store \<times> checkpoint_state result" where
  "recover_loop 0 rf s ck = (ck, Inr s)"
| "recover_loop (Suc n) rf s ck =
     (let next = cs_committed_batch_id s + 1 in
      case load_commit (rf_commit rf next) next ck of
        Inl e \<Rightarrow> (ck, Inl (ck_error ck ''reading the commit log: '' e))
      | Inr c \<Rightarrow>
          (case Option.bind c bc_resume_position of
             None \<Rightarrow> (ck, Inr s)
           | Some resumed \<Rightarrow>
               (let s1 = s\<lparr>cs_committed_batch_id := next, cs_batch_id := next, cs_source_offsets := Some resumed\<rparr> in
                case save (rf_save rf next) s1 ck of
                  (ck1, Inl e) \<Rightarrow> (ck1, Inl (ck_error ck [] e))
                | (ck1, Inr _) \<Rightarrow> recover_loop n rf s1 ck1)))"

definition recover_from_log :: "recover_faults \<Rightarrow> checkpoint_store \<Rightarrow> checkpoint_store \<times> checkpoint_state result" where
  "recover_from_log rf ck = recover_loop MAX_RECOVERED rf (load_or_default (rf_load rf) ck) ck"

end
