(* ===== verification/Micro_Batch.thy ===== *)
theory Micro_Batch
  imports Stream_Checkpoint
begin

text \<open>
  The micro-batch engine (\<^verbatim>\<open>oxidant-streaming/src/scheduler.rs\<close>): one run of a batch with its three
  durable writes in order (the planned range, the sink, the commit and the resume record), retries of
  transient failures, the start of a query over an existing checkpoint, and the drain of an
  \<^verbatim>\<open>availableNow\<close> trigger.

  The engine is generic in its source and its sink, as the code is. The plan of a query and the SQL
  that counts violated expectations run on the engine and are functions the query carries. What the
  environment does in one run is a \<^verbatim>\<open>batch_faults\<close>: what each read, put, delete and attempt meets.
\<close>

section \<open>Retries\<close>

definition RETRY_ATTEMPTS :: nat where "RETRY_ATTEMPTS = 4"

fun is_retryable :: "error \<Rightarrow> bool" where
  "is_retryable (Io m) = True"
| "is_retryable _ = False"

definition retry_backoff :: "nat \<Rightarrow> nat" where
  "retry_backoff attempt = 200 * 2 ^ min attempt 5"

function with_retry :: "(nat \<Rightarrow> 'q \<Rightarrow> 'q \<times> 'a result) \<Rightarrow> nat \<Rightarrow> 'q \<Rightarrow> 'q \<times> 'a result" where
  "with_retry op attempt q =
     (case op attempt q of
        (q1, Inr v) \<Rightarrow> (q1, Inr v)
      | (q1, Inl e) \<Rightarrow>
          if is_retryable e \<and> attempt + 1 < RETRY_ATTEMPTS then with_retry op (attempt + 1) q1 else (q1, Inl e))"
  by pat_completeness auto
termination by (relation "measure (\<lambda>(op, attempt, q). RETRY_ATTEMPTS - attempt)") auto

declare with_retry.simps [simp del]

definition and_then :: "'q \<times> 'a result \<Rightarrow> ('q \<Rightarrow> 'a \<Rightarrow> 'q \<times> 'b result) \<Rightarrow> 'q \<times> 'b result" where
  "and_then m f = (case m of (q, Inl e) \<Rightarrow> (q, Inl e) | (q, Inr a) \<Rightarrow> f q a)"

section \<open>Queries\<close>

datatype expectation_action = Warn | Fail

record stream_expectation =
  ex_label :: string
  ex_action :: expectation_action
  ex_check :: string

record query_progress =
  pg_batch_id :: nat
  pg_num_input_rows :: nat
  pg_num_output_rows :: nat
  pg_start_offset :: "(string \<times> int) list"
  pg_end_offset :: "(string \<times> int) list option"

text \<open>A sink writes a batch to the table \<^verbatim>\<open>'d\<close> with its writer state \<^verbatim>\<open>'k\<close>; \<^verbatim>\<open>'f\<close> is what the attempt meets.\<close>

type_synonym ('f, 'd, 'k) sink_write = "'f \<Rightarrow> record_batch list \<Rightarrow> nat \<Rightarrow> 'd \<Rightarrow> 'k \<Rightarrow> 'd \<times> 'k \<times> nat result"

record query_engine =
  qe_pipeline :: "(record_batch list \<Rightarrow> record_batch list result) option"
  qe_count_sql :: "string \<Rightarrow> record_batch list \<Rightarrow> string \<Rightarrow> int option result"
  qe_fmt :: "data_type \<Rightarrow> cell \<Rightarrow> string"
  qe_fmt_error :: "data_type \<Rightarrow> string option"

record ('s, 'k, 'd) managed_query =
  mq_source :: 's
  mq_sink :: 'k
  mq_watermark :: "watermark_config option"
  mq_tracker :: tracker
  mq_dedup :: "dedup_state option"
  mq_dedup_columns :: "string list"
  mq_dedup_key_cols :: "nat list"
  mq_expectations :: "stream_expectation list"
  mq_query_id :: string
  mq_batch_id :: nat
  mq_is_active :: bool
  mq_is_data_available :: bool
  mq_message :: string
  mq_last_progress :: "query_progress option"
  mq_checkpoint :: checkpoint_store
  mq_table :: 'd

record ('e, 'f) batch_faults =
  bf_load_planned :: "string option"
  bf_plan :: "nat \<Rightarrow> 'e"
  bf_save_planned :: put_ack
  bf_poll :: "nat \<Rightarrow> 'e"
  bf_pipeline :: "error option"
  bf_sink :: "nat \<Rightarrow> 'f"
  bf_save_commit :: put_ack
  bf_load :: "string option"
  bf_delete :: "nat \<Rightarrow> bool \<times> bool"
  bf_save :: put_ack
  bf_mark_durable :: 'e

section \<open>One micro-batch\<close>

definition on_source :: "('s \<Rightarrow> 's \<times> 'a result) \<Rightarrow> ('s, 'k, 'd) managed_query \<Rightarrow> ('s, 'k, 'd) managed_query \<times> 'a result" where
  "on_source op q = (case op (mq_source q) of (s, r) \<Rightarrow> (q\<lparr>mq_source := s\<rparr>, r))"

definition put_checkpoint ::
  "string \<Rightarrow> (checkpoint_store \<Rightarrow> checkpoint_store \<times> (string + unit)) \<Rightarrow> ('s, 'k, 'd) managed_query \<Rightarrow> ('s, 'k, 'd) managed_query \<times> unit result" where
  "put_checkpoint what op q =
     (case op (mq_checkpoint q) of
        (ck, Inl e) \<Rightarrow> (q\<lparr>mq_checkpoint := ck\<rparr>, Inl (ck_error (mq_checkpoint q) what e))
      | (ck, Inr _) \<Rightarrow> (q\<lparr>mq_checkpoint := ck\<rparr>, Inr ()))"

text \<open>The recorded range of the batch, or a fresh one that is recorded first; \<^verbatim>\<open>None\<close> when idle.\<close>

definition plan_phase ::
  "('s, 'e) source_ops \<Rightarrow> ('e, 'f) batch_faults \<Rightarrow> nat \<Rightarrow> ('s, 'k, 'd) managed_query \<Rightarrow> ('s, 'k, 'd) managed_query \<times> batch_range option result" where
  "plan_phase src bf b q =
     (case load_planned (bf_load_planned bf) b (mq_checkpoint q) of
        Inl e \<Rightarrow> (q, Inl (ck_error (mq_checkpoint q) (''reading the planned range for batch '' @ show_nat b @ '': '') e))
      | Inr (Some r) \<Rightarrow> (q, Inr (Some r))
      | Inr None \<Rightarrow>
          and_then (with_retry (\<lambda>i. on_source (src_plan_batch src (bf_plan bf i))) 0 q) (\<lambda>q1 r.
            if range_is_empty r then (q1\<lparr>mq_is_data_available := False\<rparr>, Inr None)
            else and_then (put_checkpoint (''recording batch '' @ show_nat b @ '': '') (save_planned (bf_save_planned bf) b r) q1)
                   (\<lambda>q2 _. (q2, Inr (Some r)))))"

definition transform_phase ::
  "query_engine \<Rightarrow> ('e, 'f) batch_faults \<Rightarrow> record_batch list \<Rightarrow> record_batch list result" where
  "transform_phase qe bf bs =
     (case qe_pipeline qe of
        None \<Rightarrow> Inr bs
      | Some p \<Rightarrow> (case bf_pipeline bf of Some e \<Rightarrow> Inl e | None \<Rightarrow> p bs))"

definition key_columns :: "('s, 'k, 'd) managed_query \<Rightarrow> record_batch list \<Rightarrow> nat list result" where
  "key_columns q bs =
     (case bs of
        b # _ \<Rightarrow> if mq_dedup_key_cols q = [] then resolve_key_columns b (mq_dedup_columns q) else Inr (mq_dedup_key_cols q)
      | [] \<Rightarrow> Inr (mq_dedup_key_cols q))"

definition state_phase ::
  "query_engine \<Rightarrow> record_batch list \<Rightarrow> ('s, 'k, 'd) managed_query \<Rightarrow> ('s, 'k, 'd) managed_query \<times> record_batch list result" where
  "state_phase qe bs q =
     (let q1 = q\<lparr>mq_tracker := snd (observe_opt (mq_watermark q) bs (mq_tracker q))\<rparr> in
      case mq_dedup q1 of
        None \<Rightarrow> (q1, Inr bs)
      | Some seen \<Rightarrow>
          (case key_columns q1 bs of
             Inl e \<Rightarrow> (q1, Inl e)
           | Inr keys \<Rightarrow>
               (case dedup_micro_batch (qe_fmt qe) (qe_fmt_error qe) (mq_watermark q1) keys bs (mq_tracker q1) seen of
                  (r, seen') \<Rightarrow> (q1\<lparr>mq_dedup_key_cols := keys, mq_dedup := Some seen'\<rparr>, r))))"

definition count_violations ::
  "(string \<Rightarrow> record_batch list \<Rightarrow> string \<Rightarrow> int option result) \<Rightarrow> record_batch list \<Rightarrow> string \<Rightarrow> string \<Rightarrow> nat \<Rightarrow> nat result" where
  "count_violations sql bs check qid b =
     (if bs = [] then Inr 0
      else let name = map (\<lambda>c. if c = CHR ''-'' then CHR ''_'' else c) (''_oxidant_expect_'' @ qid @ ''_'' @ show_nat b)
           in rbind (sql name bs (''SELECT count(*) AS c FROM '' @ name @ '' WHERE ('' @ check @ '') IS NOT TRUE''))
                (\<lambda>c. Inr (case c of None \<Rightarrow> 0 | Some n \<Rightarrow> nat (max n 0))))"

fun check_expectations ::
  "(string \<Rightarrow> record_batch list \<Rightarrow> string \<Rightarrow> int option result) \<Rightarrow> string \<Rightarrow> nat \<Rightarrow> record_batch list \<Rightarrow> stream_expectation list \<Rightarrow> unit result" where
  "check_expectations sql qid b bs [] = Inr ()"
| "check_expectations sql qid b bs (x # xs) =
     rbind (count_violations sql bs (ex_check x) qid b) (\<lambda>n.
       if n = 0 \<or> ex_action x = Warn then check_expectations sql qid b bs xs
       else Inl (Execution (''expectation `'' @ ex_label x @ ''` failed on batch '' @ show_nat b @ '': '' @ show_nat n @
              '' record(s) do not satisfy `'' @ ex_check x @ ''`; the table is unchanged'')))"

definition sink_phase ::
  "('f, 'd, 'k) sink_write \<Rightarrow> ('e, 'f) batch_faults \<Rightarrow> nat \<Rightarrow> record_batch list \<Rightarrow> ('s, 'k, 'd) managed_query \<Rightarrow> ('s, 'k, 'd) managed_query \<times> nat result" where
  "sink_phase write bf b bs =
     with_retry (\<lambda>i q. case write (bf_sink bf i) bs b (mq_table q) (mq_sink q) of
        (d, k, r) \<Rightarrow> (q\<lparr>mq_table := d, mq_sink := k\<rparr>, r)) 0"

definition write_phase ::
  "('f, 'd, 'k) sink_write \<Rightarrow> query_engine \<Rightarrow> ('e, 'f) batch_faults \<Rightarrow> nat \<Rightarrow> record_batch list \<Rightarrow> ('s, 'k, 'd) managed_query \<Rightarrow> ('s, 'k, 'd) managed_query \<times> nat result" where
  "write_phase write qe bf b source_batches q =
     (if total_rows source_batches = 0 then (q, Inr 0)
      else case transform_phase qe bf source_batches of
        Inl e \<Rightarrow> (q, Inl e)
      | Inr bs \<Rightarrow>
          and_then (state_phase qe bs q) (\<lambda>q1 out.
            case check_expectations (qe_count_sql qe) (mq_query_id q1) b out (mq_expectations q1) of
              Inl e \<Rightarrow> (q1, Inl e)
            | Inr _ \<Rightarrow> sink_phase write bf b out q1))"

definition resume_record ::
  "('s, 'k, 'd) managed_query \<Rightarrow> nat \<Rightarrow> source_offsets option \<Rightarrow> checkpoint_state \<Rightarrow> checkpoint_state" where
  "resume_record q b offsets s =
     s\<lparr>cs_batch_id := b, cs_committed_batch_id := b, cs_source_offsets := offsets,
       cs_max_event_time_micros := mq_tracker q,
       cs_watermark_micros := (case (mq_watermark q, mq_tracker q) of
          (Some c, Some m) \<Rightarrow> watermark_for c m | _ \<Rightarrow> cs_watermark_micros s),
       cs_dedup_state := mq_dedup q\<rparr>"

definition record_phase ::
  "('s, 'e) source_ops \<Rightarrow> ('e, 'f) batch_faults \<Rightarrow> nat \<Rightarrow> source_offsets option \<Rightarrow> ('s, 'k, 'd) managed_query \<Rightarrow> ('s, 'k, 'd) managed_query \<times> unit result" where
  "record_phase src bf b offsets q =
     (let s = resume_record q b offsets (load_or_default (bf_load bf) (mq_checkpoint q));
          (ck, pruned) = prune_log (bf_delete bf) (cs_pruned_through s) b (mq_checkpoint q)
      in and_then (put_checkpoint [] (save (bf_save bf) (s\<lparr>cs_pruned_through := pruned\<rparr>)) (q\<lparr>mq_checkpoint := ck\<rparr>))
           (\<lambda>q1 _. on_source (src_mark_durable src (bf_mark_durable bf)) q1))"

definition run_batch_inner ::
  "('s, 'e) source_ops \<Rightarrow> ('f, 'd, 'k) sink_write \<Rightarrow> query_engine \<Rightarrow> ('e, 'f) batch_faults \<Rightarrow> ('s, 'k, 'd) managed_query \<Rightarrow> ('s, 'k, 'd) managed_query \<times> nat result" where
  "run_batch_inner src write qe bf q =
     (let b = mq_batch_id q + 1 in
      and_then (plan_phase src bf b q) (\<lambda>q1 planned.
        case planned of
          None \<Rightarrow> (q1, Inr 0)
        | Some r \<Rightarrow>
            and_then (with_retry (\<lambda>i. on_source (\<lambda>s. src_poll_range src (bf_poll bf i) s r)) 0 q1) (\<lambda>q2 bs.
            and_then (write_phase write qe bf b bs q2) (\<lambda>q3 rows.
              let offsets = src_committed_offsets src (mq_source q3) in
              and_then (put_checkpoint (''committing batch '' @ show_nat b @ '': '')
                   (save_commit (bf_save_commit bf) \<lparr>bc_batch_id = b, bc_num_output_rows = rows, bc_resume_position = offsets\<rparr>) q3)
                (\<lambda>q4 _.
                  let q5 = q4\<lparr>mq_batch_id := b, mq_is_data_available := True,
                       mq_last_progress := Some \<lparr>pg_batch_id = b, pg_num_input_rows = total_rows bs,
                         pg_num_output_rows = rows, pg_start_offset = br_start r,
                         pg_end_offset = map_option so_entries offsets\<rparr>\<rparr>
                  in and_then (record_phase src bf b offsets q5) (\<lambda>q6 _. (q6, Inr (total_rows bs))))))))"

definition run_batch ::
  "('s, 'e) source_ops \<Rightarrow> ('f, 'd, 'k) sink_write \<Rightarrow> query_engine \<Rightarrow> ('e, 'f) batch_faults \<Rightarrow> ('s, 'k, 'd) managed_query \<Rightarrow> ('s, 'k, 'd) managed_query \<times> nat result" where
  "run_batch src write qe bf q = (if \<not> mq_is_active q then (q, Inr 0) else run_batch_inner src write qe bf q)"

definition fail_query :: "string \<Rightarrow> ('s, 'k, 'd) managed_query \<Rightarrow> ('s, 'k, 'd) managed_query" where
  "fail_query m q = q\<lparr>mq_is_active := False, mq_is_data_available := False, mq_message := ''terminated with error: '' @ m\<rparr>"

definition stop_query :: "('s, 'k, 'd) managed_query \<Rightarrow> ('s, 'k, 'd) managed_query" where
  "stop_query q = q\<lparr>mq_is_active := False, mq_message := ''stopped''\<rparr>"

section \<open>Starting a query\<close>

record start_config =
  sc_watermark :: "watermark_config option"
  sc_dedup_columns :: "string list"
  sc_expectations :: "stream_expectation list"

record start_faults =
  sf_probe :: "error option"
  sf_recover :: recover_faults
  sf_init_load :: "string option"
  sf_init_save :: put_ack

text \<open>
  \<^verbatim>\<open>build\<close> is the source before it is restored, and \<^verbatim>\<open>open_sink\<close> binds a sink for an application to the
  table. The result is the query, or the checkpoint and the table a failed start leaves behind.
\<close>

definition start_with_config ::
  "('s, 'e) source_ops \<Rightarrow> 's result \<Rightarrow> (string \<Rightarrow> 'd \<Rightarrow> 'd \<times> 'k result) \<Rightarrow> start_config \<Rightarrow> string \<Rightarrow> string \<Rightarrow> start_faults \<Rightarrow>
   checkpoint_store \<Rightarrow> 'd \<Rightarrow> checkpoint_store \<times> 'd \<times> ('s, 'k, 'd) managed_query result" where
  "start_with_config src build open_sink cfg qid run sf ck d =
     (case sf_probe sf of
        Some e \<Rightarrow> (ck, d, Inl e)
      | None \<Rightarrow>
     (case build of
        Inl e \<Rightarrow> (ck, d, Inl e)
      | Inr source0 \<Rightarrow>
     (case recover_from_log (sf_recover sf) ck of
        (ck1, Inl e) \<Rightarrow> (ck1, d, Inl e)
      | (ck1, Inr restored) \<Rightarrow>
     (let source = (case cs_source_offsets restored of None \<Rightarrow> source0 | Some o1 \<Rightarrow> src_restore_offsets src o1 source0);
          app_id = (if cs_query_id restored = [] then qid else cs_query_id restored)
      in case open_sink app_id d of
           (d1, Inl e) \<Rightarrow> (ck1, d1, Inl e)
         | (d1, Inr k) \<Rightarrow>
     (case init_for_query (sf_init_load sf) (sf_init_save sf) qid run ck1 of
        (ck2, Inl e) \<Rightarrow> (ck2, d1, Inl (Io (''streaming checkpoint `'' @ ck_location ck1 @ ''` is not writable: '' @ e)))
      | (ck2, Inr _) \<Rightarrow>
          (ck2, d1, Inr \<lparr>mq_source = source, mq_sink = k, mq_watermark = sc_watermark cfg,
             mq_tracker = cs_max_event_time_micros restored,
             mq_dedup = (if sc_dedup_columns cfg = [] then None
                         else Some (case cs_dedup_state restored of None \<Rightarrow> Map.empty | Some m \<Rightarrow> m)),
             mq_dedup_columns = sc_dedup_columns cfg, mq_dedup_key_cols = [], mq_expectations = sc_expectations cfg,
             mq_query_id = qid, mq_batch_id = cs_committed_batch_id restored, mq_is_active = True,
             mq_is_data_available = False, mq_message = ''initialized'', mq_last_progress = None,
             mq_checkpoint = ck2, mq_table = d1\<rparr>))))))"

section \<open>Draining\<close>

definition MAX_DRAIN_BATCHES :: nat where "MAX_DRAIN_BATCHES = 100000"

definition reached_boundary :: "('s, 'e) source_ops \<Rightarrow> (string \<times> int) list option \<Rightarrow> ('s, 'k, 'd) managed_query \<Rightarrow> bool" where
  "reached_boundary src boundary q =
     (case boundary of
        None \<Rightarrow> False
      | Some ends \<Rightarrow>
          (case src_committed_offsets src (mq_source q) of
             None \<Rightarrow> False
           | Some p \<Rightarrow> list_all (\<lambda>(k, e). case map_of (so_entries p) k of None \<Rightarrow> False | Some c \<Rightarrow> e \<le> c) ends))"

text \<open>The environment of each round is the one of its boundary query and the faults of its batch.\<close>

primrec drain_loop ::
  "nat \<Rightarrow> ('s, 'e) source_ops \<Rightarrow> ('f, 'd, 'k) sink_write \<Rightarrow> query_engine \<Rightarrow> (nat \<Rightarrow> 'e \<times> ('e, 'f) batch_faults) \<Rightarrow>
   (string \<times> int) list option \<Rightarrow> nat \<Rightarrow> ('s, 'k, 'd) managed_query \<Rightarrow> ('s, 'k, 'd) managed_query \<times> nat result" where
  "drain_loop 0 src write qe env boundary drained q = (q, Inr drained)"
| "drain_loop (Suc n) src write qe env boundary drained q =
     (case (if boundary = None then src_available_end src (fst (env n)) (mq_source q) else Inr boundary) of
        Inl e \<Rightarrow> (q, Inl e)
      | Inr boundary1 \<Rightarrow>
          and_then (run_batch src write qe (snd (env n)) q) (\<lambda>q1 rows.
            if rows = 0 then (q1, Inr drained)
            else if reached_boundary src boundary1 q1 then (q1, Inr (drained + rows))
            else drain_loop n src write qe env boundary1 (drained + rows) q1))"

definition process_all_available ::
  "('s, 'e) source_ops \<Rightarrow> ('f, 'd, 'k) sink_write \<Rightarrow> query_engine \<Rightarrow> (nat \<Rightarrow> 'e \<times> ('e, 'f) batch_faults) \<Rightarrow>
   ('s, 'k, 'd) managed_query \<Rightarrow> ('s, 'k, 'd) managed_query \<times> nat result" where
  "process_all_available src write qe env q = drain_loop MAX_DRAIN_BATCHES src write qe env None 0 q"

end
