(* ===== verification/Delta_Partition.thy ===== *)
theory Delta_Partition
  imports Record_Batch
begin

text \<open>
  How the Delta writer lays a micro-batch out in files (\<^verbatim>\<open>oxidant-datasource/src/delta_write.rs\<close>):
  the split of the rows by partition values, the directory a combination of values is stored under,
  and the data-file schema. Rendering a date or an exotic type as text is Arrow's and chrono's, a
  parameter \<^term>\<open>display\<close> of the definitions.
\<close>

section \<open>Partition values\<close>

definition NULL_PARTITION :: string where
  "NULL_PARTITION = ''__HIVE_DEFAULT_PARTITION__''"

definition is_int_type :: "data_type \<Rightarrow> bool" where
  "is_int_type t \<longleftrightarrow> t = Int8 \<or> t = Int16 \<or> t = Int32 \<or> t = Int64"

fun partition_value_string :: "(data_type \<Rightarrow> cell \<Rightarrow> string) \<Rightarrow> data_type \<Rightarrow> cell \<Rightarrow> string" where
  "partition_value_string display t Null = NULL_PARTITION"
| "partition_value_string display t (StrCell s) =
     (if t = Utf8 \<or> t = LargeUtf8 then s else display t (StrCell s))"
| "partition_value_string display t (BoolCell b) =
     (if t = Boolean then (if b then ''true'' else ''false'') else display t (BoolCell b))"
| "partition_value_string display t (IntCell i) =
     (if is_int_type t then show_int i else display t (IntCell i))"
| "partition_value_string display t c = display t c"

type_synonym partition_key = "(string \<times> string) list"
type_synonym partition_group = "partition_key \<times> record_batch list"

section \<open>Splitting a micro-batch\<close>

fun partition_indices :: "field list \<Rightarrow> string list \<Rightarrow> nat list result" where
  "partition_indices fs [] = Inr []"
| "partition_indices fs (c # cs) =
     (case index_of fs c of
        None \<Rightarrow> Inl (Plan (''partition column `'' @ c @ ''` is not in the batch''))
      | Some i \<Rightarrow> rbind (partition_indices fs cs) (\<lambda>is. Inr (i # is)))"

definition row_key :: "(data_type \<Rightarrow> cell \<Rightarrow> string) \<Rightarrow> field list \<Rightarrow> string list \<Rightarrow> nat list \<Rightarrow> cell list \<Rightarrow> partition_key" where
  "row_key display fs cols ixs row =
     bt_collect (map (\<lambda>(c, i). (c, partition_value_string display (f_type (fs ! i)) (row ! i))) (zip cols ixs))"

definition project :: "nat list \<Rightarrow> 'a list \<Rightarrow> 'a list" where
  "project keep xs = map (\<lambda>i. xs ! i) keep"

definition keep_columns :: "field list \<Rightarrow> nat list \<Rightarrow> nat list" where
  "keep_columns fs ixs = filter (\<lambda>i. i \<notin> set ixs) [0..<length fs]"

text \<open>Rows by key, then one projected batch per distinct key, pushed onto the groups.\<close>

definition rows_by_key :: "(cell list \<Rightarrow> partition_key) \<Rightarrow> cell list list \<Rightarrow> (partition_key \<times> cell list list) list" where
  "rows_by_key key rows = fold (\<lambda>r m. bt_push (key r) r m) rows []"

definition split_batch ::
  "(data_type \<Rightarrow> cell \<Rightarrow> string) \<Rightarrow> string list \<Rightarrow> record_batch \<Rightarrow> partition_group list \<Rightarrow> partition_group list result" where
  "split_batch display cols b groups =
     rbind (partition_indices (rb_schema b) cols) (\<lambda>ixs.
       let keep = keep_columns (rb_schema b) ixs in
       Inr (fold (\<lambda>(k, rows) m. bt_push k \<lparr>rb_schema = project keep (rb_schema b), rb_rows = map (project keep) rows\<rparr> m)
              (rows_by_key (row_key display (rb_schema b) cols ixs) (rb_rows b)) groups))"

fun split_batches ::
  "(data_type \<Rightarrow> cell \<Rightarrow> string) \<Rightarrow> string list \<Rightarrow> record_batch list \<Rightarrow> partition_group list \<Rightarrow> partition_group list result" where
  "split_batches display cols [] groups = Inr groups"
| "split_batches display cols (b # bs) groups =
     rbind (split_batch display cols b groups) (split_batches display cols bs)"

definition split_by_partition ::
  "(data_type \<Rightarrow> cell \<Rightarrow> string) \<Rightarrow> record_batch list \<Rightarrow> string list \<Rightarrow> partition_group list result" where
  "split_by_partition display bs cols =
     (if cols = [] then Inr [([], bs)] else split_batches display cols bs [])"

section \<open>Directories and the data-file schema\<close>

definition reserved_char :: "char \<Rightarrow> bool" where
  "reserved_char c \<longleftrightarrow> c \<in> set ''/=: %?#[]'' \<or> c = CHR 0x5C"

definition escape_char :: "char \<Rightarrow> string" where
  "escape_char c =
     (if reserved_char c then [CHR ''%'', hex_char (of_char c div 16), hex_char (of_char c mod 16)] else [c])"

definition escape_partition :: "string \<Rightarrow> string" where
  "escape_partition s = concat (map escape_char s)"

definition partition_dir :: "partition_key \<Rightarrow> string list \<Rightarrow> string option" where
  "partition_dir values cols =
     (if cols = [] then None
      else Some (join ''/'' (map (\<lambda>c.
        escape_partition c @ ''='' @
        escape_partition (case map_of values c of None \<Rightarrow> NULL_PARTITION | Some v \<Rightarrow> v)) cols)))"

fun missing_column :: "field list \<Rightarrow> string list \<Rightarrow> string option" where
  "missing_column fs [] = None"
| "missing_column fs (c # cs) = (if c \<in> f_name ` set fs then missing_column fs cs else Some c)"

definition data_file_schema :: "field list \<Rightarrow> string list \<Rightarrow> field list result" where
  "data_file_schema fs cols =
     (if cols = [] then Inr fs
      else case missing_column fs cols of
        Some c \<Rightarrow> Inl (Plan (''partition column `'' @ c @ ''` is not in the table schema''))
      | None \<Rightarrow>
          (let ds = filter (\<lambda>f. f_name f \<notin> set cols) fs in
           if ds = [] then Inl (Plan (''every column is a partition column '' @ em_dash @
                              '' a Delta table needs at least one data column''))
           else Inr ds))"

section \<open>Every row lands in the group of its key\<close>

lemma fold_push_get:
  assumes "bt_sorted m"
  shows "bt_sorted (fold (\<lambda>r m. bt_push (key r) r m) rows m) \<and>
         bt_get (fold (\<lambda>r m. bt_push (key r) r m) rows m) k = bt_get m k @ filter (\<lambda>r. key r = k) rows"
  using assms
proof (induction rows arbitrary: m)
  case (Cons r rows)
  from Cons.IH [OF bt_push_sorted [OF Cons.prems, of "key r" r]] show ?case
    by (simp add: bt_get_push [OF Cons.prems])
qed simp

lemma rows_by_key_get: "bt_get (rows_by_key key rows) k = filter (\<lambda>r. key r = k) rows"
  and rows_by_key_sorted: "bt_sorted (rows_by_key key rows)"
  using fold_push_get [OF bt_sorted_Nil, of key rows] by (simp_all add: rows_by_key_def)

lemma fold_push_groups:
  assumes "bt_sorted m" and "distinct (map fst pm)"
  shows "bt_sorted (fold (\<lambda>(k, rows) m. bt_push k (f rows) m) pm m) \<and>
         bt_get (fold (\<lambda>(k, rows) m. bt_push k (f rows) m) pm m) k =
           bt_get m k @ (case map_of pm k of None \<Rightarrow> [] | Some rows \<Rightarrow> [f rows])"
  using assms
proof (induction pm arbitrary: m)
  case (Cons e pm)
  obtain k' rows where e: "e = (k', rows)" by fastforce
  from Cons.prems have "map_of pm k' = None" by (simp add: e map_of_eq_None_iff)
  with Cons.IH [OF bt_push_sorted [OF Cons.prems(1), of k' "f rows"]] Cons.prems show ?case
    by (auto simp: e bt_get_push)
qed simp

abbreviation keyed_rows ::
  "(data_type \<Rightarrow> cell \<Rightarrow> string) \<Rightarrow> field list \<Rightarrow> string list \<Rightarrow> nat list \<Rightarrow> partition_key \<Rightarrow> cell list list \<Rightarrow> cell list list" where
  "keyed_rows display fs cols ixs k rows \<equiv>
     map (project (keep_columns fs ixs)) (filter (\<lambda>r. row_key display fs cols ixs r = k) rows)"

lemma split_batch_rows:
  assumes "split_batch display cols b groups = Inr g" and "bt_sorted groups"
    and "partition_indices (rb_schema b) cols = Inr ixs"
  shows "bt_sorted g \<and>
         all_rows (bt_get g k) = all_rows (bt_get groups k) @ keyed_rows display (rb_schema b) cols ixs k (rb_rows b)"
proof -
  let ?key = "row_key display (rb_schema b) cols ixs" and ?keep = "keep_columns (rb_schema b) ixs"
  let ?f = "\<lambda>rows. \<lparr>rb_schema = project ?keep (rb_schema b), rb_rows = map (project ?keep) rows\<rparr>"
  let ?pm = "rows_by_key ?key (rb_rows b)"
  have g: "g = fold (\<lambda>(k, rows) m. bt_push k (?f rows) m) ?pm groups"
    using assms(1,3) by (simp add: split_batch_def Let_def)
  have "bt_get ?pm k = filter (\<lambda>r. ?key r = k) (rb_rows b)" by (rule rows_by_key_get)
  then have "all_rows (case map_of ?pm k of None \<Rightarrow> [] | Some rows \<Rightarrow> [?f rows]) = keyed_rows display (rb_schema b) cols ixs k (rb_rows b)"
    by (auto simp: bt_get_def split: option.splits)
  with fold_push_groups [OF assms(2) bt_sorted_distinct [OF rows_by_key_sorted], of ?f ?key "rb_rows b" k] g
  show ?thesis by simp
qed

lemma split_batches_rows:
  assumes "split_batches display cols bs groups = Inr g" and "bt_sorted groups"
    and "list_all (\<lambda>b. rb_schema b = fs) bs" and "partition_indices fs cols = Inr ixs"
  shows "bt_sorted g \<and> all_rows (bt_get g k) = all_rows (bt_get groups k) @ keyed_rows display fs cols ixs k (all_rows bs)"
  using assms
proof (induction bs arbitrary: groups)
  case (Cons b bs)
  then obtain g1 where g1: "split_batch display cols b groups = Inr g1" "split_batches display cols bs g1 = Inr g"
    by auto
  from split_batch_rows [OF g1(1) Cons.prems(2)] Cons.prems
  have "bt_sorted g1" and r: "all_rows (bt_get g1 k) = all_rows (bt_get groups k) @ keyed_rows display fs cols ixs k (rb_rows b)"
    by auto
  from Cons.IH [OF g1(2) this(1)] Cons.prems r show ?case by simp
qed simp

text \<open>
  C17. A partitioned write loses no row and duplicates none: the group of a combination of partition
  values holds exactly the rows with those values, in the order of the micro-batch, each without its
  partition columns.
\<close>

theorem partition_split_complete:
  assumes "split_by_partition display bs cols = Inr groups" and "cols \<noteq> []"
    and "list_all (\<lambda>b. rb_schema b = fs) bs" and "partition_indices fs cols = Inr ixs"
  shows "bt_sorted groups \<and>
    all_rows (bt_get groups k) =
      map (project (keep_columns fs ixs)) (filter (\<lambda>r. row_key display fs cols ixs r = k) (all_rows bs))"
  using split_batches_rows [OF _ bt_sorted_Nil assms(3,4), of display groups k] assms(1,2)
  by (simp add: split_by_partition_def)

theorem partition_split_complete_witness:
  "all_rows (bt_get [([(''d'', ''1'')], [\<lparr>rb_schema = [\<lparr>f_name = ''x'', f_type = Int64\<rparr>], rb_rows = [[IntCell 7], [IntCell 9]]\<rparr>])] [(''d'', ''1'')])
   = [[IntCell 7], [IntCell 9]]"
proof -
  let ?fs = "[\<lparr>f_name = ''x'', f_type = Int64\<rparr>, \<lparr>f_name = ''d'', f_type = Int64\<rparr>]"
  let ?b = "\<lparr>rb_schema = ?fs, rb_rows = [[IntCell 7, IntCell 1], [IntCell 9, IntCell 1]]\<rparr>"
  have i: "partition_indices ?fs [''d''] = Inr [1]" by simp
  have d: "show_int 1 = ''1''" by code_simp
  have s: "split_by_partition (\<lambda>_ _. []) [?b] [''d''] =
     Inr [([(''d'', ''1'')], [\<lparr>rb_schema = [\<lparr>f_name = ''x'', f_type = Int64\<rparr>], rb_rows = [[IntCell 7], [IntCell 9]]\<rparr>])]"
    by (simp add: split_by_partition_def split_batch_def Let_def keep_columns_def project_def rows_by_key_def
        row_key_def bt_collect_def bt_push_def bt_get_def is_int_type_def d upt_rec)
  from partition_split_complete [OF s _ _ i, where k = "[(''d'', ''1'')]"] show ?thesis
    by (simp add: keep_columns_def project_def row_key_def bt_collect_def is_int_type_def d upt_rec)
qed

section \<open>Directories separate partitions\<close>

text \<open>The inverse of the escaping, as a reader of the table decodes a directory name.\<close>

fun unescape_partition :: "string \<Rightarrow> string" where
  "unescape_partition (c # h # l # s) =
     (if c = CHR ''%'' then
        char_of ((if of_char h < (58 :: nat) then of_char h - 48 else of_char h - 55) * 16 +
                 (if of_char l < (58 :: nat) then of_char l - 48 else of_char l - 55 :: nat)) # unescape_partition s
      else c # unescape_partition (h # l # s))"
| "unescape_partition s = s"

lemma reserved_codes:
  "reserved_char c \<longleftrightarrow> c \<in> {CHR ''/'', CHR ''='', CHR '':'', CHR '' '', CHR ''%'', CHR ''?'', CHR ''#'', CHR ''['', CHR '']'', CHR 0x5C}"
  by (auto simp: reserved_char_def)

lemma unescape_plain: "c \<noteq> CHR ''%'' \<Longrightarrow> unescape_partition (c # s) = c # unescape_partition s"
  by (cases s rule: unescape_partition.cases) auto

lemma unescape_char: "unescape_partition (escape_char c @ s) = c # unescape_partition s"
proof (cases "reserved_char c")
  case True
  then show ?thesis by (auto simp: escape_char_def reserved_codes hex_char_def)
next
  case False
  then show ?thesis by (auto simp: escape_char_def unescape_plain reserved_codes)
qed

lemma unescape_escape [simp]: "unescape_partition (escape_partition s) = s"
  by (induction s) (simp_all add: escape_partition_def unescape_char)

lemma escape_inj: "escape_partition a = escape_partition b \<longleftrightarrow> a = b"
  by (metis unescape_escape)

lemma hex_char_no_separator:
  assumes "d < 16"
  shows "hex_char d \<noteq> CHR ''/''" "hex_char d \<noteq> CHR ''=''"
proof -
  have "(of_char (hex_char d) :: nat) = (if d < 10 then 48 + d else 55 + d)"
    using assms by (simp add: hex_char_def)
  moreover have "(of_char CHR ''/'' :: nat) = 47" "(of_char CHR ''='' :: nat) = 61" by simp_all
  ultimately show "hex_char d \<noteq> CHR ''/''" "hex_char d \<noteq> CHR ''=''"
    using assms by (auto split: if_splits)
qed

lemma escape_char_no_separator: "CHR ''/'' \<notin> set (escape_char c)" "CHR ''='' \<notin> set (escape_char c)"
proof -
  have "of_char c div 16 < (16 :: nat)" "of_char c mod 16 < (16 :: nat)"
    using nat_of_char_less_256 [of c] by (auto intro: less_mult_imp_div_less)
  note h = this [THEN hex_char_no_separator(1)] this [THEN hex_char_no_separator(2)]
  from h(1,2) [symmetric] show "CHR ''/'' \<notin> set (escape_char c)" by (auto simp: escape_char_def reserved_codes)
  from h(3,4) [symmetric] show "CHR ''='' \<notin> set (escape_char c)" by (auto simp: escape_char_def reserved_codes)
qed

lemma escape_no_separator: "CHR ''/'' \<notin> set (escape_partition s)" "CHR ''='' \<notin> set (escape_partition s)"
  by (simp_all add: escape_partition_def escape_char_no_separator)

lemma split_on_join:
  assumes "ws \<noteq> []" and "list_all (\<lambda>w. d \<notin> set w) ws"
  shows "split_on d (join [d] ws) = ws"
  using assms by (induction "[d]" ws rule: join.induct) (auto simp: split_on_none split_on_append)

abbreviation key_value :: "partition_key \<Rightarrow> string \<Rightarrow> string" where
  "key_value k c \<equiv> (case map_of k c of None \<Rightarrow> NULL_PARTITION | Some v \<Rightarrow> v)"

text \<open>
  Two partition keys share a directory exactly when they give every partition column the same
  value, whatever characters the values hold.
\<close>

theorem partition_dir_separates:
  "partition_dir k cols = partition_dir k' cols \<longleftrightarrow> map (key_value k) cols = map (key_value k') cols"
proof (cases "cols = []")
  case False
  let ?seg = "\<lambda>k c. escape_partition c @ ''='' @ escape_partition (key_value k c)"
  have free: "list_all (\<lambda>w. CHR ''/'' \<notin> set w) (map (?seg x) cols)" for x
    by (simp add: list_all_iff escape_no_separator)
  have "partition_dir k cols = partition_dir k' cols \<longleftrightarrow> map (?seg k) cols = map (?seg k') cols"
  proof
    assume "partition_dir k cols = partition_dir k' cols"
    then have "split_on CHR ''/'' (join ''/'' (map (?seg k) cols)) = split_on CHR ''/'' (join ''/'' (map (?seg k') cols))"
      using False by (simp add: partition_dir_def)
    then show "map (?seg k) cols = map (?seg k') cols"
      using False by (subst (asm) (1 2) split_on_join [OF _ free]) simp_all
  next
    assume "map (?seg k) cols = map (?seg k') cols"
    then show "partition_dir k cols = partition_dir k' cols" by (simp only: partition_dir_def)
  qed
  also have "\<dots> \<longleftrightarrow> map (key_value k) cols = map (key_value k') cols"
    by (simp add: escape_inj)
  finally show ?thesis .
qed (simp add: partition_dir_def)

end
