(* ===== verification/Delta_Log.thy ===== *)
theory Delta_Log
  imports Delta_Partition
begin

text \<open>
  The Delta table writer (\<^verbatim>\<open>oxidant-datasource/src/delta_write.rs\<close>): the transaction log and its
  checkpoints, the scan that tells a writer where to continue, and the append and overwrite commits.

  The object store is explicit state. A commit object is the list of its actions, a field being an
  option where the code tolerates an action another writer rendered without it. What the environment
  may do is a parameter of each call, a \<^verbatim>\<open>delta_faults\<close>: the commits other writers land before each
  attempt, whether a put is stored and whether its acknowledgement arrives, and which reads and
  checkpoint writes fail. Parquet encoding and the statistics text are parameters.
\<close>

section \<open>The store\<close>

record add_file =
  af_path :: string
  af_size :: nat
  af_num_records :: nat
  af_partition_values :: partition_key
  af_stats :: "string option"

record delta_metadata =
  dm_schema :: "field list"
  dm_partition_columns :: "string list"

datatype action =
    Protocol nat nat
  | MetaData "delta_metadata option"
  | Txn "string option" "int option"
  | Remove "string option"
  | Add "add_file option"
  | OtherAction

record delta_checkpoint =
  dc_files :: "add_file list"
  dc_txns :: "(string \<times> int) list"
  dc_metadata :: "delta_metadata option"

record delta_store =
  ds_commits :: "action list option list"
  ds_checkpoints :: "(nat \<times> delta_checkpoint option) list"
  ds_last_checkpoint :: "nat option"
  ds_objects :: "(string \<times> record_batch list) list"

definition MIN_READER_VERSION :: nat where "MIN_READER_VERSION = 1"
definition MIN_WRITER_VERSION :: nat where "MIN_WRITER_VERSION = 2"
definition COMMIT_ATTEMPTS :: nat where "COMMIT_ATTEMPTS = 8"
definition CHECKPOINT_FAILURE_LIMIT :: nat where "CHECKPOINT_FAILURE_LIMIT = 3"

text \<open>Reading and creating commit objects, and the objects of a log slot by slot.\<close>

definition commit_at :: "delta_store \<Rightarrow> nat \<Rightarrow> action list option" where
  "commit_at st v = (if v < length (ds_commits st) then ds_commits st ! v else None)"

definition store_commit :: "nat \<Rightarrow> action list \<Rightarrow> delta_store \<Rightarrow> delta_store" where
  "store_commit v body st =
     st\<lparr>ds_commits := (ds_commits st @ replicate (Suc v - length (ds_commits st)) None)[v := Some body]\<rparr>"

definition land_others :: "action list list \<Rightarrow> delta_store \<Rightarrow> delta_store" where
  "land_others bodies st = st\<lparr>ds_commits := ds_commits st @ map Some bodies\<rparr>"

definition put_object :: "string \<Rightarrow> record_batch list \<Rightarrow> delta_store \<Rightarrow> delta_store" where
  "put_object path data st = st\<lparr>ds_objects := AList.update path data (ds_objects st)\<rparr>"

definition commit_path :: "string \<Rightarrow> nat \<Rightarrow> string" where
  "commit_path root v = root @ ''/_delta_log/'' @ pad_zeros 20 (show_nat v) @ ''.json''"

definition checkpoint_path :: "string \<Rightarrow> nat \<Rightarrow> string" where
  "checkpoint_path root v = root @ ''/_delta_log/'' @ pad_zeros 20 (show_nat v) @ ''.checkpoint.parquet''"

section \<open>Scanning the log\<close>

record log_view =
  lv_live :: "add_file list"
  lv_txn :: "int option"
  lv_metadata :: "delta_metadata option"
  lv_trustworthy :: bool

definition log_view_init :: log_view where
  "log_view_init = \<lparr>lv_live = [], lv_txn = None, lv_metadata = None, lv_trustworthy = True\<rparr>"

definition max_txn :: "int option \<Rightarrow> int \<Rightarrow> int option" where
  "max_txn c v = Some (case c of None \<Rightarrow> v | Some c' \<Rightarrow> max c' v)"

fun apply_action :: "string option \<Rightarrow> action \<Rightarrow> log_view \<Rightarrow> log_view" where
  "apply_action app (Add (Some f)) s = s\<lparr>lv_live := lv_live s @ [f]\<rparr>"
| "apply_action app (Add None) s = s\<lparr>lv_trustworthy := False\<rparr>"
| "apply_action app (Remove (Some p)) s =
     (if p \<in> af_path ` set (lv_live s) then s\<lparr>lv_live := filter (\<lambda>f. af_path f \<noteq> p) (lv_live s)\<rparr>
      else s\<lparr>lv_trustworthy := False\<rparr>)"
| "apply_action app (Remove None) s = s\<lparr>lv_trustworthy := False\<rparr>"
| "apply_action app (MetaData m) s =
     s\<lparr>lv_metadata := (case m of None \<Rightarrow> lv_metadata s | Some d \<Rightarrow> Some d)\<rparr>"
| "apply_action app (Txn a v) s =
     (case v of None \<Rightarrow> s
      | Some n \<Rightarrow> if app \<noteq> None \<and> a = app then s\<lparr>lv_txn := max_txn (lv_txn s) n\<rparr> else s)"
| "apply_action app (Protocol r w) s = s"
| "apply_action app OtherAction s = s"

definition apply_commit :: "string option \<Rightarrow> action list \<Rightarrow> log_view \<Rightarrow> log_view" where
  "apply_commit app body s = fold (apply_action app) body s"

fun scan_commits :: "string option \<Rightarrow> action list option list \<Rightarrow> nat \<Rightarrow> log_view \<Rightarrow> nat \<times> log_view" where
  "scan_commits app (Some body # rest) v s = scan_commits app rest (Suc v) (apply_commit app body s)"
| "scan_commits app _ v s = (v, s)"

definition read_checkpoint :: "string option \<Rightarrow> delta_checkpoint \<Rightarrow> log_view" where
  "read_checkpoint app ck =
     \<lparr>lv_live = dc_files ck,
      lv_txn = fold (\<lambda>(a, v) t. if app = Some a then max_txn t v else t) (dc_txns ck) None,
      lv_metadata = dc_metadata ck, lv_trustworthy = True\<rparr>"

record log_state =
  ls_next_version :: nat
  ls_live_files :: "add_file list option"
  ls_committed_txn :: "int option"
  ls_metadata :: "delta_metadata option"

definition trusted_files :: "log_view \<Rightarrow> add_file list option" where
  "trusted_files s = (if lv_trustworthy s then Some (lv_live s) else None)"

definition log_read :: "string option \<Rightarrow> delta_store \<Rightarrow> log_state" where
  "log_read app st =
     (let start = (case ds_last_checkpoint st of None \<Rightarrow> 0 | Some v \<Rightarrow> Suc v);
          base = (case ds_last_checkpoint st of
                    None \<Rightarrow> log_view_init
                  | Some v \<Rightarrow>
                      (case map_of (ds_checkpoints st) v of
                         Some (Some ck) \<Rightarrow> read_checkpoint app ck
                       | _ \<Rightarrow> log_view_init\<lparr>lv_trustworthy := False\<rparr>));
          (v, s) = scan_commits app (drop start (ds_commits st)) start base
      in \<lparr>ls_next_version = v, ls_live_files = trusted_files s, ls_committed_txn = lv_txn s,
          ls_metadata = lv_metadata s\<rparr>)"

section \<open>The writer\<close>

record delta_writer =
  dw_root :: string
  dw_metadata :: "delta_metadata result"
  dw_app_id :: "string option"
  dw_partition_columns :: "string list"
  dw_checkpoint_interval :: nat
  dw_next_version :: nat
  dw_live_files :: "add_file list option"
  dw_committed_txn :: "int option"
  dw_file_counter :: nat
  dw_checkpoint_failures :: nat

record file_codec =
  fc_display :: "data_type \<Rightarrow> cell \<Rightarrow> string"
  fc_encode :: "record_batch list \<Rightarrow> nat result"
  fc_stats :: "record_batch list \<Rightarrow> nat \<Rightarrow> string"
  fc_path_part :: "string \<Rightarrow> string"

datatype put_reply = Stored | StoredUnacked string | NotStored string

record commit_race =
  rc_before :: "action list list"
  rc_reply :: put_reply
  rc_read :: "string option"

record delta_faults =
  df_put_file :: "nat \<Rightarrow> string option"
  df_race :: "nat \<Rightarrow> commit_race"
  df_checkpoint :: "string option"
  df_hint :: "string option"

definition adopt_log :: "log_state \<Rightarrow> delta_writer \<Rightarrow> delta_writer" where
  "adopt_log ls w =
     w\<lparr>dw_next_version := ls_next_version ls, dw_live_files := ls_live_files ls,
       dw_committed_txn := ls_committed_txn ls\<rparr>"

definition writer_open ::
  "string \<Rightarrow> field list \<Rightarrow> delta_metadata result \<Rightarrow> string option \<Rightarrow> string list \<Rightarrow> nat \<Rightarrow> string option \<Rightarrow> delta_store \<Rightarrow> delta_writer result" where
  "writer_open root fs meta app cols interval get_error st =
     rbind (data_file_schema fs cols) (\<lambda>_.
       case get_error of
         Some e \<Rightarrow> Inl (Io e)
       | None \<Rightarrow>
           Inr (adopt_log (log_read app st)
             \<lparr>dw_root = root, dw_metadata = meta, dw_app_id = app, dw_partition_columns = cols,
              dw_checkpoint_interval = interval, dw_next_version = 0, dw_live_files = None,
              dw_committed_txn = None, dw_file_counter = 0, dw_checkpoint_failures = 0\<rparr>))"

section \<open>Data files\<close>

definition file_name :: "nat \<Rightarrow> string \<Rightarrow> nat \<Rightarrow> string" where
  "file_name n prefix i =
     ''part-'' @ pad_zeros 5 (show_nat n) @ ''-'' @ prefix @ ''-'' @ show_nat i @ ''-c000.snappy.parquet''"

definition file_path :: "delta_writer \<Rightarrow> string \<Rightarrow> nat \<Rightarrow> partition_key \<Rightarrow> string" where
  "file_path w prefix i pv =
     (case partition_dir pv (dw_partition_columns w) of
        None \<Rightarrow> file_name (dw_file_counter w) prefix i
      | Some d \<Rightarrow> d @ ''/'' @ file_name (dw_file_counter w) prefix i)"

text \<open>A path below a root. The object store escapes each segment on its own (\<^verbatim>\<open>fc_path_part\<close>).\<close>

definition object_path_join :: "(string \<Rightarrow> string) \<Rightarrow> string \<Rightarrow> string \<Rightarrow> string" where
  "object_path_join escape root relative =
     join ''/'' ((if root = [] then [] else [root]) @ map escape (filter (\<lambda>s. s \<noteq> []) (split_on (CHR ''/'') relative)))"

fun write_groups ::
  "file_codec \<Rightarrow> delta_faults \<Rightarrow> delta_writer \<Rightarrow> string \<Rightarrow> nat \<Rightarrow> partition_group list \<Rightarrow> delta_store \<Rightarrow> delta_store \<times> add_file list result" where
  "write_groups fc fl w prefix i [] st = (st, Inr [])"
| "write_groups fc fl w prefix i ((pv, grp) # gs) st =
     (let n = total_rows grp; path = file_path w prefix i pv in
      if n = 0 then write_groups fc fl w prefix (Suc i) gs st
      else case fc_encode fc grp of
        Inl e \<Rightarrow> (st, Inl e)
      | Inr sz \<Rightarrow>
          (case df_put_file fl i of
             Some e \<Rightarrow> (st, Inl (Io (''write `'' @ object_path_join (fc_path_part fc) (dw_root w) path @ ''`: '' @ e)))
           | None \<Rightarrow>
               (let f = \<lparr>af_path = path, af_size = sz, af_num_records = n, af_partition_values = pv,
                         af_stats = Some (fc_stats fc grp n)\<rparr>;
                    (st', r) = write_groups fc fl w prefix (Suc i) gs (put_object path grp st)
                in (st', rbind r (\<lambda>fs. Inr (f # fs))))))"

definition write_data_files ::
  "file_codec \<Rightarrow> delta_faults \<Rightarrow> record_batch list \<Rightarrow> string \<Rightarrow> delta_writer \<Rightarrow> delta_store \<Rightarrow> delta_store \<times> delta_writer \<times> add_file list result" where
  "write_data_files fc fl bs prefix w st =
     (case split_by_partition (fc_display fc) bs (dw_partition_columns w) of
        Inl e \<Rightarrow> (st, w, Inl e)
      | Inr groups \<Rightarrow>
          (case write_groups fc fl w prefix 0 groups st of
             (st', Inl e) \<Rightarrow> (st', w, Inl e)
           | (st', Inr fs) \<Rightarrow> (st', w\<lparr>dw_file_counter := Suc (dw_file_counter w)\<rparr>, Inr fs)))"

section \<open>Commits\<close>

definition render_commit ::
  "nat \<Rightarrow> delta_metadata result \<Rightarrow> add_file list \<Rightarrow> add_file list \<Rightarrow> (string \<times> int) option \<Rightarrow> action list result" where
  "render_commit v meta files removes txn =
     (let rest = (case txn of None \<Rightarrow> [] | Some (a, n) \<Rightarrow> [Txn (Some a) (Some n)]) @
                 map (\<lambda>f. Remove (Some (af_path f))) removes @ map (\<lambda>f. Add (Some f)) files
      in if v = 0
         then rbind meta (\<lambda>m. Inr ([Protocol MIN_READER_VERSION MIN_WRITER_VERSION, MetaData (Some m)] @ rest))
         else Inr rest)"

definition not_authoritative :: "string \<Rightarrow> error" where
  "not_authoritative root =
     Execution (''cannot overwrite `'' @ root @ ''`: another writer has compacted or vacuumed it, so Oxidant's view of which files are live is not authoritative'')"

definition commit_failed :: "string \<Rightarrow> nat \<Rightarrow> string \<Rightarrow> error" where
  "commit_failed root v e = Io (''commit `'' @ commit_path root v @ ''`: '' @ e)"

text \<open>The first argument counts the attempts left; the attempt's index selects what the environment does.\<close>

primrec commit_loop ::
  "nat \<Rightarrow> delta_faults \<Rightarrow> add_file list \<Rightarrow> (string \<times> int) option \<Rightarrow> bool \<Rightarrow> delta_store \<Rightarrow> delta_writer \<Rightarrow> delta_store \<times> delta_writer \<times> nat result" where
  "commit_loop 0 fl files txn retire st w =
     (st, w, Inl (Io (''Delta commit lost '' @ show_nat COMMIT_ATTEMPTS @ '' version races on `'' @ dw_root w @
        ''` '' @ em_dash @ '' another writer is appending to this table concurrently'')))"
| "commit_loop (Suc n) fl files txn retire st w =
     (let race = df_race fl (COMMIT_ATTEMPTS - Suc n);
          st1 = land_others (rc_before race) st;
          v = dw_next_version w
      in case (if retire then (case dw_live_files w of None \<Rightarrow> Inl (not_authoritative (dw_root w)) | Some l \<Rightarrow> Inr l)
               else Inr []) of
           Inl e \<Rightarrow> (st1, w, Inl e)
         | Inr removes \<Rightarrow>
             (case render_commit v (dw_metadata w) files removes txn of
                Inl e \<Rightarrow> (st1, w, Inl e)
              | Inr body \<Rightarrow>
                  if commit_at st1 v \<noteq> None then
                    (if n = 0 then (st1, w, Inl (commit_failed (dw_root w) v ''already exists''))
                     else case rc_read race of
                       Some e \<Rightarrow> (st1, w, Inl (Io e))
                     | None \<Rightarrow>
                         commit_loop n fl files txn retire st1 (adopt_log (log_read (dw_app_id w) st1) w))
                  else case rc_reply race of
                    Stored \<Rightarrow> (store_commit v body st1, w, Inr v)
                  | StoredUnacked e \<Rightarrow> (store_commit v body st1, w, Inl (commit_failed (dw_root w) v e))
                  | NotStored e \<Rightarrow> (st1, w, Inl (commit_failed (dw_root w) v e))))"

definition commit_inner ::
  "delta_faults \<Rightarrow> add_file list \<Rightarrow> (string \<times> int) option \<Rightarrow> bool \<Rightarrow> delta_store \<Rightarrow> delta_writer \<Rightarrow> delta_store \<times> delta_writer \<times> nat result" where
  "commit_inner = commit_loop COMMIT_ATTEMPTS"

section \<open>Checkpoints\<close>

definition write_checkpoint :: "delta_faults \<Rightarrow> delta_writer \<Rightarrow> nat \<Rightarrow> delta_store \<Rightarrow> delta_store \<times> unit result" where
  "write_checkpoint fl w v st =
     (case dw_live_files w of
        None \<Rightarrow> (st, Inr ())
      | Some live \<Rightarrow>
          (case dw_metadata w of
             Inl e \<Rightarrow> (st, Inl e)
           | Inr m \<Rightarrow>
               (let ck = \<lparr>dc_files = live,
                          dc_txns = (case (dw_app_id w, dw_committed_txn w) of (Some a, Some n) \<Rightarrow> [(a, n)] | _ \<Rightarrow> []),
                          dc_metadata = Some m\<rparr>
                in case df_checkpoint fl of
                     Some e \<Rightarrow> (st, Inl (Io (''write checkpoint `'' @ checkpoint_path (dw_root w) v @ ''`: '' @ e)))
                   | None \<Rightarrow>
                       (let st1 = st\<lparr>ds_checkpoints := AList.update v (Some ck) (ds_checkpoints st)\<rparr> in
                        case df_hint fl of
                          Some e \<Rightarrow> (st1, Inl (Io (''write `'' @ dw_root w @ ''/_delta_log/_last_checkpoint`: '' @ e)))
                        | None \<Rightarrow> (st1\<lparr>ds_last_checkpoint := Some v\<rparr>, Inr ())))))"

definition maybe_checkpoint :: "delta_faults \<Rightarrow> nat \<Rightarrow> delta_store \<Rightarrow> delta_writer \<Rightarrow> delta_store \<times> delta_writer" where
  "maybe_checkpoint fl v st w =
     (if dw_checkpoint_interval w = 0 \<or> Suc v mod dw_checkpoint_interval w \<noteq> 0 \<or> dw_live_files w = None then (st, w)
      else case write_checkpoint fl w v st of
        (st', Inr _) \<Rightarrow> (st', w\<lparr>dw_checkpoint_failures := 0\<rparr>)
      | (st', Inl _) \<Rightarrow>
          (let k = Suc (dw_checkpoint_failures w); w' = w\<lparr>dw_checkpoint_failures := k\<rparr> in
           (st', if CHECKPOINT_FAILURE_LIMIT \<le> k then w'\<lparr>dw_checkpoint_interval := 0\<rparr> else w')))"

section \<open>Appending and overwriting\<close>

record delta_commit =
  dk_version :: nat
  dk_rows :: nat
  dk_files :: "add_file list"
  dk_deduplicated :: bool

definition is_replay :: "int option \<Rightarrow> delta_writer \<Rightarrow> bool" where
  "is_replay txn w \<longleftrightarrow>
     (case (txn, dw_committed_txn w) of (Some v, Some c) \<Rightarrow> v \<le> c | _ \<Rightarrow> False)"

definition txn_stamp :: "int option \<Rightarrow> delta_writer \<Rightarrow> (string \<times> int) option" where
  "txn_stamp txn w = (case (txn, dw_app_id w) of (Some v, Some a) \<Rightarrow> Some (a, v) | _ \<Rightarrow> None)"

definition after_commit :: "nat \<Rightarrow> (string \<times> int) option \<Rightarrow> delta_writer \<Rightarrow> delta_writer" where
  "after_commit v stamp w =
     (let w1 = w\<lparr>dw_next_version := Suc v\<rparr> in
      case stamp of None \<Rightarrow> w1 | Some (a, n) \<Rightarrow> w1\<lparr>dw_committed_txn := Some n\<rparr>)"

definition delta_append ::
  "file_codec \<Rightarrow> delta_faults \<Rightarrow> record_batch list \<Rightarrow> string \<Rightarrow> int option \<Rightarrow> delta_store \<Rightarrow> delta_writer \<Rightarrow> delta_store \<times> delta_writer \<times> delta_commit result" where
  "delta_append fc fl bs prefix txn st w =
     (if total_rows bs = 0 then
        (st, w, Inr \<lparr>dk_version = dw_next_version w, dk_rows = 0, dk_files = [], dk_deduplicated = False\<rparr>)
      else if is_replay txn w then
        (st, w, Inr \<lparr>dk_version = dw_next_version w, dk_rows = 0, dk_files = [], dk_deduplicated = True\<rparr>)
      else case write_data_files fc fl bs prefix w st of
        (st1, w1, Inl e) \<Rightarrow> (st1, w1, Inl e)
      | (st1, w1, Inr files) \<Rightarrow>
          (case commit_inner fl files (txn_stamp txn w1) False st1 w1 of
             (st2, w2, Inl e) \<Rightarrow> (st2, w2, Inl e)
           | (st2, w2, Inr v) \<Rightarrow>
               (let w3 = after_commit v (txn_stamp txn w1) w2;
                    w4 = w3\<lparr>dw_live_files := map_option (\<lambda>live. live @ files) (dw_live_files w3)\<rparr>;
                    (st3, w5) = maybe_checkpoint fl v st2 w4
                in (st3, w5, Inr \<lparr>dk_version = v, dk_rows = total_rows bs, dk_files = files, dk_deduplicated = False\<rparr>))))"

definition delta_replace ::
  "file_codec \<Rightarrow> delta_faults \<Rightarrow> record_batch list \<Rightarrow> string \<Rightarrow> int option \<Rightarrow> delta_store \<Rightarrow> delta_writer \<Rightarrow> delta_store \<times> delta_writer \<times> delta_commit result" where
  "delta_replace fc fl bs prefix txn st w =
     (if is_replay txn w then
        (st, w, Inr \<lparr>dk_version = dw_next_version w, dk_rows = 0, dk_files = [], dk_deduplicated = True\<rparr>)
      else if dw_live_files w = None then (st, w, Inl (not_authoritative (dw_root w)))
      else case write_data_files fc fl bs prefix w st of
        (st1, w1, Inl e) \<Rightarrow> (st1, w1, Inl e)
      | (st1, w1, Inr files) \<Rightarrow>
          (case commit_inner fl files (txn_stamp txn w1) True st1 w1 of
             (st2, w2, Inl e) \<Rightarrow> (st2, w2, Inl e)
           | (st2, w2, Inr v) \<Rightarrow>
               (let w3 = (after_commit v (txn_stamp txn w1) w2)\<lparr>dw_live_files := Some files\<rparr>;
                    (st3, w4) = maybe_checkpoint fl v st2 w3
                in (st3, w4, Inr \<lparr>dk_version = v, dk_rows = total_rows bs, dk_files = files, dk_deduplicated = False\<rparr>))))"

end
