(* ===== verification/Delta_Table.thy ===== *)
theory Delta_Table
  imports Delta_Log
begin

text \<open>
  What the Delta writer guarantees over whole histories of a table: a scan that starts at a checkpoint
  sees what a scan of the whole log sees, an overwrite leaves exactly its own files live, and a batch
  identifier is committed at most once, whatever other writers do in between and wherever the process
  stops.
\<close>

section \<open>Views of the log\<close>

definition log_ok :: "delta_store \<Rightarrow> bool" where
  "log_ok st \<longleftrightarrow> list_all (\<lambda>c. c \<noteq> None) (ds_commits st)"

definition bodies :: "delta_store \<Rightarrow> action list list" where
  "bodies st = map the (ds_commits st)"

definition replay :: "string option \<Rightarrow> action list list \<Rightarrow> log_view" where
  "replay app bs = fold (apply_commit app) bs log_view_init"

text \<open>The stamps of an application in a commit, the files a commit adds, and the batches of an application in order.\<close>

definition stamp_of :: "string \<Rightarrow> action \<Rightarrow> int list" where
  "stamp_of a act = (case act of Txn (Some x) (Some n) \<Rightarrow> if x = a then [n] else [] | _ \<Rightarrow> [])"

definition stamps :: "string \<Rightarrow> action list \<Rightarrow> int list" where
  "stamps a body = concat (map (stamp_of a) body)"

definition adds :: "action list \<Rightarrow> add_file list" where
  "adds body = concat (map (\<lambda>act. case act of Add (Some f) \<Rightarrow> [f] | _ \<Rightarrow> []) body)"

definition app_log :: "string \<Rightarrow> action list list \<Rightarrow> (int \<times> add_file list) list" where
  "app_log a bs = concat (map (\<lambda>b. map (\<lambda>n. (n, adds b)) (stamps a b)) bs)"

definition core :: "log_view \<Rightarrow> add_file list \<times> int option \<times> bool" where
  "core s = (lv_live s, lv_txn s, lv_trustworthy s)"

definition checkpoint_ok :: "string option \<Rightarrow> delta_store \<Rightarrow> bool" where
  "checkpoint_ok app st \<longleftrightarrow>
     (case ds_last_checkpoint st of
        None \<Rightarrow> True
      | Some v \<Rightarrow>
          (case map_of (ds_checkpoints st) v of
             Some (Some ck) \<Rightarrow> v < length (ds_commits st) \<and>
               core (read_checkpoint app ck) = core (replay app (take (Suc v) (bodies st)))
           | _ \<Rightarrow> False))"

definition synced :: "string \<Rightarrow> delta_store \<Rightarrow> delta_writer \<Rightarrow> bool" where
  "synced a st w \<longleftrightarrow> log_ok st \<and> checkpoint_ok (Some a) st \<and> dw_app_id w = Some a \<and>
     dw_next_version w \<le> length (ds_commits st) \<and>
     dw_live_files w = trusted_files (replay (Some a) (take (dw_next_version w) (bodies st))) \<and>
     dw_committed_txn w = lv_txn (replay (Some a) (take (dw_next_version w) (bodies st))) \<and>
     list_all (\<lambda>b. stamps a b = []) (drop (dw_next_version w) (bodies st))"

definition foreign_races :: "string \<Rightarrow> delta_faults \<Rightarrow> bool" where
  "foreign_races a fl \<longleftrightarrow> (\<forall>i. list_all (\<lambda>b. stamps a b = []) (rc_before (df_race fl i)))"

definition acknowledged :: "delta_faults \<Rightarrow> bool" where
  "acknowledged fl \<longleftrightarrow> (\<forall>i e. rc_reply (df_race fl i) \<noteq> StoredUnacked e)"

lemma bodies_simps [simp]:
  "length (bodies st) = length (ds_commits st)"
  "bodies (land_others bs st) = bodies st @ bs"
  by (simp_all add: bodies_def land_others_def o_def)

lemma log_ok_land [simp]: "log_ok (land_others bs st) = log_ok st"
  by (auto simp: log_ok_def land_others_def list_all_iff)

lemma store_commit_end:
  assumes "log_ok st" and "v = length (ds_commits st)"
  shows "bodies (store_commit v body st) = bodies st @ [body]" "log_ok (store_commit v body st)"
  using assms by (simp_all add: bodies_def log_ok_def store_commit_def list_update_append)

lemma commit_at_free:
  assumes "log_ok st" and "v \<le> length (ds_commits st)"
  shows "commit_at st v = None \<longleftrightarrow> v = length (ds_commits st)"
  using assms by (auto simp: commit_at_def log_ok_def list_all_length)

lemma replay_append: "replay app (bs @ cs) = fold (apply_commit app) cs (replay app bs)"
  by (simp add: replay_def)

lemma core_apply_action: "core s = core t \<Longrightarrow> core (apply_action app act s) = core (apply_action app act t)"
  by (cases "(app, act, s)" rule: apply_action.cases) (auto simp: core_def split: option.splits)

lemma core_apply_commit: "core s = core t \<Longrightarrow> core (apply_commit app body s) = core (apply_commit app body t)"
  unfolding apply_commit_def
proof (induction body arbitrary: s t)
  case (Cons act body)
  from Cons.IH [OF core_apply_action [OF Cons.prems]] show ?case by simp
qed simp

lemma core_fold: "core s = core t \<Longrightarrow> core (fold (apply_commit app) bs s) = core (fold (apply_commit app) bs t)"
proof (induction bs arbitrary: s t)
  case (Cons b bs)
  from Cons.IH [OF core_apply_commit [OF Cons.prems]] show ?case by simp
qed simp

lemma core_trusted: "core s = core t \<Longrightarrow> trusted_files s = trusted_files t \<and> lv_txn s = lv_txn t"
  by (simp add: core_def trusted_files_def)

lemma scan_commits_all:
  "list_all (\<lambda>c. c \<noteq> None) cs \<Longrightarrow> scan_commits app cs v s = (v + length cs, fold (apply_commit app) (map the cs) s)"
  by (induction app cs v s rule: scan_commits.induct) auto

lemma log_read_replay:
  assumes "log_ok st" and "checkpoint_ok app st"
  shows "ls_next_version (log_read app st) = length (ds_commits st)"
    "ls_live_files (log_read app st) = trusted_files (replay app (bodies st))"
    "ls_committed_txn (log_read app st) = lv_txn (replay app (bodies st))"
proof -
  obtain start base where sb: "start \<le> length (ds_commits st)" "core base = core (replay app (take start (bodies st)))"
    and r: "log_read app st = (case scan_commits app (drop start (ds_commits st)) start base of (v, s) \<Rightarrow>
       \<lparr>ls_next_version = v, ls_live_files = trusted_files s, ls_committed_txn = lv_txn s, ls_metadata = lv_metadata s\<rparr>)"
  proof (cases "ds_last_checkpoint st")
    case None
    show ?thesis by (rule that [of 0 log_view_init]) (simp_all add: None log_read_def replay_def)
  next
    case (Some v)
    then obtain ck where "map_of (ds_checkpoints st) v = Some (Some ck)" "v < length (ds_commits st)"
        "core (read_checkpoint app ck) = core (replay app (take (Suc v) (bodies st)))"
      using assms(2) by (auto simp: checkpoint_ok_def split: option.splits)
    then show ?thesis by (intro that [of "Suc v" "read_checkpoint app ck"]) (simp_all add: Some log_read_def)
  qed
  let ?s = "fold (apply_commit app) (drop start (bodies st)) base"
  have some: "list_all (\<lambda>c. c \<noteq> None) (drop start (ds_commits st))"
    using assms(1) unfolding log_ok_def list_all_iff by (meson in_set_dropD)
  have sc: "scan_commits app (drop start (ds_commits st)) start base = (length (ds_commits st), ?s)"
    unfolding scan_commits_all [OF some] using sb(1) by (simp add: bodies_def drop_map)
  have "core ?s = core (replay app (bodies st))"
    using core_fold [OF sb(2), of app "drop start (bodies st)"]
    unfolding replay_append [symmetric] by simp
  note ct = core_trusted [OF this]
  show "ls_next_version (log_read app st) = length (ds_commits st)"
    by (simp add: r sc)
  show "ls_live_files (log_read app st) = trusted_files (replay app (bodies st))"
    using ct by (simp add: r sc)
  show "ls_committed_txn (log_read app st) = lv_txn (replay app (bodies st))"
    using ct by (simp add: r sc)
qed

section \<open>The commit loop\<close>

lemma land_land: "land_others bs (land_others cs st) = land_others (cs @ bs) st"
  by (simp add: land_others_def)

lemma land_nil [simp]: "land_others [] st = st"
  by (simp add: land_others_def)

lemma checkpoint_ok_land:
  assumes "checkpoint_ok app st"
  shows "checkpoint_ok app (land_others bs st)"
proof (cases "ds_last_checkpoint st")
  case None
  then show ?thesis by (simp add: checkpoint_ok_def land_others_def)
next
  case (Some v)
  with assms obtain ck where "map_of (ds_checkpoints st) v = Some (Some ck)" "v < length (ds_commits st)"
      "core (read_checkpoint app ck) = core (replay app (take (Suc v) (bodies st)))"
    by (auto simp: checkpoint_ok_def split: option.splits)
  with Some show ?thesis unfolding checkpoint_ok_def bodies_simps by (simp add: land_others_def)
qed

lemma synced_land:
  assumes "synced a st w" and "list_all (\<lambda>b. stamps a b = []) bs"
  shows "synced a (land_others bs st) w"
proof -
  have "length (ds_commits (land_others bs st)) = length (ds_commits st) + length bs" by (simp add: land_others_def)
  then show ?thesis
    using assms unfolding synced_def bodies_simps by (simp add: checkpoint_ok_land)
qed

lemma synced_adopt:
  assumes "synced a st w"
  shows "synced a st (adopt_log (log_read (Some a) st) w)"
  using assms log_read_replay [of st "Some a"] unfolding synced_def adopt_log_def by simp

definition same_config :: "delta_writer \<Rightarrow> delta_writer \<Rightarrow> bool" where
  "same_config w w' \<longleftrightarrow>
     w' = w\<lparr>dw_next_version := dw_next_version w', dw_live_files := dw_live_files w', dw_committed_txn := dw_committed_txn w'\<rparr>"

lemma same_config_refl [simp]: "same_config w w"
  by (simp add: same_config_def)

lemma same_config_adopt: "same_config (adopt_log ls w) w' \<Longrightarrow> same_config w w'"
  by (simp add: same_config_def adopt_log_def)

lemma same_config_simps:
  assumes "same_config w w'"
  shows "dw_root w' = dw_root w" "dw_metadata w' = dw_metadata w" "dw_app_id w' = dw_app_id w"
    "dw_partition_columns w' = dw_partition_columns w" "dw_checkpoint_interval w' = dw_checkpoint_interval w"
    "dw_file_counter w' = dw_file_counter w" "dw_checkpoint_failures w' = dw_checkpoint_failures w"
  by (subst assms [unfolded same_config_def], simp)+

text \<open>The two ways a commit attempt ends: nothing of ours was stored, or our commit is the last of the log.\<close>

definition commit_missed :: "string \<Rightarrow> delta_store \<Rightarrow> delta_writer \<Rightarrow> delta_store \<Rightarrow> delta_writer \<Rightarrow> nat result \<Rightarrow> bool" where
  "commit_missed a st w st' w' res \<longleftrightarrow>
     (\<exists>others e. list_all (\<lambda>b. stamps a b = []) others \<and> st' = land_others others st \<and> synced a st' w' \<and>
        same_config w w' \<and> res = Inl e)"

definition commit_landed ::
  "string \<Rightarrow> delta_faults \<Rightarrow> add_file list \<Rightarrow> (string \<times> int) option \<Rightarrow> bool \<Rightarrow> delta_store \<Rightarrow> delta_writer \<Rightarrow> delta_store \<Rightarrow> delta_writer \<Rightarrow> nat result \<Rightarrow> bool" where
  "commit_landed a fl files txn retire st w st' w' res \<longleftrightarrow>
     (\<exists>others body removes. list_all (\<lambda>b. stamps a b = []) others \<and> synced a (land_others others st) w' \<and>
        same_config w w' \<and> dw_next_version w' = length (ds_commits (land_others others st)) \<and>
        (if retire then dw_live_files w' = Some removes else removes = []) \<and>
        render_commit (dw_next_version w') (dw_metadata w) files removes txn = Inr body \<and>
        st' = store_commit (dw_next_version w') body (land_others others st) \<and>
        (res = Inr (dw_next_version w') \<or> (\<exists>e. res = Inl e) \<and> \<not> acknowledged fl))"

lemma commit_missed_step:
  assumes "commit_missed a (land_others o1 st) (adopt_log ls w) st' w' res" and "list_all (\<lambda>b. stamps a b = []) o1"
  shows "commit_missed a st w st' w' res"
  using assms unfolding commit_missed_def land_land list_all_iff
  by (metis (no_types, lifting) Un_iff same_config_adopt set_append)

lemma commit_landed_step:
  assumes "commit_landed a fl files txn retire (land_others o1 st) (adopt_log ls w) st' w' res"
    and "list_all (\<lambda>b. stamps a b = []) o1"
  shows "commit_landed a fl files txn retire st w st' w' res"
proof -
  obtain o2 body removes where o2: "list_all (\<lambda>b. stamps a b = []) o2" "synced a (land_others (o1 @ o2) st) w'"
      "same_config w w'" "dw_next_version w' = length (ds_commits (land_others (o1 @ o2) st))"
      "if retire then dw_live_files w' = Some removes else removes = []"
      "render_commit (dw_next_version w') (dw_metadata w) files removes txn = Inr body"
      "st' = store_commit (dw_next_version w') body (land_others (o1 @ o2) st)"
      "res = Inr (dw_next_version w') \<or> (\<exists>e. res = Inl e) \<and> \<not> acknowledged fl"
    using assms(1) unfolding commit_landed_def land_land
    by (auto simp: adopt_log_def dest: same_config_adopt [unfolded adopt_log_def])
  moreover have "list_all (\<lambda>b. stamps a b = []) (o1 @ o2)" using o2(1) assms(2) by simp
  ultimately show ?thesis unfolding commit_landed_def by blast
qed

lemma commit_loop_outcome:
  assumes "foreign_races a fl" and "synced a st w"
    and "commit_loop n fl files txn retire st w = (st', w', res)"
  shows "commit_missed a st w st' w' res \<or> commit_landed a fl files txn retire st w st' w' res"
  using assms(2,3)
proof (induction n arbitrary: st w)
  case 0
  then have "commit_missed a st w st' w' res"
    unfolding commit_missed_def by (intro exI [of _ "[]"]) auto
  then show ?case ..
next
  case (Suc n)
  define race where "race = df_race fl (COMMIT_ATTEMPTS - Suc n)"
  define st1 where "st1 = land_others (rc_before race) st"
  have fo: "list_all (\<lambda>b. stamps a b = []) (rc_before race)"
    using assms(1) by (simp add: foreign_races_def race_def)
  have sy: "synced a st1 w" using synced_land [OF Suc.prems(1) fo] by (simp add: st1_def)
  have stop: "commit_missed a st w st1 w (Inl e)" for e
    unfolding commit_missed_def using fo sy st1_def by (intro exI [of _ "rc_before race"]) auto
  define v where "v = dw_next_version w"
  define rem where "rem = (if retire then (case dw_live_files w of None \<Rightarrow> Inl (not_authoritative (dw_root w)) | Some l \<Rightarrow> Inr l) else Inr [])"
  note loop = Suc.prems(2) [unfolded commit_loop.simps Let_def, folded race_def, folded st1_def v_def, folded rem_def]
  show ?case
  proof (cases rem)
    case (Inl e)
    with loop stop show ?thesis by auto
  next
    case (Inr removes)
    then have removes: "if retire then dw_live_files w = Some removes else removes = []"
      by (auto simp: rem_def split: if_splits option.splits)
    show ?thesis
    proof (cases "render_commit v (dw_metadata w) files removes txn")
      case (Inl e)
      with loop stop Inr show ?thesis by auto
    next
      case body: (Inr body)
      show ?thesis
      proof (cases "commit_at st1 v")
        case (Some b)
        show ?thesis
        proof (cases "n = 0 \<or> rc_read race \<noteq> None")
          case True
          with loop stop Inr body Some show ?thesis by (auto split: if_splits)
        next
          case False
          have app: "dw_app_id w = Some a" using sy by (simp add: synced_def)
          from False loop Inr body Some
          have "commit_loop n fl files txn retire st1 (adopt_log (log_read (Some a) st1) w) = (st', w', res)"
            by (simp add: app)
          from Suc.IH [OF synced_adopt [OF sy] this] show ?thesis
            using commit_missed_step [OF _ fo] commit_landed_step [OF _ fo] unfolding st1_def by blast
        qed
      next
        case None
        have v: "v = length (ds_commits st1)"
          using None sy commit_at_free [of st1 v] by (simp add: synced_def v_def)
        have landed: "commit_landed a fl files txn retire st w (store_commit v body st1) w r"
          if "r = Inr v \<or> (\<exists>e. r = Inl e) \<and> \<not> acknowledged fl" for r
          unfolding commit_landed_def using fo sy v removes body that
          by (intro exI [of _ "rc_before race"] exI [of _ body] exI [of _ removes]) (simp add: st1_def v_def)
        have un: "rc_reply race = StoredUnacked e \<Longrightarrow> \<not> acknowledged fl" for e
          unfolding acknowledged_def race_def by blast
        show ?thesis
          using loop stop landed un Inr body None by (cases "rc_reply race") auto
      qed
    qed
  qed
qed

section \<open>What a stored commit does to the view\<close>

lemma stamps_simps [simp]:
  "stamps a [] = []" "stamps a (act # body) = stamp_of a act @ stamps a body" "stamps a (b @ c) = stamps a b @ stamps a c"
  by (simp_all add: stamps_def)

lemma adds_simps [simp]:
  "adds [] = []" "adds (b @ c) = adds b @ adds c"
  "adds (act # body) = (case act of Add (Some f) \<Rightarrow> [f] | _ \<Rightarrow> []) @ adds body"
  by (simp_all add: adds_def)

lemma stamps_files [simp]: "stamps a (map (\<lambda>f. Add (Some f)) fs) = []" "stamps a (map (\<lambda>f. Remove (Some (af_path f))) fs) = []"
  by (induction fs) (simp_all add: stamp_of_def)

lemma adds_files [simp]: "adds (map (\<lambda>f. Add (Some f)) fs) = fs" "adds (map (\<lambda>f. Remove (Some (af_path f))) fs) = []"
  by (induction fs) (simp_all add: adds_def)

lemma app_log_simps [simp]:
  "app_log a [] = []" "app_log a (bs @ cs) = app_log a bs @ app_log a cs"
  "app_log a [b] = map (\<lambda>n. (n, adds b)) (stamps a b)"
  by (simp_all add: app_log_def)

lemma app_log_foreign [simp]: "list_all (\<lambda>b. stamps a b = []) bs \<Longrightarrow> app_log a bs = []"
  by (induction bs) (simp_all add: app_log_def)

lemma render_commit_parts:
  assumes "render_commit v meta files removes txn = Inr body"
  obtains pre where "pre = [] \<or> (\<exists>m. pre = [Protocol MIN_READER_VERSION MIN_WRITER_VERSION, MetaData (Some m)])"
    "body = pre @ (case txn of None \<Rightarrow> [] | Some (x, n) \<Rightarrow> [Txn (Some x) (Some n)]) @
       map (\<lambda>f. Remove (Some (af_path f))) removes @ map (\<lambda>f. Add (Some f)) files"
proof (cases "v = 0")
  case True
  with assms obtain m where "body = [Protocol MIN_READER_VERSION MIN_WRITER_VERSION, MetaData (Some m)] @
       (case txn of None \<Rightarrow> [] | Some (x, n) \<Rightarrow> [Txn (Some x) (Some n)]) @
       map (\<lambda>f. Remove (Some (af_path f))) removes @ map (\<lambda>f. Add (Some f)) files"
    by (auto simp: render_commit_def Let_def)
  then show ?thesis by (rule that [rotated]) blast
next
  case False
  with assms show ?thesis by (intro that [of "[]"]) (simp_all add: render_commit_def Let_def)
qed

lemma render_commit_stamps:
  assumes "render_commit v meta files removes (Some (a, n)) = Inr body"
  shows "stamps a body = [n]" "adds body = files"
proof -
  obtain pre where pre: "pre = [] \<or> (\<exists>m. pre = [Protocol MIN_READER_VERSION MIN_WRITER_VERSION, MetaData (Some m)])"
    and body: "body = pre @ [Txn (Some a) (Some n)] @
       map (\<lambda>f. Remove (Some (af_path f))) removes @ map (\<lambda>f. Add (Some f)) files"
    using render_commit_parts [OF assms] by auto
  have "stamps a pre = []" "adds pre = []" using pre by (auto simp: stamp_of_def)
  then show "stamps a body = [n]" "adds body = files" by (simp_all add: body stamp_of_def)
qed

lemma fold_adds: "fold (apply_action app) (map (\<lambda>f. Add (Some f)) fs) s = s\<lparr>lv_live := lv_live s @ fs\<rparr>"
  by (induction fs arbitrary: s) simp_all

lemma fold_removes:
  "lv_live (fold (apply_action app) (map (\<lambda>f. Remove (Some (af_path f))) rs) s) =
     filter (\<lambda>f. af_path f \<notin> af_path ` set rs) (lv_live s) \<and>
   lv_txn (fold (apply_action app) (map (\<lambda>f. Remove (Some (af_path f))) rs) s) = lv_txn s"
proof (induction rs arbitrary: s)
  case (Cons r rs)
  show ?case
  proof (cases "af_path r \<in> af_path ` set (lv_live s)")
    case True
    then show ?thesis using Cons.IH by simp
  next
    case False
    have "filter (\<lambda>f. af_path f \<notin> af_path ` set (r # rs)) (lv_live s) = filter (\<lambda>f. af_path f \<notin> af_path ` set rs) (lv_live s)"
      by (rule filter_cong) (use False in force)+
    with False Cons.IH show ?thesis by (simp del: list.set)
  qed
qed simp

lemma fold_removes_trust:
  assumes "distinct (map af_path rs)" and "af_path ` set rs \<subseteq> af_path ` set (lv_live s)"
  shows "lv_trustworthy (fold (apply_action app) (map (\<lambda>f. Remove (Some (af_path f))) rs) s) = lv_trustworthy s"
  using assms
proof (induction rs arbitrary: s)
  case (Cons r rs)
  let ?s = "s\<lparr>lv_live := filter (\<lambda>f. af_path f \<noteq> af_path r) (lv_live s)\<rparr>"
  have "af_path ` set rs \<subseteq> af_path ` set (lv_live ?s)"
  proof
    fix p assume p: "p \<in> af_path ` set rs"
    then obtain f where "f \<in> set (lv_live s)" "af_path f = p" using Cons.prems(2) by auto
    moreover have "p \<noteq> af_path r" using p Cons.prems(1) by (metis distinct.simps(2) list.set_map list.simps(9))
    ultimately show "p \<in> af_path ` set (lv_live ?s)" by auto
  qed
  from Cons.IH [OF _ this] Cons.prems show ?case by simp
qed simp

definition stamp_view :: "string option \<Rightarrow> (string \<times> int) option \<Rightarrow> log_view \<Rightarrow> log_view" where
  "stamp_view app txn s = (case txn of None \<Rightarrow> s | Some (x, n) \<Rightarrow> apply_action app (Txn (Some x) (Some n)) s)"

lemma core_rendered:
  assumes "render_commit v meta files removes txn = Inr body"
    and "s2 = fold (apply_action app) (map (\<lambda>f. Remove (Some (af_path f))) removes) (stamp_view app txn s)"
  shows "core (apply_commit app body s) = (lv_live s2 @ files, lv_txn s2, lv_trustworthy s2)"
proof -
  obtain pre where pre: "pre = [] \<or> (\<exists>m. pre = [Protocol MIN_READER_VERSION MIN_WRITER_VERSION, MetaData (Some m)])"
    and body: "body = pre @ (case txn of None \<Rightarrow> [] | Some (x, n) \<Rightarrow> [Txn (Some x) (Some n)]) @
       map (\<lambda>f. Remove (Some (af_path f))) removes @ map (\<lambda>f. Add (Some f)) files"
    using assms(1) by (rule render_commit_parts)
  let ?rest = "(case txn of None \<Rightarrow> [] | Some (x, n) \<Rightarrow> [Txn (Some x) (Some n)]) @
       map (\<lambda>f. Remove (Some (af_path f))) removes @ map (\<lambda>f. Add (Some f)) files"
  have "core (fold (apply_action app) pre s) = core s" using pre by (auto simp: core_def)
  from core_apply_commit [OF this, of app ?rest]
  have "core (apply_commit app body s) = core (apply_commit app ?rest s)"
    unfolding body by (simp add: apply_commit_def)
  also have "fold (apply_action app) (case txn of None \<Rightarrow> [] | Some (x, n) \<Rightarrow> [Txn (Some x) (Some n)]) s = stamp_view app txn s"
    by (simp add: stamp_view_def split: option.split)
  then have "apply_commit app ?rest s = s2\<lparr>lv_live := lv_live s2 @ files\<rparr>"
    by (simp add: apply_commit_def fold_adds assms(2))
  finally show ?thesis by (simp add: core_def)
qed

lemma stamp_view_simps [simp]:
  "lv_live (stamp_view app txn s) = lv_live s" "lv_trustworthy (stamp_view app txn s) = lv_trustworthy s"
  "lv_txn (stamp_view (Some a) (Some (a, n)) s) = max_txn (lv_txn s) n"
  by (auto simp: stamp_view_def split: option.splits)

lemma core_append:
  assumes "render_commit v meta files [] (Some (a, n)) = Inr body"
  shows "core (apply_commit (Some a) body s) = (lv_live s @ files, max_txn (lv_txn s) n, lv_trustworthy s)"
  using core_rendered [OF assms refl, of "Some a" s] by simp

lemma core_overwrite:
  assumes "render_commit v meta files (lv_live s) (Some (a, n)) = Inr body"
  shows "\<exists>t. core (apply_commit (Some a) body s) = (files, max_txn (lv_txn s) n, t) \<and>
     (distinct (map af_path (lv_live s)) \<longrightarrow> t = lv_trustworthy s)"
proof -
  let ?t = "stamp_view (Some a) (Some (a, n)) s"
  let ?s2 = "fold (apply_action (Some a)) (map (\<lambda>f. Remove (Some (af_path f))) (lv_live s)) ?t"
  have "lv_live ?s2 = []" "lv_txn ?s2 = max_txn (lv_txn s) n"
    using fold_removes [of "Some a" "lv_live s" ?t] by simp_all
  moreover have "distinct (map af_path (lv_live s)) \<Longrightarrow> lv_trustworthy ?s2 = lv_trustworthy s"
    using fold_removes_trust [of "lv_live s" ?t "Some a"] by simp
  ultimately show ?thesis using core_rendered [OF assms refl, of "Some a" s] by auto
qed

text \<open>The stamp the scan reports is the greatest one of the application.\<close>

lemma lv_txn_action:
  "lv_txn (apply_action (Some a) act s) = fold (\<lambda>n t. max_txn t n) (stamp_of a act) (lv_txn s)"
  by (cases "(Some a, act, s)" rule: apply_action.cases) (auto simp: stamp_of_def split: option.splits)

lemma lv_txn_commit: "lv_txn (apply_commit (Some a) body s) = fold (\<lambda>n t. max_txn t n) (stamps a body) (lv_txn s)"
  unfolding apply_commit_def by (induction body arbitrary: s) (simp_all add: lv_txn_action)

lemma lv_txn_replay: "lv_txn (replay (Some a) bs) = fold (\<lambda>n t. max_txn t n) (map fst (app_log a bs)) None"
proof (induction bs rule: rev_induct)
  case (snoc b bs)
  then show ?case by (simp add: replay_append lv_txn_commit o_def)
qed (simp add: replay_def log_view_init_def)

lemma fold_max_txn: "fold (\<lambda>n t. max_txn t n) ns t = (if ns = [] then t else Some (fold max ns (case t of None \<Rightarrow> hd ns | Some c \<Rightarrow> c)))"
  by (induction ns arbitrary: t) (auto simp: max_txn_def max.commute split: option.split)

lemma replay_txn_bound:
  assumes "n \<in> set (map fst (app_log a bs))"
  obtains c where "lv_txn (replay (Some a) bs) = Some c" "n \<le> c"
proof
  have "map fst (app_log a bs) \<noteq> []" using assms by force
  then show "lv_txn (replay (Some a) bs) = Some (fold max (map fst (app_log a bs)) (hd (map fst (app_log a bs))))"
    by (simp add: lv_txn_replay fold_max_txn)
  show "n \<le> fold max (map fst (app_log a bs)) (hd (map fst (app_log a bs)))"
    using assms by (intro fold_max_upper) simp
qed

section \<open>Appends and overwrites keep the writer in step with the log\<close>

lemma objects_frame [simp]:
  "bodies (st\<lparr>ds_objects := x\<rparr>) = bodies st" "log_ok (st\<lparr>ds_objects := x\<rparr>) = log_ok st"
  by (simp_all add: bodies_def log_ok_def)

lemma objects_checkpoint_frame [simp]: "checkpoint_ok app (st\<lparr>ds_objects := x\<rparr>) = checkpoint_ok app st"
  by (simp add: checkpoint_ok_def cong: option.case_cong)

lemma writer_frame [simp]:
  "synced a (st\<lparr>ds_objects := x\<rparr>) w = synced a st w"
  "synced a st (w\<lparr>dw_file_counter := k\<rparr>) = synced a st w"
  "synced a st (w\<lparr>dw_checkpoint_failures := k\<rparr>) = synced a st w"
  "synced a st (w\<lparr>dw_checkpoint_interval := k\<rparr>) = synced a st w"
  by (simp_all add: synced_def)

lemma write_groups_frame:
  "write_groups fc fl w pfx i gs st = (st', r) \<Longrightarrow> st' = st\<lparr>ds_objects := ds_objects st'\<rparr>"
proof (induction fc fl w pfx i gs st arbitrary: st' r rule: write_groups.induct)
  case (2 fc fl w pfx i pv grp gs st)
  from 2(3) consider "st' = st" | "write_groups fc fl w pfx (Suc i) gs st = (st', r)" "total_rows grp = 0"
    | sz r' where "total_rows grp \<noteq> 0" "fc_encode fc grp = Inr sz" "df_put_file fl i = None"
        "write_groups fc fl w pfx (Suc i) gs (put_object (file_path w pfx i pv) grp st) = (st', r')"
    by (auto simp: Let_def split: if_splits sum.splits option.splits prod.splits)
  then show ?case
  proof cases
    case 2
    then show ?thesis using "2.IH"(1) [OF refl refl] by blast
  next
    case 3
    from "2.IH"(2) [OF refl refl 3(1-3) refl 3(4)] show ?thesis by (simp add: put_object_def)
  qed simp
qed simp

lemma write_data_files_frame:
  assumes "write_data_files fc fl bs pfx w st = (st', w', r)"
  shows "st' = st\<lparr>ds_objects := ds_objects st'\<rparr>" "w' = w\<lparr>dw_file_counter := dw_file_counter w'\<rparr>"
  using assms write_groups_frame [of fc fl w pfx 0 _ st st']
  by (auto simp: write_data_files_def split: sum.splits prod.splits)

lemma store_commit_checkpoint:
  assumes "log_ok st" and "checkpoint_ok app st" and "v = length (ds_commits st)"
  shows "checkpoint_ok app (store_commit v body st)"
proof (cases "ds_last_checkpoint st")
  case None
  then show ?thesis by (simp add: checkpoint_ok_def store_commit_def)
next
  case (Some u)
  with assms(2) obtain ck where "map_of (ds_checkpoints st) u = Some (Some ck)" "u < length (ds_commits st)"
      "core (read_checkpoint app ck) = core (replay app (take (Suc u) (bodies st)))"
    by (auto simp: checkpoint_ok_def split: option.splits)
  with Some store_commit_end [OF assms(1,3), of body] assms(3) show ?thesis
    unfolding checkpoint_ok_def by (simp add: store_commit_def)
qed

text \<open>The writer after its commit was acknowledged: one version further, with the stamp and the new live files.\<close>

lemma synced_after_commit:
  assumes "synced a st w" and "dw_next_version w = length (ds_commits st)"
    and "st' = store_commit (dw_next_version w) body st"
    and "core (apply_commit (Some a) body (replay (Some a) (bodies st))) = (live, Some n, t)"
  shows "synced a st' ((after_commit (dw_next_version w) (Some (a, n)) w)\<lparr>dw_live_files := (if t then Some live else None)\<rparr>)"
    "dw_next_version (after_commit (dw_next_version w) (Some (a, n)) w) = length (ds_commits st')"
proof -
  have ok: "log_ok st" "checkpoint_ok (Some a) st" using assms(1) by (simp_all add: synced_def)
  note e = store_commit_end [OF ok(1) assms(2), of body]
  have len: "length (ds_commits st') = Suc (length (ds_commits st))"
    using e(1) assms(3) by (metis bodies_simps(1) length_append_singleton)
  have b: "bodies st' = bodies st @ [body]" using e(1) assms(3) by simp
  have "checkpoint_ok (Some a) st'" using store_commit_checkpoint [OF ok assms(2)] assms(3) by simp
  moreover have "replay (Some a) (bodies st') = apply_commit (Some a) body (replay (Some a) (bodies st))"
    by (simp add: b replay_append)
  then have "lv_txn (replay (Some a) (bodies st')) = Some n" "trusted_files (replay (Some a) (bodies st')) = (if t then Some live else None)"
    using assms(4) by (simp_all add: core_def trusted_files_def)
  ultimately show "synced a st' ((after_commit (dw_next_version w) (Some (a, n)) w)\<lparr>dw_live_files := (if t then Some live else None)\<rparr>)"
    using assms(1,2,3) e(2) len b by (simp add: synced_def after_commit_def)
  show "dw_next_version (after_commit (dw_next_version w) (Some (a, n)) w) = length (ds_commits st')"
    by (simp add: after_commit_def len assms(2))
qed

lemma maybe_checkpoint_bodies: "maybe_checkpoint fl v st w = (st', w') \<Longrightarrow> bodies st' = bodies st"
  by (auto simp: maybe_checkpoint_def write_checkpoint_def Let_def bodies_def split: if_splits sum.splits option.splits prod.splits)

lemma synced_checkpoint:
  assumes "synced a st w" and "dw_next_version w = length (ds_commits st)" and "Suc v = length (ds_commits st)"
    and "maybe_checkpoint fl v st w = (st', w')"
  shows "synced a st' w' \<and> bodies st' = bodies st \<and> ds_objects st' = ds_objects st"
proof -
  have frame: "bodies (st\<lparr>ds_checkpoints := c, ds_last_checkpoint := l\<rparr>) = bodies st" for c l
    by (simp add: bodies_def)
  have hint: "synced a (st\<lparr>ds_checkpoints := AList.update v (Some ck) (ds_checkpoints st), ds_last_checkpoint := Some v\<rparr>) w"
    if "core (read_checkpoint (Some a) ck) = core (replay (Some a) (bodies st))" for ck
    using assms(1-3) that by (simp add: synced_def checkpoint_ok_def log_ok_def frame update_conv')
  have ck: "core (read_checkpoint (Some a) ck) = core (replay (Some a) (bodies st))"
    if "dw_live_files w = Some live" "ck = \<lparr>dc_files = live,
        dc_txns = (case (dw_app_id w, dw_committed_txn w) of (Some x, Some n) \<Rightarrow> [(x, n)] | _ \<Rightarrow> []), dc_metadata = m\<rparr>" for ck live m
    using assms(1,2) that
    by (auto simp: synced_def core_def read_checkpoint_def trusted_files_def max_txn_def split: option.splits if_splits)
  have put: "synced a (st\<lparr>ds_checkpoints := AList.update v (Some ck) (ds_checkpoints st)\<rparr>) w"
    if "core (read_checkpoint (Some a) ck) = core (replay (Some a) (bodies st))" for ck
  proof (cases "ds_last_checkpoint st = Some v")
    case True
    then have "st\<lparr>ds_checkpoints := c\<rparr> = st\<lparr>ds_checkpoints := c, ds_last_checkpoint := Some v\<rparr>" for c by simp
    then show ?thesis using hint [OF that] by simp
  next
    case False
    have "bodies (st\<lparr>ds_checkpoints := c\<rparr>) = bodies st" for c by (simp add: bodies_def)
    with assms(1) False show ?thesis
      by (auto simp: synced_def checkpoint_ok_def log_ok_def update_conv' split: option.splits)
  qed
  show ?thesis
  proof (cases "dw_checkpoint_interval w = 0 \<or> Suc v mod dw_checkpoint_interval w \<noteq> 0 \<or> dw_live_files w = None")
    case True
    with assms(1,4) show ?thesis by (simp add: maybe_checkpoint_def)
  next
    case False
    then obtain live where live: "dw_live_files w = Some live" by auto
    obtain st1 r where wc: "write_checkpoint fl w v st = (st1, r)" by fastforce
    have st1: "synced a st1 w \<and> bodies st1 = bodies st \<and> ds_objects st1 = ds_objects st"
      using wc assms(1) hint [OF ck [OF live refl]] put [OF ck [OF live refl]]
      by (auto simp: write_checkpoint_def Let_def live bodies_def split: sum.splits option.splits)
    have "st' = st1 \<and> synced a st1 w' = synced a st1 w"
      using assms(4) False wc by (cases r) (auto simp: maybe_checkpoint_def Let_def split: if_splits)
    with st1 show ?thesis by simp
  qed
qed

definition wrote :: "string \<Rightarrow> int \<Rightarrow> add_file list \<Rightarrow> delta_store \<Rightarrow> delta_store \<Rightarrow> bool" where
  "wrote a n files st st' \<longleftrightarrow> (\<exists>others body. list_all (\<lambda>b. stamps a b = []) others \<and>
     bodies st' = bodies st @ others @ [body] \<and> stamps a body = [n] \<and> adds body = files)"

definition untouched :: "string \<Rightarrow> delta_store \<Rightarrow> delta_store \<Rightarrow> bool" where
  "untouched a st st' \<longleftrightarrow> (\<exists>others. list_all (\<lambda>b. stamps a b = []) others \<and> bodies st' = bodies st @ others)"

lemma untouched_refl [simp]: "untouched a st st"
  unfolding untouched_def by (intro exI [of _ "[]"]) simp

lemma synced_txn:
  assumes "synced a st w"
  shows "lv_txn (replay (Some a) (bodies st)) = dw_committed_txn w"
proof -
  let ?k = "dw_next_version w"
  have "app_log a (bodies st) = app_log a (take ?k (bodies st)) @ app_log a (drop ?k (bodies st))"
    by (simp flip: app_log_simps(2))
  with assms show ?thesis by (simp add: synced_def lv_txn_replay)
qed

lemma fresh_stamp: "\<not> is_replay (Some n) w \<Longrightarrow> max_txn (dw_committed_txn w) n = Some n"
  by (auto simp: is_replay_def max_txn_def split: option.splits)

text \<open>Data files are named by a fresh identifier each, so no two \<^verbatim>\<open>add\<close> actions of a log name the same path.\<close>

definition paths_unique :: "action list list \<Rightarrow> bool" where
  "paths_unique bs \<longleftrightarrow> distinct (map af_path (concat (map adds bs)))"

lemma live_added_action:
  assumes "mset (lv_live s) \<subseteq># M"
  shows "mset (lv_live (apply_action app act s)) \<subseteq># M + mset (adds [act])"
proof -
  have fil: "mset (filter P (lv_live s)) \<subseteq># M" for P
    using subset_mset.trans [OF multiset_filter_subset assms] by simp
  show ?thesis
  proof (cases act)
    case (Add f)
    then show ?thesis using assms by (cases f) simp_all
  next
    case (Remove p)
    then show ?thesis using assms fil by (cases p) simp_all
  next
    case (Txn x n)
    then show ?thesis using assms by (cases n) simp_all
  qed (use assms in simp_all)
qed

lemma live_added_commit:
  "mset (lv_live s) \<subseteq># M \<Longrightarrow> mset (lv_live (apply_commit app body s)) \<subseteq># M + mset (adds body)"
  unfolding apply_commit_def
proof (induction body arbitrary: s M)
  case (Cons act body)
  from Cons.IH [OF live_added_action [OF Cons.prems, of app act]] show ?case by (simp add: add.assoc)
qed simp

lemma live_added: "mset (lv_live (replay app bs)) \<subseteq># mset (concat (map adds bs))"
proof (induction bs rule: rev_induct)
  case (snoc b bs)
  from live_added_commit [OF snoc, of app b] show ?case by (simp add: replay_append)
qed (simp add: replay_def log_view_init_def)

lemma distinct_sub_mset: "mset xs \<subseteq># mset ys \<Longrightarrow> distinct ys \<Longrightarrow> distinct xs"
proof (unfold distinct_count_atmost_1, intro allI)
  fix x
  assume sub: "mset xs \<subseteq># mset ys" and "\<forall>x. count (mset ys) x = (if x \<in> set ys then 1 else 0)"
  then have "count (mset xs) x \<le> 1" using mset_subset_eq_count [OF sub, of x] by (metis le_trans zero_le_one le_refl)
  moreover have "count (mset xs) x = 0 \<longleftrightarrow> x \<notin> set xs" by (simp add: count_eq_zero_iff)
  ultimately show "count (mset xs) x = (if x \<in> set xs then 1 else 0)" by (auto simp: le_Suc_eq)
qed

lemma live_distinct:
  assumes "paths_unique (bs @ cs)"
  shows "distinct (map af_path (lv_live (replay app bs)))"
proof (rule distinct_sub_mset)
  show "mset (map af_path (lv_live (replay app bs))) \<subseteq># mset (map af_path (concat (map adds bs)))"
    using image_mset_subseteq_mono [OF live_added] by (metis mset_map)
  show "distinct (map af_path (concat (map adds bs)))" using assms by (simp add: paths_unique_def)
qed

text \<open>One attempt to commit stamped files, from the loop to the checkpoint, for an append and for an overwrite.\<close>

lemma stamped_commit:
  assumes "synced a st w" and "foreign_races a fl" and "\<not> is_replay (Some n) w"
    and "commit_inner fl files (Some (a, n)) retire st w = (st2, w2, res)"
  shows "(\<exists>e. res = Inl e) \<and> synced a st2 w2 \<and> untouched a st st2 \<and> ds_objects st2 = ds_objects st \<or>
    wrote a n files st st2 \<and> ds_objects st2 = ds_objects st \<and> log_ok st2 \<and> checkpoint_ok (Some a) st2 \<and>
    (case res of Inl e \<Rightarrow> \<not> acknowledged fl
     | Inr v \<Rightarrow> Suc v = length (ds_commits st2) \<and>
         (\<forall>live t. core (replay (Some a) (bodies st2)) = (live, Some n, t) \<longrightarrow>
            synced a st2 ((after_commit v (Some (a, n)) w2)\<lparr>dw_live_files := (if t then Some live else None)\<rparr>)) \<and>
         (\<exists>live t. core (replay (Some a) (bodies st2)) = (live, Some n, t) \<and>
            (if retire then live = files \<and> (paths_unique (bodies st2) \<longrightarrow> t)
             else (if t then Some live else None) = map_option (\<lambda>l. l @ files) (dw_live_files w2))))"
proof -
  from commit_loop_outcome [OF assms(2,1) assms(4) [unfolded commit_inner_def]]
  show ?thesis
  proof
    assume "commit_missed a st w st2 w2 res"
    then show ?thesis by (auto simp: commit_missed_def untouched_def land_others_def [THEN arg_cong [where f = ds_objects]])
  next
    assume "commit_landed a fl files (Some (a, n)) retire st w st2 w2 res"
    then obtain others body removes where o: "list_all (\<lambda>b. stamps a b = []) others"
        "synced a (land_others others st) w2" "dw_next_version w2 = length (ds_commits (land_others others st))"
        "if retire then dw_live_files w2 = Some removes else removes = []"
        "render_commit (dw_next_version w2) (dw_metadata w) files removes (Some (a, n)) = Inr body"
        "st2 = store_commit (dw_next_version w2) body (land_others others st)"
        "res = Inr (dw_next_version w2) \<or> (\<exists>e. res = Inl e) \<and> \<not> acknowledged fl"
      unfolding commit_landed_def by blast
    define st1 where "st1 = land_others others st"
    note sy = o(2) [folded st1_def] and len = o(3) [folded st1_def] and st2 = o(6) [folded st1_def]
    have ok: "log_ok st1" "checkpoint_ok (Some a) st1" using sy by (simp_all add: synced_def)
    have b2: "bodies st2 = bodies st1 @ [body]" "log_ok st2" using store_commit_end [OF ok(1) len] st2 by simp_all
    have ck2: "checkpoint_ok (Some a) st2" using store_commit_checkpoint [OF ok len] st2 by simp
    have wr: "wrote a n files st st2"
      unfolding wrote_def using o(1) b2(1) render_commit_stamps [OF o(5)] by (auto simp: st1_def)
    have obj: "ds_objects st2 = ds_objects st" by (simp add: st2 st1_def store_commit_def land_others_def)
    let ?s = "replay (Some a) (bodies st1)"
    have "dw_committed_txn w2 = dw_committed_txn w"
      using synced_txn [OF sy] synced_txn [OF synced_land [OF assms(1) o(1)]] by (simp add: st1_def)
    then have mx: "max_txn (lv_txn ?s) n = Some n" using fresh_stamp [OF assms(3)] synced_txn [OF sy] by simp
    have r2: "replay (Some a) (bodies st2) = apply_commit (Some a) body ?s" by (simp add: b2 replay_append)
    have lf: "dw_live_files w2 = trusted_files ?s" using sy len by (simp add: synced_def)
    have view: "\<exists>live t. core (replay (Some a) (bodies st2)) = (live, Some n, t) \<and>
            (if retire then live = files \<and> (paths_unique (bodies st2) \<longrightarrow> t)
             else (if t then Some live else None) = map_option (\<lambda>l. l @ files) (dw_live_files w2))"
    proof (cases retire)
      case True
      with o(4) lf have rm: "removes = lv_live ?s" "lv_trustworthy ?s" by (auto simp: trusted_files_def split: if_splits)
      with o(5) have "render_commit (dw_next_version w2) (dw_metadata w) files (lv_live ?s) (Some (a, n)) = Inr body" by simp
      from core_overwrite [OF this] obtain t where "core (replay (Some a) (bodies st2)) = (files, Some n, t)"
          "distinct (map af_path (lv_live ?s)) \<longrightarrow> t"
        using mx r2 rm(2) by auto
      then show ?thesis using live_distinct [of "bodies st1" "[body]" "Some a"] b2(1) True by auto
    next
      case False
      with o(4,5) core_append [of _ _ files a n body ?s] mx r2 lf show ?thesis
        by (auto simp: trusted_files_def)
    qed
    have acc: "Suc v = length (ds_commits st2) \<and>
         (\<forall>live t. core (replay (Some a) (bodies st2)) = (live, Some n, t) \<longrightarrow>
            synced a st2 ((after_commit v (Some (a, n)) w2)\<lparr>dw_live_files := (if t then Some live else None)\<rparr>))"
      if "v = dw_next_version w2" for v
      using synced_after_commit [OF sy len st2] r2 b2(1) len that
      by (metis bodies_simps(1) length_append_singleton)
    from o(7) show ?thesis
    proof
      assume "res = Inr (dw_next_version w2)"
      then show ?thesis using wr obj b2(2) ck2 view acc [OF refl] by (intro disjI2) (simp only: sum.case simp_thms, blast)
    next
      assume "(\<exists>e. res = Inl e) \<and> \<not> acknowledged fl"
      then show ?thesis using wr obj b2(2) ck2 by auto
    qed
  qed
qed

text \<open>The outcome of an append or an overwrite stamped with batch \<^term>\<open>n\<close>.\<close>

definition stamped_outcome ::
  "string \<Rightarrow> delta_faults \<Rightarrow> int \<Rightarrow> nat \<Rightarrow> delta_store \<Rightarrow> delta_store \<Rightarrow> delta_writer \<Rightarrow> delta_commit result \<Rightarrow> bool" where
  "stamped_outcome a fl n rows st st' w' res \<longleftrightarrow>
     log_ok st' \<and> checkpoint_ok (Some a) st' \<and> (acknowledged fl \<longrightarrow> synced a st' w') \<and>
     (case res of
        Inl e \<Rightarrow> untouched a st st' \<or> \<not> acknowledged fl \<and> (\<exists>files. wrote a n files st st')
      | Inr k \<Rightarrow> wrote a n (dk_files k) st st' \<and> dk_rows k = rows \<and> \<not> dk_deduplicated k)"

lemma synced_ok: "synced a st w \<Longrightarrow> log_ok st \<and> checkpoint_ok (Some a) st"
  by (simp add: synced_def)

lemma data_step:
  assumes "write_data_files fc fl bs pfx w st = (st1, w1, r1)" and "synced a st w" and "\<not> is_replay (Some n) w"
  shows "synced a st1 w1" "bodies st1 = bodies st" "\<not> is_replay (Some n) w1" "txn_stamp (Some n) w1 = Some (a, n)"
    "dw_live_files w1 = dw_live_files w"
proof -
  note fr = write_data_files_frame [OF assms(1)]
  show "synced a st1 w1" by (subst fr(1), subst fr(2)) (simp add: assms(2))
  show "bodies st1 = bodies st" by (subst fr(1)) simp
  show "\<not> is_replay (Some n) w1" using assms(3) by (subst fr(2)) (simp add: is_replay_def)
  show "txn_stamp (Some n) w1 = Some (a, n)" using assms(2) by (subst fr(2)) (simp add: txn_stamp_def synced_def)
  show "dw_live_files w1 = dw_live_files w" by (subst fr(2)) simp
qed

lemma delta_append_outcome:
  assumes "synced a st w" and "foreign_races a fl" and "\<not> is_replay (Some n) w" and "total_rows bs \<noteq> 0"
    and "delta_append fc fl bs pfx (Some n) st w = (st', w', res)"
  shows "stamped_outcome a fl n (total_rows bs) st st' w' res"
proof -
  obtain st1 w1 r1 where wd: "write_data_files fc fl bs pfx w st = (st1, w1, r1)" by (metis prod_cases3)
  note d = data_step [OF wd assms(1,3)]
  note sy1 = d(1) and b1 = d(2) and nr = d(3) and ap = d(4)
  show ?thesis
  proof (cases r1)
    case (Inl e)
    with assms(3,4,5) wd have "st' = st1" "w' = w1" "res = Inl e" by (simp_all add: delta_append_def)
    with sy1 synced_ok [OF sy1] b1 show ?thesis by (simp add: stamped_outcome_def untouched_def)
  next
    case (Inr files)
    obtain st2 w2 r2 where ci: "commit_inner fl files (Some (a, n)) False st1 w1 = (st2, w2, r2)" by (metis prod_cases3)
    have lift: "untouched a st1 x = untouched a st x" "wrote a n fs st1 x = wrote a n fs st x" for x fs
      by (simp_all add: untouched_def wrote_def b1)
    note sc = stamped_commit [OF sy1 assms(2) nr ci, unfolded lift]
    show ?thesis
    proof (cases r2)
      case (Inl e)
      with assms(3,4,5) wd Inr ci have "st' = st2" "w' = w2" "res = Inl e" by (simp_all add: delta_append_def ap)
      with sc Inl synced_ok [of a st2 w2] show ?thesis by (auto simp: stamped_outcome_def)
    next
      case v: (Inr v)
      let ?w3 = "after_commit v (Some (a, n)) w2"
      let ?w4 = "?w3\<lparr>dw_live_files := map_option (\<lambda>l. l @ files) (dw_live_files ?w3)\<rparr>"
      obtain st3 w5 where mc: "maybe_checkpoint fl v st2 ?w4 = (st3, w5)" by fastforce
      have res: "st' = st3" "w' = w5"
          "res = Inr \<lparr>dk_version = v, dk_rows = total_rows bs, dk_files = files, dk_deduplicated = False\<rparr>"
        using assms(3,4,5) wd Inr ci v mc by (simp_all add: delta_append_def ap Let_def)
      obtain live t where lt: "core (replay (Some a) (bodies st2)) = (live, Some n, t)"
          "(if t then Some live else None) = map_option (\<lambda>l. l @ files) (dw_live_files w2)"
        using sc v by auto
      have "dw_live_files ?w3 = dw_live_files w2" by (simp add: after_commit_def)
      with sc v lt have sy4: "synced a st2 ?w4" and len: "Suc v = length (ds_commits st2)" by auto
      have "dw_next_version ?w4 = length (ds_commits st2)" using len by (simp add: after_commit_def)
      from synced_checkpoint [OF sy4 this len mc] sc v res synced_ok [of a st3 w5] show ?thesis
        by (auto simp: stamped_outcome_def wrote_def)
    qed
  qed
qed

lemma delta_replace_outcome:
  assumes "synced a st w" and "foreign_races a fl" and "\<not> is_replay (Some n) w" and "dw_live_files w \<noteq> None"
    and "delta_replace fc fl bs pfx (Some n) st w = (st', w', res)" and "paths_unique (bodies st')"
  shows "stamped_outcome a fl n (total_rows bs) st st' w' res \<and>
    (case res of Inl e \<Rightarrow> True | Inr k \<Rightarrow> lv_live (replay (Some a) (bodies st')) = dk_files k)"
proof -
  obtain st1 w1 r1 where wd: "write_data_files fc fl bs pfx w st = (st1, w1, r1)" by (metis prod_cases3)
  obtain l where l: "dw_live_files w = Some l" using assms(4) by auto
  note d = data_step [OF wd assms(1,3)]
  note sy1 = d(1) and b1 = d(2) and nr = d(3) and ap = d(4)
  show ?thesis
  proof (cases r1)
    case (Inl e)
    with assms(3,5) l wd have "st' = st1" "w' = w1" "res = Inl e" by (simp_all add: delta_replace_def)
    with sy1 synced_ok [OF sy1] b1 show ?thesis by (simp add: stamped_outcome_def untouched_def)
  next
    case (Inr files)
    obtain st2 w2 r2 where ci: "commit_inner fl files (Some (a, n)) True st1 w1 = (st2, w2, r2)" by (metis prod_cases3)
    have lift: "untouched a st1 x = untouched a st x" "wrote a n fs st1 x = wrote a n fs st x" for x fs
      by (simp_all add: untouched_def wrote_def b1)
    note sc = stamped_commit [OF sy1 assms(2) nr ci, unfolded lift]
    show ?thesis
    proof (cases r2)
      case (Inl e)
      with assms(3,5) l wd Inr ci have "st' = st2" "w' = w2" "res = Inl e" by (simp_all add: delta_replace_def ap)
      with sc Inl synced_ok [of a st2 w2] show ?thesis by (auto simp: stamped_outcome_def)
    next
      case v: (Inr v)
      let ?w3 = "(after_commit v (Some (a, n)) w2)\<lparr>dw_live_files := Some files\<rparr>"
      obtain st3 w5 where mc: "maybe_checkpoint fl v st2 ?w3 = (st3, w5)" by fastforce
      have res: "st' = st3" "w' = w5"
          "res = Inr \<lparr>dk_version = v, dk_rows = total_rows bs, dk_files = files, dk_deduplicated = False\<rparr>"
        using assms(3,5) l wd Inr ci v mc by (simp_all add: delta_replace_def ap Let_def)
      have len: "Suc v = length (ds_commits st2)" using sc v by auto
      obtain live t where lt: "core (replay (Some a) (bodies st2)) = (live, Some n, t)" "live = files"
          "paths_unique (bodies st2) \<longrightarrow> t"
        using sc v by auto
      have same: "bodies st3 = bodies st2" using mc by (rule maybe_checkpoint_bodies)
      with lt(3) assms(6) res have t: "t = True" by simp
      have "synced a st2 ?w3" using sc v lt(1,2) unfolding t by auto
      moreover have "dw_next_version ?w3 = length (ds_commits st2)" using len by (simp add: after_commit_def)
      ultimately have "synced a st3 w5" using synced_checkpoint [OF _ _ len mc] by blast
      moreover have "lv_live (replay (Some a) (bodies st3)) = files" using lt(1,2) same by (simp add: core_def)
      ultimately show ?thesis using sc v res synced_ok [of a st3 w5] same
        by (auto simp: stamped_outcome_def wrote_def)
    qed
  qed
qed

section \<open>Histories of a table\<close>

definition empty_store :: delta_store where
  "empty_store = \<lparr>ds_commits = [], ds_checkpoints = [], ds_last_checkpoint = None, ds_objects = []\<rparr>"

text \<open>
  A history of one application's writers on a table: appends and overwrites whose acknowledgements
  arrive, calls in which the process dies at any point of the commit and a new writer opens the table,
  and commits by other writers at any time.
\<close>

inductive delta_run :: "string \<Rightarrow> file_codec \<Rightarrow> delta_store \<Rightarrow> delta_writer \<Rightarrow> bool" for a :: string and fc :: file_codec where
  run_open: "writer_open root fs meta (Some a) cols iv None empty_store = Inr w \<Longrightarrow> delta_run a fc empty_store w"
| run_append: "delta_run a fc st w \<Longrightarrow> foreign_races a fl \<Longrightarrow> acknowledged fl \<Longrightarrow>
    delta_append fc fl bs pfx (Some n) st w = (st', w', res) \<Longrightarrow> delta_run a fc st' w'"
| run_replace: "delta_run a fc st w \<Longrightarrow> foreign_races a fl \<Longrightarrow> acknowledged fl \<Longrightarrow>
    delta_replace fc fl bs pfx (Some n) st w = (st', w', res) \<Longrightarrow> paths_unique (bodies st') \<Longrightarrow> delta_run a fc st' w'"
| run_crash_append: "delta_run a fc st w \<Longrightarrow> foreign_races a fl \<Longrightarrow>
    delta_append fc fl bs pfx (Some n) st w = (st', w1, res) \<Longrightarrow>
    writer_open root fs meta (Some a) cols iv None st' = Inr w' \<Longrightarrow> delta_run a fc st' w'"
| run_crash_replace: "delta_run a fc st w \<Longrightarrow> foreign_races a fl \<Longrightarrow>
    delta_replace fc fl bs pfx (Some n) st w = (st', w1, res) \<Longrightarrow> paths_unique (bodies st') \<Longrightarrow>
    writer_open root fs meta (Some a) cols iv None st' = Inr w' \<Longrightarrow> delta_run a fc st' w'"
| run_others: "delta_run a fc st w \<Longrightarrow> list_all (\<lambda>b. stamps a b = []) bs \<Longrightarrow> delta_run a fc (land_others bs st) w"

definition run_inv :: "string \<Rightarrow> delta_store \<Rightarrow> bool" where
  "run_inv a st \<longleftrightarrow> log_ok st \<and> checkpoint_ok (Some a) st \<and> sorted_wrt (<) (map fst (app_log a (bodies st)))"

lemma synced_open:
  assumes "writer_open root fs meta (Some a) cols iv None st = Inr w" and "log_ok st" and "checkpoint_ok (Some a) st"
  shows "synced a st w"
proof -
  obtain w0 where w: "w = adopt_log (log_read (Some a) st) w0" "dw_app_id w0 = Some a"
    using assms(1) by (auto simp: writer_open_def)
  then show ?thesis using assms(2,3) log_read_replay [OF assms(2,3)] by (simp add: synced_def adopt_log_def)
qed

lemma untouched_log: "untouched a st st' \<Longrightarrow> app_log a (bodies st') = app_log a (bodies st)"
  unfolding untouched_def by (elim exE conjE) simp

lemma inv_untouched: "run_inv a st \<Longrightarrow> untouched a st st' \<Longrightarrow> log_ok st' \<Longrightarrow> checkpoint_ok (Some a) st' \<Longrightarrow> run_inv a st'"
  unfolding run_inv_def by (simp add: untouched_log)

lemma wrote_log: "wrote a n files st st' \<Longrightarrow> app_log a (bodies st') = app_log a (bodies st) @ [(n, files)]"
  unfolding wrote_def by (elim exE conjE) simp

lemma stamp_above:
  assumes "synced a st w" and "\<not> is_replay (Some n) w" and "m \<in> set (map fst (app_log a (bodies st)))"
  shows "m < n"
proof -
  obtain c where "lv_txn (replay (Some a) (bodies st)) = Some c" "m \<le> c" using assms(3) by (rule replay_txn_bound)
  then show ?thesis using synced_txn [OF assms(1)] assms(2) by (simp add: is_replay_def)
qed

lemma inv_wrote:
  assumes "run_inv a st" and "synced a st w" and "\<not> is_replay (Some n) w" and "wrote a n files st st'"
    and "log_ok st'" and "checkpoint_ok (Some a) st'"
  shows "run_inv a st'"
  using assms(1,5,6) stamp_above [OF assms(2,3)] unfolding run_inv_def wrote_log [OF assms(4)]
  by (auto simp: sorted_wrt_append)

lemma inv_outcome:
  assumes "run_inv a st" and "synced a st w" and "\<not> is_replay (Some n) w" and "stamped_outcome a fl n rows st st' w' res"
  shows "run_inv a st' \<and> (acknowledged fl \<longrightarrow> synced a st' w')"
  using assms(4) inv_wrote [OF assms(1-3)] inv_untouched [OF assms(1)]
  by (auto simp: stamped_outcome_def split: sum.splits)

lemma append_inv:
  assumes "run_inv a st" and "synced a st w" and "foreign_races a fl"
    and "delta_append fc fl bs pfx (Some n) st w = (st', w', res)"
  shows "run_inv a st' \<and> (acknowledged fl \<longrightarrow> synced a st' w')"
proof (cases "total_rows bs = 0 \<or> is_replay (Some n) w")
  case True
  then show ?thesis using assms by (auto simp: delta_append_def split: if_splits)
next
  case False
  then show ?thesis using inv_outcome [OF assms(1,2)] delta_append_outcome [OF assms(2,3) _ _ assms(4)] by blast
qed

lemma replace_inv:
  assumes "run_inv a st" and "synced a st w" and "foreign_races a fl"
    and "delta_replace fc fl bs pfx (Some n) st w = (st', w', res)" and "paths_unique (bodies st')"
  shows "run_inv a st' \<and> (acknowledged fl \<longrightarrow> synced a st' w')"
proof (cases "is_replay (Some n) w \<or> dw_live_files w = None")
  case True
  then show ?thesis using assms by (auto simp: delta_replace_def split: if_splits)
next
  case False
  then show ?thesis using inv_outcome [OF assms(1,2)] delta_replace_outcome [OF assms(2,3) _ _ assms(4,5)] by blast
qed

lemma delta_run_inv: "delta_run a fc st w \<Longrightarrow> run_inv a st \<and> synced a st w"
proof (induction rule: delta_run.induct)
  case (run_open root fs meta cols iv w)
  have ok: "log_ok empty_store" "checkpoint_ok (Some a) empty_store" "bodies empty_store = []"
    by (simp_all add: empty_store_def log_ok_def checkpoint_ok_def bodies_def)
  then show ?case using synced_open [OF run_open ok(1,2)] by (simp add: run_inv_def)
next
  case (run_append st w fl bs pfx n st' w' res)
  then show ?case using append_inv by blast
next
  case (run_replace st w fl bs pfx n st' w' res)
  then show ?case using replace_inv by blast
next
  case (run_crash_append st w fl bs pfx n st' w1 res root fs meta cols iv w')
  then have "run_inv a st'" using append_inv by blast
  then show ?case using synced_open [OF run_crash_append.hyps(4)] by (simp add: run_inv_def)
next
  case (run_crash_replace st w fl bs pfx n st' w1 res root fs meta cols iv w')
  then have "run_inv a st'" using replace_inv by blast
  then show ?case using synced_open [OF run_crash_replace.hyps(5)] by (simp add: run_inv_def)
next
  case (run_others st w bs)
  then show ?case using synced_land [of a st w bs] by (auto simp: run_inv_def synced_def)
qed

section \<open>Properties\<close>

text \<open>A small table the examples write to, and the environments they run in.\<close>

definition demo_batch :: "int \<Rightarrow> record_batch" where
  "demo_batch n = \<lparr>rb_schema = [\<lparr>f_name = ''n'', f_type = Int64\<rparr>], rb_rows = [[IntCell n]]\<rparr>"

definition demo_codec :: file_codec where
  "demo_codec = \<lparr>fc_display = \<lambda>_ _. [], fc_encode = \<lambda>_. Inr 10, fc_stats = \<lambda>_ _. [], fc_path_part = \<lambda>s. s\<rparr>"

definition calm :: delta_faults where
  "calm = \<lparr>df_put_file = \<lambda>_. None, df_race = \<lambda>_. \<lparr>rc_before = [], rc_reply = Stored, rc_read = None\<rparr>,
     df_checkpoint = None, df_hint = None\<rparr>"


definition demo_writer :: "string \<Rightarrow> nat \<Rightarrow> delta_store \<Rightarrow> delta_writer" where
  "demo_writer a iv st =
     (case writer_open ''tbl'' [\<lparr>f_name = ''n'', f_type = Int64\<rparr>] (Inr \<lparr>dm_schema = [], dm_partition_columns = []\<rparr>)
        (Some a) [] iv None st of Inr w \<Rightarrow> w)"

definition demo_append :: "delta_faults \<Rightarrow> string \<Rightarrow> int \<Rightarrow> delta_store \<times> delta_writer \<Rightarrow> delta_store \<times> delta_writer" where
  "demo_append fl pfx n = (\<lambda>(st, w). case delta_append demo_codec fl [demo_batch n] pfx (Some n) st w of (st', w', _) \<Rightarrow> (st', w'))"

definition demo_table :: "delta_store \<times> delta_writer" where
  "demo_table = demo_append calm ''p2'' 2 (demo_append calm ''p1'' 1 (empty_store, demo_writer ''q'' 1 empty_store))"

lemma demo_open: "writer_open ''tbl'' [\<lparr>f_name = ''n'', f_type = Int64\<rparr>] (Inr \<lparr>dm_schema = [], dm_partition_columns = []\<rparr>)
        (Some a) [] iv None st = Inr (demo_writer a iv st)"
  by (simp add: demo_writer_def writer_open_def data_file_schema_def)

lemma calm_ok: "foreign_races a calm" "acknowledged calm"
  by (simp_all add: foreign_races_def acknowledged_def calm_def)

lemma demo_append_run: "delta_run a demo_codec (fst s) (snd s) \<Longrightarrow> delta_run a demo_codec (fst (demo_append calm pfx n s)) (snd (demo_append calm pfx n s))"
  by (auto simp: demo_append_def split: prod.splits intro: run_append calm_ok)

lemma demo_run: "delta_run ''q'' demo_codec (fst demo_table) (snd demo_table)"
  unfolding demo_table_def by (intro demo_append_run) (simp add: run_open [OF demo_open])









text \<open>
  C16. An overwrite leaves exactly the files it wrote live, also when it lost races and other writers
  added files before it could commit.
\<close>

theorem overwrite_exact:
  assumes "delta_run a fc st w" and "foreign_races a fl" and "paths_unique (bodies st')"
    and "delta_replace fc fl bs pfx (Some n) st w = (st', w', Inr k)" and "\<not> dk_deduplicated k"
  shows "ls_live_files (log_read (Some a) st') = trusted_files (replay (Some a) (bodies st')) \<and>
         lv_live (replay (Some a) (bodies st')) = dk_files k \<and> dk_rows k = total_rows bs"
proof -
  have sy: "synced a st w" using delta_run_inv [OF assms(1)] by simp
  have "\<not> is_replay (Some n) w" "dw_live_files w \<noteq> None"
    using assms(4,5) by (auto simp: delta_replace_def split: if_splits)
  from delta_replace_outcome [OF sy assms(2) this assms(4,3)] log_read_replay [of st' "Some a"]
  show ?thesis by (simp add: stamped_outcome_def)
qed

theorem overwrite_exact_witness:
  "case delta_replace demo_codec calm [demo_batch 5] ''p3'' (Some 3) (fst demo_table) (snd demo_table) of
     (st', w', Inr k) \<Rightarrow> lv_live (replay (Some ''q'') (bodies st')) = dk_files k \<and> length (dk_files k) = 1
   | _ \<Rightarrow> False"
proof -
  let ?r = "delta_replace demo_codec calm [demo_batch 5] ''p3'' (Some 3) (fst demo_table) (snd demo_table)"
  have "case ?r of (st', w', Inr k) \<Rightarrow> paths_unique (bodies st') \<and> \<not> dk_deduplicated k \<and> length (dk_files k) = 1 | _ \<Rightarrow> False"
    by code_simp
  then obtain st' w' k where r: "?r = (st', w', Inr k)" "paths_unique (bodies st')" "\<not> dk_deduplicated k" "length (dk_files k) = 1"
    by (auto split: prod.splits sum.splits)
  with overwrite_exact [OF demo_run calm_ok(1) r(2,1,3)] show ?thesis by simp
qed



end
