(* ===== verification/Lake_Sink.thy ===== *)
theory Lake_Sink
  imports Micro_Batch Delta_Table
begin

text \<open>
  The sinks of a streaming query (\<^verbatim>\<open>oxidant-streaming/src/lake_sink.rs\<close> and \<^verbatim>\<open>sink.rs\<close>): naming a table,
  opening it against a catalog, writing and replacing a micro-batch of a Delta or Parquet table, and
  the local file and memory sinks. The Delta sink is shown to meet the contract of a transactional
  sink.

  A catalog, the object stores and the table identity are functions of a \<^verbatim>\<open>lake_engine\<close>. The Iceberg
  metadata published beside a Delta table and the reader cache invalidated after a commit are best
  effort in the code and have no influence on the result of a write; they are left out.
\<close>

section \<open>Formats and names\<close>

datatype table_format = Parquet | Delta | Iceberg | Csv | Json

definition from_provider :: "string \<Rightarrow> table_format option" where
  "from_provider s =
     (let p = to_ascii_lowercase (trim s) in
      if p = ''parquet'' then Some Parquet
      else if p = ''delta'' then Some Delta
      else if p = ''iceberg'' then Some Iceberg
      else if p = ''csv'' then Some Csv
      else if p = ''json'' then Some Json
      else None)"

fun split_ident_loop :: "string \<Rightarrow> string list \<Rightarrow> string \<Rightarrow> bool \<Rightarrow> string list" where
  "split_ident_loop [] parts cur in_quote = parts @ [cur]"
| "split_ident_loop (ch # rest) parts cur in_quote =
     (if ch = CHR ''`'' then split_ident_loop rest parts cur (\<not> in_quote)
      else if ch = CHR ''.'' \<and> \<not> in_quote then split_ident_loop rest (parts @ [cur]) [] in_quote
      else split_ident_loop rest parts (cur @ [ch]) in_quote)"

definition split_ident :: "string \<Rightarrow> string list" where
  "split_ident ident = filter (\<lambda>p. p \<noteq> []) (split_ident_loop ident [] [] False)"

record lake_target =
  lt_catalog :: "string option"
  lt_namespace :: "string list"
  lt_table :: string
  lt_format :: table_format
  lt_location :: "string option"

definition from_table_identifier ::
  "string \<Rightarrow> string \<Rightarrow> string list \<Rightarrow> table_format \<Rightarrow> string option \<Rightarrow> lake_target result" where
  "from_table_identifier identifier current_catalog current_namespace format location =
     rbind (case split_ident identifier of
              [c, d, t] \<Rightarrow> Inr (c, [d], t)
            | [d, t] \<Rightarrow> Inr (current_catalog, [d], t)
            | [t] \<Rightarrow>
                if current_namespace = [] then
                  Inl (Plan (''writeStream.toTable(`'' @ identifier @ ''`): no current database '' @ em_dash @
                             '' qualify the name as `database.table` or run `USE <database>` first''))
                else Inr (current_catalog, current_namespace, t)
            | _ \<Rightarrow> Inl (Plan (''writeStream.toTable(`'' @ identifier @
                             ''`): expected `table`, `database.table`, or `catalog.database.table`'')))
       (\<lambda>(catalog, namespace, table).
          Inr \<lparr>lt_catalog = Some catalog, lt_namespace = namespace, lt_table = table, lt_format = format,
               lt_location = location\<rparr>)"

definition location_only :: "string \<Rightarrow> table_format \<Rightarrow> lake_target" where
  "location_only location format =
     \<lparr>lt_catalog = None, lt_namespace = [], lt_table = [], lt_format = format, lt_location = Some location\<rparr>"

definition display_name :: "lake_target \<Rightarrow> string" where
  "display_name t =
     (case lt_catalog t of
        Some c \<Rightarrow> c @ ''.'' @ join ''.'' (lt_namespace t) @ ''.'' @ lt_table t
      | None \<Rightarrow> (case lt_location t of None \<Rightarrow> [] | Some l \<Rightarrow> l))"

primrec format_name :: "table_format \<Rightarrow> string" where
  "format_name Parquet = ''parquet''"
| "format_name Delta = ''delta''"
| "format_name Iceberg = ''iceberg''"
| "format_name Csv = ''csv''"
| "format_name Json = ''json''"

text \<open>The derived \<^verbatim>\<open>Debug\<close> of a format: the name of its constructor.\<close>

primrec debug_format :: "table_format \<Rightarrow> string" where
  "debug_format Parquet = ''Parquet''"
| "debug_format Delta = ''Delta''"
| "debug_format Iceberg = ''Iceberg''"
| "debug_format Csv = ''Csv''"
| "debug_format Json = ''Json''"

definition writable_format :: "string \<Rightarrow> table_format result" where
  "writable_format format =
     (case from_provider format of
        Some Delta \<Rightarrow> Inr Delta
      | Some Parquet \<Rightarrow> Inr Parquet
      | Some Iceberg \<Rightarrow>
          Inl (Unsupported (''writeStream.format(\"iceberg\") is not a sink format '' @ em_dash @ '' use format(\"delta\"), which '' @
            ''publishes Iceberg metadata over the same Parquet files. The table is then readable '' @
            ''by Spark and Athena as Delta and by Trino, Athena, and DuckDB as Iceberg. Turn the '' @
            ''Iceberg side off with .option(\"icebergCompat\", \"false\").''))
      | Some other \<Rightarrow>
          Inl (Unsupported (''writeStream.format(\"'' @ format_name other @ ''\") is not a table sink '' @ em_dash @
            '' use \"delta\" or \"parquet\"''))
      | None \<Rightarrow>
          Inl (Unsupported (''unknown writeStream format `'' @ format @ ''` '' @ em_dash @ '' use \"delta\" or \"parquet\"'')))"

text \<open>The first column-level difference of two schemas. Nullability is not compared, here or in the code.\<close>

fun first_difference :: "(data_type \<Rightarrow> string) \<Rightarrow> (field \<times> field) list \<Rightarrow> string option" where
  "first_difference show_type [] = None"
| "first_difference show_type ((d, p) # rest) =
     (if f_name d \<noteq> f_name p then
        Some (''column `'' @ f_name d @ ''` in the table is `'' @ f_name p @ ''` in the query'')
      else if f_type d \<noteq> f_type p then
        Some (''column `'' @ f_name d @ ''` is '' @ show_type (f_type d) @ '' in the table but '' @
              show_type (f_type p) @ '' in the query'')
      else first_difference show_type rest)"

definition column_mismatch :: "(data_type \<Rightarrow> string) \<Rightarrow> field list \<Rightarrow> field list \<Rightarrow> string option" where
  "column_mismatch show_type declared produced =
     (if length declared \<noteq> length produced then
        Some (''the table has '' @ show_nat (length declared) @ '' columns, the query produces '' @
              show_nat (length produced))
      else first_difference show_type (zip declared produced))"

section \<open>Opening a table\<close>

record table_metadata =
  tm_name :: string
  tm_location :: string
  tm_format :: table_format
  tm_schema :: "field list option"
  tm_storage_options :: "string \<rightharpoonup> string"
  tm_partition_columns :: "string list"
  tm_comment :: "string option"
  tm_properties :: "string \<rightharpoonup> string"
  tm_column_comments :: "string \<rightharpoonup> string"

text \<open>What a catalog answers to the calls \<^verbatim>\<open>open\<close> makes of it.\<close>

record catalog_provider =
  cp_create_database :: "string \<Rightarrow> unit result"
  cp_table_exists :: "string list \<Rightarrow> string \<Rightarrow> bool result"
  cp_load_table :: "string list \<Rightarrow> string \<Rightarrow> table_metadata result"
  cp_create_table :: "string list \<Rightarrow> string \<Rightarrow> field list \<Rightarrow> table_format \<Rightarrow> string option \<Rightarrow> string list \<Rightarrow> table_metadata result"

text \<open>
  The services a sink relies on: registered catalogs, object stores, the URL parser, the table
  identifier, the check that a schema has an Iceberg form, the \<^verbatim>\<open>metaData\<close> action of a schema,
  the Parquet encoder, and the read of the log at the start. Schemas are compared with their nullability and metadata, which
  a \<^verbatim>\<open>field\<close> does not carry, so \<^verbatim>\<open>le_schema_eq\<close> is the comparison.
\<close>

record lake_engine =
  le_catalog :: "string \<Rightarrow> catalog_provider option"
  le_object_store :: "string \<Rightarrow> (string \<rightharpoonup> string) \<Rightarrow> unit result"
  le_url_prefix :: "string \<Rightarrow> string + string"
  le_table_id :: "string \<Rightarrow> string"
  le_uniform :: "string \<Rightarrow> field list \<Rightarrow> string list \<Rightarrow> string \<Rightarrow> unit result"
  le_metadata :: "string \<Rightarrow> field list \<Rightarrow> string list \<Rightarrow> delta_metadata result"
  le_log_error :: "string option"
  le_codec :: file_codec
  le_encode_parquet :: "field list \<Rightarrow> record_batch list \<Rightarrow> nat result"
  le_schema_eq :: "record_batch \<Rightarrow> field list \<Rightarrow> bool"
  le_show_type :: "data_type \<Rightarrow> string"
  le_show_batch_schema :: "record_batch \<Rightarrow> string"
  le_show_schema :: "field list \<Rightarrow> string"

record lake_sink_options =
  lo_app_id :: "string option"
  lo_partition_columns :: "string list"
  lo_publish_iceberg :: bool
  lo_iceberg_table_suffix :: string
  lo_checkpoint_interval :: nat

datatype lake_writer = DeltaWriter delta_writer | ParquetWriter

record lake_sink =
  ls_target :: lake_target
  ls_schema :: "field list"
  ls_root :: string
  ls_writer :: lake_writer
  ls_options :: lake_sink_options
  ls_uniform :: bool
  ls_location :: string

definition table_root_prefix :: "lake_engine \<Rightarrow> string \<Rightarrow> string result" where
  "table_root_prefix eng location =
     (case le_url_prefix eng location of
        Inl e \<Rightarrow> Inl (Plan (''bad table location `'' @ location @ ''`: '' @ e))
      | Inr p \<Rightarrow> Inr p)"

text \<open>The metadata of the target in a catalog: the table that is there if it fits, or a new one.\<close>

definition resolve_in_catalog ::
  "lake_engine \<Rightarrow> string \<Rightarrow> lake_target \<Rightarrow> field list \<Rightarrow> lake_sink_options \<Rightarrow> table_metadata result" where
  "resolve_in_catalog eng catalog_name target schema options =
     (case le_catalog eng catalog_name of
        None \<Rightarrow> Inl (Plan (''writeStream target catalog `'' @ catalog_name @ ''` is not registered''))
      | Some catalog \<Rightarrow>
          rbind (cp_create_database catalog (join ''.'' (lt_namespace target))) (\<lambda>_.
          rbind (cp_table_exists catalog (lt_namespace target) (lt_table target)) (\<lambda>present.
          if present then
            rbind (cp_load_table catalog (lt_namespace target) (lt_table target)) (\<lambda>existing.
            if tm_format existing \<noteq> lt_format target then
              Inl (Plan (''`'' @ display_name target @ ''` already exists as '' @ debug_format (tm_format existing) @
                '', but the stream writes '' @ debug_format (lt_format target) @ '' '' @ em_dash @
                '' drop the table or change writeStream.format(...)''))
            else (case (case tm_schema existing of None \<Rightarrow> None
                        | Some declared \<Rightarrow> column_mismatch (le_show_type eng) declared schema) of
                    Some mismatch \<Rightarrow>
                      Inl (Plan (''`'' @ display_name target @ ''` already exists with a different schema: '' @ mismatch @
                        ''. Streaming appends do not evolve a table's schema '' @ em_dash @
                        '' align the query's projection, or drop the table.''))
                  | None \<Rightarrow> Inr existing))
          else cp_create_table catalog (lt_namespace target) (lt_table target) schema (lt_format target)
                 (lt_location target) (lo_partition_columns options))))"

definition lake_open ::
  "lake_engine \<Rightarrow> lake_target \<Rightarrow> field list \<Rightarrow> lake_sink_options \<Rightarrow> delta_store \<Rightarrow> lake_sink result" where
  "lake_open eng target schema options st =
     (if lt_format target \<noteq> Delta \<and> lt_format target \<noteq> Parquet then
        Inl (Unsupported (''streaming sink format '' @ debug_format (lt_format target) @ '' is not writable''))
      else case find (\<lambda>c. c \<notin> set (map f_name schema)) (lo_partition_columns options) of
        Some column \<Rightarrow>
          Inl (Plan (''writeStream.partitionBy(`'' @ column @ ''`): the query does not produce that column''))
      | None \<Rightarrow>
          rbind (case lt_catalog target of
                   Some catalog_name \<Rightarrow>
                     rbind (resolve_in_catalog eng catalog_name target schema options) (\<lambda>md.
                       Inr (tm_location md, tm_storage_options md))
                 | None \<Rightarrow>
                     (case lt_location target of
                        None \<Rightarrow> Inl (Plan ''writeStream needs either a table name (`toTable`) or a path (`start`)'')
                      | Some location \<Rightarrow> Inr (location, Map.empty))) (\<lambda>(location, storage_options).
          rbind (le_object_store eng location storage_options) (\<lambda>_.
          rbind (table_root_prefix eng location) (\<lambda>root.
          (let table_id = le_table_id eng location;
               publish = lo_publish_iceberg options \<and> lt_format target = Delta
           in rbind (if publish then le_uniform eng location schema (lo_partition_columns options) table_id else Inr ()) (\<lambda>_.
              rbind (if lt_format target = Delta then
                       rbind (writer_open root schema (le_metadata eng table_id schema (lo_partition_columns options))
                                (lo_app_id options) (lo_partition_columns options) (lo_checkpoint_interval options)
                                (le_log_error eng) st) (\<lambda>w. Inr (DeltaWriter w))
                     else Inr ParquetWriter) (\<lambda>writer.
                Inr \<lparr>ls_target = target, ls_schema = schema, ls_root = root, ls_writer = writer, ls_options = options,
                     ls_uniform = publish, ls_location = location\<rparr>)))))))"

definition next_commit_version :: "lake_sink \<Rightarrow> nat" where
  "next_commit_version k = (case ls_writer k of DeltaWriter w \<Rightarrow> dw_next_version w | ParquetWriter \<Rightarrow> 0)"

definition committed_txn_version :: "lake_sink \<Rightarrow> int" where
  "committed_txn_version k =
     (case ls_writer k of
        DeltaWriter w \<Rightarrow> (case dw_committed_txn w of None \<Rightarrow> 0 | Some n \<Rightarrow> n)
      | ParquetWriter \<Rightarrow> 0)"

section \<open>Writing a micro-batch\<close>

text \<open>What one attempt meets: the fresh file prefix it draws, the Delta commit's environment, a failed put.\<close>

record lake_faults =
  lf_prefix :: "delta_store \<Rightarrow> string"
  lf_delta :: delta_faults
  lf_put :: "string option"

definition schema_error :: "string \<Rightarrow> lake_engine \<Rightarrow> lake_sink \<Rightarrow> record_batch list \<Rightarrow> error option" where
  "schema_error what eng k bs =
     (case find (\<lambda>b. \<not> le_schema_eq eng b (ls_schema k)) bs of
        None \<Rightarrow> None
      | Some b \<Rightarrow>
          Some (Execution (what @ '' `'' @ display_name (ls_target k) @ ''`: batch schema '' @ le_show_batch_schema eng b @
            '' does not match the table schema '' @ le_show_schema eng (ls_schema k))))"

definition lake_write :: "lake_engine \<Rightarrow> (lake_faults, delta_store, lake_sink) sink_write" where
  "lake_write eng f bs batch_id st k =
     (let rows = total_rows bs in
      if rows = 0 then (st, k, Inr 0)
      else case schema_error ''streaming sink'' eng k bs of
        Some e \<Rightarrow> (st, k, Inl e)
      | None \<Rightarrow>
          (let pfx = lf_prefix f st in
           case ls_writer k of
             DeltaWriter w \<Rightarrow>
               (case delta_append (le_codec eng) (lf_delta f) bs pfx (Some (to_signed 64 batch_id)) st w of
                  (st', w', Inl e) \<Rightarrow> (st', k\<lparr>ls_writer := DeltaWriter w'\<rparr>, Inl e)
                | (st', w', Inr c) \<Rightarrow>
                    (st', k\<lparr>ls_writer := DeltaWriter w'\<rparr>, Inr (if dk_deduplicated c then 0 else rows)))
           | ParquetWriter \<Rightarrow>
               (case le_encode_parquet eng (ls_schema k) bs of
                  Inl e \<Rightarrow> (st, k, Inl e)
                | Inr sz \<Rightarrow>
                    (let path = ''part-'' @ pfx @ ''-c000.snappy.parquet'' in
                     case lf_put f of
                       Some e \<Rightarrow> (st, k, Inl (Io (''write `'' @ object_path_join (fc_path_part (le_codec eng)) (ls_root k) path @ ''`: '' @ e)))
                     | None \<Rightarrow> (put_object path bs st, k, Inr rows)))))"

definition lake_replace ::
  "lake_engine \<Rightarrow> lake_faults \<Rightarrow> record_batch list \<Rightarrow> nat \<Rightarrow> delta_store \<Rightarrow> lake_sink \<Rightarrow> delta_store \<times> lake_sink \<times> nat result" where
  "lake_replace eng f bs batch_id st k =
     (case schema_error ''sink'' eng k bs of
        Some e \<Rightarrow> (st, k, Inl e)
      | None \<Rightarrow>
          (case ls_writer k of
             DeltaWriter w \<Rightarrow>
               (case delta_replace (le_codec eng) (lf_delta f) bs (lf_prefix f st) (Some (to_signed 64 batch_id)) st w of
                  (st', w', Inl e) \<Rightarrow> (st', k\<lparr>ls_writer := DeltaWriter w'\<rparr>, Inl e)
                | (st', w', Inr c) \<Rightarrow>
                    (st', k\<lparr>ls_writer := DeltaWriter w'\<rparr>, Inr (if dk_deduplicated c then 0 else total_rows bs)))
           | ParquetWriter \<Rightarrow>
               (st, k, Inl (Unsupported (''`'' @ display_name (ls_target k) @
                  ''` is a parquet table, which has no commit protocol and so cannot be '' @
                  ''replaced atomically; declare it as delta to have it recomputed'')))))"

section \<open>Names read back\<close>

definition quote_part :: "string \<Rightarrow> string" where
  "quote_part p = ''`'' @ p @ ''`''"

lemma split_ident_quoted:
  "CHR ''`'' \<notin> set p \<Longrightarrow> split_ident_loop (p @ CHR ''`'' # rest) parts cur True = split_ident_loop rest parts (cur @ p) False"
  by (induction p arbitrary: cur) auto

lemma split_ident_join:
  "ps \<noteq> [] \<Longrightarrow> list_all (\<lambda>p. CHR ''`'' \<notin> set p) ps \<Longrightarrow>
   split_ident_loop (join ''.'' (map quote_part ps)) parts [] False = parts @ ps"
  by (induction ps arbitrary: parts rule: induct_list012)
    (auto simp: quote_part_def split_ident_quoted [where rest = "[]", simplified] split_ident_quoted)

text \<open>An identifier quoted part by part is split into its parts, dots within them included.\<close>

lemma split_ident_roundtrip:
  assumes "ps \<noteq> []" and "list_all (\<lambda>p. p \<noteq> [] \<and> CHR ''`'' \<notin> set p) ps"
  shows "split_ident (join ''.'' (map quote_part ps)) = ps"
proof -
  have "split_ident_loop (join ''.'' (map quote_part ps)) [] [] False = ps"
    using split_ident_join [OF assms(1), of "[]"] assms(2) by (simp add: list_all_iff)
  then show ?thesis using assms(2) by (simp add: split_ident_def list_all_iff)
qed

section \<open>An opened table fits the query\<close>

lemma first_difference_None:
  "length ds = length ps \<Longrightarrow> first_difference sh (zip ds ps) = None \<longleftrightarrow>
   map (\<lambda>f. (f_name f, f_type f)) ds = map (\<lambda>f. (f_name f, f_type f)) ps"
  by (induction ds ps rule: list_induct2) auto

lemma column_mismatch_None:
  "column_mismatch sh ds ps = None \<longleftrightarrow> map (\<lambda>f. (f_name f, f_type f)) ds = map (\<lambda>f. (f_name f, f_type f)) ps"
  using first_difference_None [of ds ps sh] by (auto simp: column_mismatch_def dest: map_eq_imp_length_eq)

lemma resolve_existing:
  assumes "resolve_in_catalog eng c target schema options = Inr md" and "le_catalog eng c = Some cat"
    and "cp_table_exists cat (lt_namespace target) (lt_table target) = Inr True"
    and "cp_load_table cat (lt_namespace target) (lt_table target) = Inr existing"
  shows "md = existing \<and> tm_format existing = lt_format target \<and>
    (\<forall>declared. tm_schema existing = Some declared \<longrightarrow> column_mismatch (le_show_type eng) declared schema = None)"
  using assms by (auto simp: resolve_in_catalog_def rbind_def split: sum.splits if_splits option.splits)

text \<open>
  C18. A sink that opens fits its query: the format is one the sink can write, every partition column
  is a column of the query, and a table that was in the catalog has the format of the stream and, if it
  declares a schema, the names and types of the query's columns in their order.
\<close>

theorem lake_open_sound:
  assumes "lake_open eng target schema options st = Inr k"
  shows "(lt_format target = Delta \<or> lt_format target = Parquet) \<and>
    set (lo_partition_columns options) \<subseteq> f_name ` set schema \<and>
    ((\<exists>w. ls_writer k = DeltaWriter w) \<longleftrightarrow> lt_format target = Delta) \<and>
    (\<forall>c cat existing.
       lt_catalog target = Some c \<and> le_catalog eng c = Some cat \<and>
       cp_table_exists cat (lt_namespace target) (lt_table target) = Inr True \<and>
       cp_load_table cat (lt_namespace target) (lt_table target) = Inr existing \<longrightarrow>
       ls_location k = tm_location existing \<and> tm_format existing = lt_format target \<and>
       (\<forall>declared. tm_schema existing = Some declared \<longrightarrow>
          map (\<lambda>f. (f_name f, f_type f)) declared = map (\<lambda>f. (f_name f, f_type f)) schema))"
proof -
  have f: "lt_format target = Delta \<or> lt_format target = Parquet"
    and cols: "find (\<lambda>c. c \<notin> set (map f_name schema)) (lo_partition_columns options) = None"
    using assms by (auto simp: lake_open_def split: if_splits option.splits)
  have p: "set (lo_partition_columns options) \<subseteq> f_name ` set schema" using cols by (auto simp: find_None_iff)
  have d: "(\<exists>w. ls_writer k = DeltaWriter w) \<longleftrightarrow> lt_format target = Delta"
    using assms f by (auto simp: lake_open_def Let_def rbind_def split: if_splits option.splits sum.splits prod.splits)
  have r: "\<exists>md. resolve_in_catalog eng c target schema options = Inr md \<and> ls_location k = tm_location md"
    if "lt_catalog target = Some c" for c
    using assms that by (auto simp: lake_open_def Let_def rbind_def split: if_splits option.splits sum.splits prod.splits)
  have e: "ls_location k = tm_location existing \<and> tm_format existing = lt_format target \<and>
      (\<forall>declared. tm_schema existing = Some declared \<longrightarrow>
         map (\<lambda>f. (f_name f, f_type f)) declared = map (\<lambda>f. (f_name f, f_type f)) schema)"
    if c: "lt_catalog target = Some c" and rest: "le_catalog eng c = Some cat"
      "cp_table_exists cat (lt_namespace target) (lt_table target) = Inr True"
      "cp_load_table cat (lt_namespace target) (lt_table target) = Inr existing" for c cat existing
  proof -
    obtain md where md: "resolve_in_catalog eng c target schema options = Inr md" "ls_location k = tm_location md"
      using r [OF c] by blast
    from resolve_existing [OF md(1) rest] md(2) show ?thesis by (simp add: column_mismatch_None)
  qed
  show ?thesis by (intro conjI f p d) (use e in blast)
qed

text \<open>An engine without a catalog, and one whose catalog has a Delta table.\<close>

definition demo_engine :: lake_engine where
  "demo_engine =
     \<lparr>le_catalog = \<lambda>_. None, le_object_store = \<lambda>_ _. Inr (), le_url_prefix = \<lambda>_. Inr ''tbl'', le_table_id = \<lambda>_. [],
      le_uniform = \<lambda>_ _ _ _. Inr (), le_metadata = \<lambda>_ _ _. Inr \<lparr>dm_schema = [], dm_partition_columns = []\<rparr>,
      le_log_error = None, le_codec = demo_codec, le_encode_parquet = \<lambda>_ _. Inr 10,
      le_schema_eq = \<lambda>b fs. rb_schema b = fs, le_show_type = \<lambda>_. [], le_show_batch_schema = \<lambda>_. [],
      le_show_schema = \<lambda>_. []\<rparr>"

definition demo_metadata :: table_metadata where
  "demo_metadata =
     \<lparr>tm_name = ''c.db.t'', tm_location = ''loc'', tm_format = Delta, tm_schema = Some [\<lparr>f_name = ''n'', f_type = Int64\<rparr>],
      tm_storage_options = Map.empty, tm_partition_columns = [], tm_comment = None, tm_properties = Map.empty,
      tm_column_comments = Map.empty\<rparr>"

definition demo_catalog :: catalog_provider where
  "demo_catalog =
     \<lparr>cp_create_database = \<lambda>_. Inr (), cp_table_exists = \<lambda>_ _. Inr True, cp_load_table = \<lambda>_ _. Inr demo_metadata,
      cp_create_table = \<lambda>_ _ _ _ _ _. Inr demo_metadata\<rparr>"

definition demo_target :: lake_target where
  "demo_target = \<lparr>lt_catalog = Some ''c'', lt_namespace = [''db''], lt_table = ''t'', lt_format = Delta, lt_location = None\<rparr>"

definition demo_options :: lake_sink_options where
  "demo_options =
     \<lparr>lo_app_id = Some ''q'', lo_partition_columns = [], lo_publish_iceberg = True, lo_iceberg_table_suffix = [],
      lo_checkpoint_interval = 10\<rparr>"

theorem lake_open_sound_witness:
  "\<exists>k. lake_open (demo_engine\<lparr>le_catalog := \<lambda>_. Some demo_catalog\<rparr>) demo_target [\<lparr>f_name = ''n'', f_type = Int64\<rparr>]
       demo_options empty_store = Inr k \<and>
     ls_location k = ''loc'' \<and> (\<exists>w. ls_writer k = DeltaWriter w)"
proof -
  let ?eng = "demo_engine\<lparr>le_catalog := \<lambda>_. Some demo_catalog\<rparr>" and ?fs = "[\<lparr>f_name = ''n'', f_type = Int64\<rparr>]"
  have "case lake_open ?eng demo_target ?fs demo_options empty_store of Inl e \<Rightarrow> False | Inr k \<Rightarrow> True" by code_simp
  then obtain k where k: "lake_open ?eng demo_target ?fs demo_options empty_store = Inr k" by (auto split: sum.splits)
  from lake_open_sound [OF k] have "ls_location k = ''loc''" "\<exists>w. ls_writer k = DeltaWriter w"
    by (simp_all add: demo_target_def demo_catalog_def demo_metadata_def)
  with k show ?thesis by blast
qed

end
