(* ===== verification/Stream_Sinks.thy ===== *)
theory Stream_Sinks
  imports Lake_Sink
begin

text \<open>
  How a streaming query is configured and wired (\<^verbatim>\<open>oxidant-streaming/src/config.rs\<close>, \<^verbatim>\<open>sink.rs\<close>, and
  \<^verbatim>\<open>build_source\<close>, \<^verbatim>\<open>source_schema\<close> and \<^verbatim>\<open>build_sink\<close> of \<^verbatim>\<open>scheduler.rs\<close>): the configuration a writer's
  options give, the local file and memory sinks, the choice of a sink and of a source, and one write
  operation over every sink.

  Kafka and Postgres sources are constructed elsewhere; here they are the parameters \<^verbatim>\<open>kafka\<close> and
  \<^verbatim>\<open>postgres\<close> of \<^verbatim>\<open>build_source\<close>.
\<close>

section \<open>Configuration\<close>

definition DEFAULT_CHECKPOINT_INTERVAL :: nat where "DEFAULT_CHECKPOINT_INTERVAL = 10"
definition DEFAULT_ICEBERG_SUFFIX :: string where "DEFAULT_ICEBERG_SUFFIX = ''_iceberg''"

record stream_query_config =
  cf_source_format :: string
  cf_source_options :: "string \<rightharpoonup> string"
  cf_source_schema :: "field list option"
  cf_sink_format :: string
  cf_sink_table :: "string option"
  cf_sink_path :: "string option"
  cf_output_mode :: string
  cf_dedup_columns :: "string list"
  cf_expectations :: "stream_expectation list"
  cf_partition_columns :: "string list"
  cf_publish_iceberg :: bool
  cf_iceberg_table_suffix :: string
  cf_checkpoint_interval :: nat

definition stream_query_config_default :: stream_query_config where
  "stream_query_config_default =
     \<lparr>cf_source_format = ''memory'', cf_source_options = Map.empty, cf_source_schema = None,
      cf_sink_format = ''memory'', cf_sink_table = None, cf_sink_path = None, cf_output_mode = ''append'',
      cf_dedup_columns = [], cf_expectations = [], cf_partition_columns = [], cf_publish_iceberg = True,
      cf_iceberg_table_suffix = DEFAULT_ICEBERG_SUFFIX, cf_checkpoint_interval = DEFAULT_CHECKPOINT_INTERVAL\<rparr>"

datatype sink_destination = Table string | Path string | NoDestination

definition for_pipeline ::
  "string \<Rightarrow> (string \<rightharpoonup> string) \<Rightarrow> string \<Rightarrow> string option \<Rightarrow> string option \<Rightarrow> string list \<Rightarrow> string list \<Rightarrow> bool \<Rightarrow>
   string option \<Rightarrow> nat option \<Rightarrow> stream_query_config" where
  "for_pipeline source_format source_options sink_format sink_table sink_path partition_columns dedup_columns
     publish_iceberg iceberg_table_suffix checkpoint_interval =
     \<lparr>cf_source_format = source_format, cf_source_options = source_options, cf_source_schema = None,
      cf_sink_format = sink_format, cf_sink_table = sink_table, cf_sink_path = sink_path, cf_output_mode = ''append'',
      cf_dedup_columns = dedup_columns, cf_expectations = [], cf_partition_columns = partition_columns,
      cf_publish_iceberg = publish_iceberg,
      cf_iceberg_table_suffix =
        (case iceberg_table_suffix of
           None \<Rightarrow> cf_iceberg_table_suffix stream_query_config_default
         | Some s \<Rightarrow> if trim s = [] then cf_iceberg_table_suffix stream_query_config_default else s),
      cf_checkpoint_interval =
        (case checkpoint_interval of
           None \<Rightarrow> cf_checkpoint_interval stream_query_config_default
         | Some n \<Rightarrow> if 0 < n then n else cf_checkpoint_interval stream_query_config_default)\<rparr>"

definition from_spark ::
  "string \<Rightarrow> (string \<rightharpoonup> string) \<Rightarrow> string \<Rightarrow> sink_destination \<Rightarrow> (string \<rightharpoonup> string) \<Rightarrow> string list \<Rightarrow> stream_query_config" where
  "from_spark source_format source_options sink_format destination writer_options partition_columns =
     (let (sink_table, sink_path) =
            (case destination of
               Table t \<Rightarrow> (Some t, writer_options ''path'')
             | Path p \<Rightarrow> (None, Some p)
             | NoDestination \<Rightarrow> (None, writer_options ''path''))
      in \<lparr>cf_source_format = (if source_format = [] then ''memory'' else source_format),
          cf_source_options = source_options, cf_source_schema = None,
          cf_sink_format =
            (if sink_format = [] then (if sink_table \<noteq> None then ''delta'' else ''memory'') else sink_format),
          cf_sink_table = sink_table, cf_sink_path = sink_path,
          cf_output_mode = (case writer_options ''outputMode'' of None \<Rightarrow> ''append'' | Some m \<Rightarrow> m),
          cf_dedup_columns =
            (case writer_options ''dedupColumns'' of
               None \<Rightarrow> []
             | Some s \<Rightarrow> filter (\<lambda>c. c \<noteq> []) (map trim (split_on (CHR '','') s))),
          cf_expectations = [], cf_partition_columns = partition_columns,
          cf_publish_iceberg =
            (case (case writer_options ''icebergCompat'' of None \<Rightarrow> writer_options ''uniform'' | Some v \<Rightarrow> Some v) of
               None \<Rightarrow> True
             | Some v \<Rightarrow> to_ascii_lowercase (trim v) \<notin> {''false'', ''0'', ''off''}),
          cf_iceberg_table_suffix =
            (case writer_options ''icebergTableSuffix'' of
               None \<Rightarrow> DEFAULT_ICEBERG_SUFFIX
             | Some s \<Rightarrow> if trim s = [] then DEFAULT_ICEBERG_SUFFIX else trim s),
          cf_checkpoint_interval =
            (case writer_options ''checkpointInterval'' of
               None \<Rightarrow> DEFAULT_CHECKPOINT_INTERVAL
             | Some raw \<Rightarrow> (case parse_u64 (trim raw) of
                              None \<Rightarrow> DEFAULT_CHECKPOINT_INTERVAL | Some n \<Rightarrow> n))\<rparr>)"

section \<open>Local files and memory\<close>

datatype local_file = TextFile string | ParquetFile "record_batch list" | PartialFile

record file_sink =
  fk_path :: string
  fk_format :: string
  fk_batch_counter :: nat

definition file_sink_new :: "string \<Rightarrow> string \<Rightarrow> file_sink" where
  "file_sink_new path format = \<lparr>fk_path = path, fk_format = to_ascii_lowercase format, fk_batch_counter = 0\<rparr>"

fun format_cell :: "data_type \<Rightarrow> cell \<Rightarrow> string" where
  "format_cell t Null = []"
| "format_cell t (StrCell s) = (if t = Utf8 then s else [])"
| "format_cell t (IntCell i) = (if t = Int64 then show_int i else [])"
| "format_cell t c = []"

definition json_lines :: "record_batch list \<Rightarrow> string" where
  "json_lines bs =
     concat (map (\<lambda>b. concat (map (\<lambda>row.
       join '','' (map (\<lambda>col. format_cell (f_type (rb_schema b ! col)) (row ! col)) [0..<num_columns b]) @ [CHR 0x0A])
       (rb_rows b))) bs)"

definition part_name :: "nat \<Rightarrow> string \<Rightarrow> string" where
  "part_name n format = ''part-'' @ pad_zeros 5 (show_nat n) @ ''.'' @ (if format = ''json'' then ''json'' else ''parquet'')"

text \<open>
  A write of a part that fails reports \<^verbatim>\<open>e\<close>; it may have failed before the file was created, or have
  left a truncated file in the place of what was there.
\<close>

definition file_sink_write ::
  "(string \<times> bool) option \<Rightarrow> record_batch list \<Rightarrow> (string \<times> local_file) list \<Rightarrow> file_sink \<Rightarrow>
   (string \<times> local_file) list \<times> file_sink \<times> nat result" where
  "file_sink_write fault bs fs k =
     (let rows = total_rows bs in
      if rows = 0 then (fs, k, Inr 0)
      else
        let k' = k\<lparr>fk_batch_counter := fk_batch_counter k + 1\<rparr>;
            out = path_join (fk_path k) (part_name (fk_batch_counter k') (fk_format k));
            body = (if fk_format k = ''json'' then TextFile (json_lines bs) else ParquetFile bs)
        in case fault of
             Some (e, created) \<Rightarrow> (if created then AList.update out PartialFile fs else fs, k', Inl (Execution e))
           | None \<Rightarrow> (AList.update out body fs, k', Inr rows))"

definition memory_sink_write ::
  "string option \<Rightarrow> record_batch list \<Rightarrow> record_batch list \<Rightarrow> record_batch list \<times> nat result" where
  "memory_sink_write poisoned bs held =
     (case poisoned of
        Some e \<Rightarrow> (held, Inl (Execution e))
      | None \<Rightarrow> (held @ bs, Inr (total_rows bs)))"

section \<open>Choosing a sink\<close>

datatype stream_sink = LakeSink lake_sink | FileSink file_sink | MemorySink "record_batch list"

record sink_world =
  sw_table :: delta_store
  sw_local :: "(string \<times> local_file) list"

record sink_faults =
  kf_lake :: lake_faults
  kf_file :: "(string \<times> bool) option"
  kf_poisoned :: "string option"

fun stream_sink_write :: "lake_engine \<Rightarrow> (sink_faults, sink_world, stream_sink) sink_write" where
  "stream_sink_write eng f bs n d (LakeSink k) =
     (case lake_write eng (kf_lake f) bs n (sw_table d) k of
        (st, k', r) \<Rightarrow> (d\<lparr>sw_table := st\<rparr>, LakeSink k', r))"
| "stream_sink_write eng f bs n d (FileSink k) =
     (case file_sink_write (kf_file f) bs (sw_local d) k of
        (fs, k', r) \<Rightarrow> (d\<lparr>sw_local := fs\<rparr>, FileSink k', r))"
| "stream_sink_write eng f bs n d (MemorySink held) =
     (case memory_sink_write (kf_poisoned f) bs held of (held', r) \<Rightarrow> (d, MemorySink held', r))"

fun sink_description :: "stream_sink \<Rightarrow> string" where
  "sink_description (LakeSink k) = format_name (lt_format (ls_target k)) @ ''Sink['' @ display_name (ls_target k) @ '']''"
| "sink_description (FileSink k) = ''FileSink['' @ fk_path k @ '']''"
| "sink_description (MemorySink held) = ''MemorySink''"

definition build_sink ::
  "lake_engine \<Rightarrow> stream_query_config \<Rightarrow> string \<Rightarrow> string list \<Rightarrow> field list \<Rightarrow> string \<Rightarrow> sink_world \<Rightarrow> stream_sink result" where
  "build_sink eng config current_catalog current_namespace schema app_id d =
     (let sink_options = \<lparr>lo_app_id = Some app_id, lo_partition_columns = cf_partition_columns config,
            lo_publish_iceberg = cf_publish_iceberg config, lo_iceberg_table_suffix = cf_iceberg_table_suffix config,
            lo_checkpoint_interval = cf_checkpoint_interval config\<rparr>;
          lake = (\<lambda>target. rbind (lake_open eng target schema sink_options (sw_table d)) (\<lambda>k. Inr (LakeSink k)))
      in case cf_sink_table config of
           Some identifier \<Rightarrow>
             rbind (writable_format (cf_sink_format config)) (\<lambda>format.
             rbind (from_table_identifier identifier current_catalog current_namespace format (cf_sink_path config)) lake)
         | None \<Rightarrow>
             (case cf_sink_path config of
                Some path \<Rightarrow>
                  (let f = to_ascii_lowercase (cf_sink_format config) in
                   if f = ''delta'' then lake (location_only path Delta)
                   else if f = ''parquet'' then lake (location_only path Parquet)
                   else Inr (FileSink (file_sink_new path (cf_sink_format config))))
              | None \<Rightarrow> Inr (MemorySink [])))"

section \<open>Choosing a source\<close>

datatype 'x stream_source = FileStream file_source | RateStream rate_source | OtherStream 'x

definition is_file_format :: "string \<Rightarrow> bool" where
  "is_file_format f \<longleftrightarrow> f = ''parquet'' \<or> f = ''json'' \<or> f = ''csv''"

definition build_source ::
  "((string \<rightharpoonup> string) \<Rightarrow> 'x result) \<Rightarrow> ((string \<rightharpoonup> string) \<Rightarrow> 'x result) \<Rightarrow> stream_query_config \<Rightarrow> 'x stream_source result" where
  "build_source kafka postgres config =
     (let options = cf_source_options config; f = to_ascii_lowercase (cf_source_format config) in
      if is_file_format f then
        Inr (FileStream (file_source_new
          (case options ''path'' of None \<Rightarrow> ''/tmp/oxidant-stream-in'' | Some p \<Rightarrow> p)
          (cf_source_format config) (cf_source_schema config) options))
      else if f = ''kafka'' then rbind (kafka options) (\<lambda>s. Inr (OtherStream s))
      else if f = ''postgres_cdc'' then rbind (postgres options) (\<lambda>s. Inr (OtherStream s))
      else if f = ''rate'' then
        Inr (RateStream (rate_source_new
          (case options ''rowsPerSecond'' of
             None \<Rightarrow> 10
           | Some s \<Rightarrow> (case parse_u64 s of None \<Rightarrow> 10 | Some n \<Rightarrow> n))
          u64_max))
      else if f = ''memory'' then Inr (RateStream (rate_source_new 10 1))
      else Inl (Unsupported (''readStream.format(`'' @ f @ ''`) '' @ em_dash @
                             '' supported: kafka, postgres_cdc, parquet, json, csv, rate'')))"

fun stream_source_schema :: "('x \<Rightarrow> field list) \<Rightarrow> 'x stream_source \<Rightarrow> field list" where
  "stream_source_schema other (FileStream s) = fs_schema s"
| "stream_source_schema other (RateStream s) = [\<lparr>f_name = ''id'', f_type = Int64\<rparr>]"
| "stream_source_schema other (OtherStream x) = other x"

definition source_schema ::
  "((string \<rightharpoonup> string) \<Rightarrow> 'x result) \<Rightarrow> ((string \<rightharpoonup> string) \<Rightarrow> 'x result) \<Rightarrow> ('x \<Rightarrow> field list) \<Rightarrow> stream_query_config \<Rightarrow>
   field list result" where
  "source_schema kafka postgres other config =
     (let f = to_ascii_lowercase (cf_source_format config) in
      if cf_source_schema config = Some [] then
        Inl (Plan ''readStream.schema is empty; a file stream needs at least one field'')
      else if cf_source_schema config \<noteq> None \<and> is_file_format f then Inr (the (cf_source_schema config))
      else rbind (build_source kafka postgres config) (\<lambda>s.
        let schema = stream_source_schema other s in
        if schema = [] \<and> is_file_format f then
          Inl (Plan (''readStream.format(`'' @ f @ ''`) requires .schema(...)''))
        else Inr schema))"

section \<open>A restarted file sink\<close>

text \<open>
  The counter that names the parts starts at zero in every process, so the first part a restarted query
  writes replaces the first part of the run before it.
\<close>

lemma file_sink_restart_overwrites:
  assumes "total_rows bs \<noteq> 0" and "total_rows cs \<noteq> 0"
    and "file_sink_write None bs fs (file_sink_new dir format) = (fs1, k1, r1)"
    and "file_sink_write None cs fs1 (file_sink_new dir format) = (fs2, k2, r2)"
  shows "r1 = Inr (total_rows bs) \<and> r2 = Inr (total_rows cs) \<and>
    (\<exists>out. map_of fs1 out = Some (if to_ascii_lowercase format = ''json'' then TextFile (json_lines bs) else ParquetFile bs) \<and>
           map_of fs2 = (map_of fs)(out \<mapsto> if to_ascii_lowercase format = ''json'' then TextFile (json_lines cs) else ParquetFile cs))"
  using assms by (auto simp: file_sink_write_def file_sink_new_def Let_def update_conv fun_eq_iff)

text \<open>Within one run every part has a name of its own.\<close>

lemma part_name_inj: "part_name m f = part_name n f \<Longrightarrow> m = n"
proof -
  assume "part_name m f = part_name n f"
  then have "pad_zeros 5 (show_nat m) = pad_zeros 5 (show_nat n)" by (simp add: part_name_def split: if_splits)
  then have "digits_value (pad_zeros 5 (show_nat m)) = digits_value (pad_zeros 5 (show_nat n))" by simp
  moreover have "digits_value (replicate k CHR ''0'' @ s) = digits_value s" for k s
    by (induction k) (simp_all add: digits_value_def digit_value_def)
  ultimately show "m = n" by (simp add: pad_zeros_def)
qed

end
