(* ===== verification/Exactly_Once.thy ===== *)
theory Exactly_Once
  imports Micro_Batch
begin

text \<open>
  Exactly-once delivery of a streaming query. The micro-batch engine of \<^verbatim>\<open>Micro_Batch\<close> is run over a
  source that can be replayed and a sink that recognises a batch identifier it has committed, with
  failures at every read, put and attempt, retries in the same process, and crashes followed by a
  restart over the surviving checkpoint and table. In every state such a history reaches, the table
  holds the output of consecutive, disjoint ranges of the source, each once and in order.
\<close>

section \<open>What the table should hold\<close>

definition batch_output :: "query_engine \<Rightarrow> (record_batch list \<Rightarrow> 'c) \<Rightarrow> nat \<Rightarrow> record_batch list \<Rightarrow> (nat \<times> 'c) list" where
  "batch_output qe img b bs =
     (if total_rows bs = 0 then []
      else case (case qe_pipeline qe of None \<Rightarrow> Inr bs | Some p \<Rightarrow> p bs) of
        Inl e \<Rightarrow> []
      | Inr out \<Rightarrow> if total_rows out = 0 then [] else [(b, img out)])"

fun expected_from ::
  "query_engine \<Rightarrow> (record_batch list \<Rightarrow> 'c) \<Rightarrow> (batch_range \<Rightarrow> record_batch list) \<Rightarrow> nat \<Rightarrow> batch_range list \<Rightarrow> (nat \<times> 'c) list" where
  "expected_from qe img data b [] = []"
| "expected_from qe img data b (r # rs) = batch_output qe img b (data r) @ expected_from qe img data (Suc b) rs"

definition expected_log ::
  "query_engine \<Rightarrow> (record_batch list \<Rightarrow> 'c) \<Rightarrow> (batch_range \<Rightarrow> record_batch list) \<Rightarrow> batch_range list \<Rightarrow> (nat \<times> 'c) list" where
  "expected_log qe img data rs = expected_from qe img data 1 rs"

lemma expected_from_snoc:
  "expected_from qe img data b (rs @ [r]) = expected_from qe img data b rs @ batch_output qe img (b + length rs) (data r)"
  by (induction rs arbitrary: b) simp_all

lemma expected_log_simps [simp]:
  "expected_log qe img data [] = []"
  "expected_log qe img data (rs @ [r]) = expected_log qe img data rs @ batch_output qe img (Suc (length rs)) (data r)"
  by (simp_all add: expected_log_def expected_from_snoc)

lemma batch_output_id: "(b', c) \<in> set (batch_output qe img b bs) \<Longrightarrow> b' = b"
  by (auto simp: batch_output_def split: sum.splits if_splits)

lemma expected_log_ids: "(b, c) \<in> set (expected_log qe img data rs) \<Longrightarrow> 1 \<le> b \<and> b \<le> length rs"
proof (induction rs rule: rev_induct)
  case (snoc r rs)
  then show ?case using batch_output_id [of b c qe img "Suc (length rs)" "data r"] by auto
qed simp

section \<open>Histories of a query\<close>

datatype ('s, 'k, 'd) stream_system = Down checkpoint_store 'd | Up "('s, 'k, 'd) managed_query"

fun system_table :: "('s, 'k, 'd) stream_system \<Rightarrow> 'd" where
  "system_table (Down ck d) = d"
| "system_table (Up q) = mq_table q"

fun system_checkpoint :: "('s, 'k, 'd) stream_system \<Rightarrow> checkpoint_store" where
  "system_checkpoint (Down ck d) = ck"
| "system_checkpoint (Up q) = mq_checkpoint q"

definition committed_batch :: "checkpoint_store \<Rightarrow> nat" where
  "committed_batch ck = cs_committed_batch_id (load_or_default None ck)"

record ('s, 'e, 'f, 'd, 'k) stream_setup =
  ss_source :: "('s, 'e) source_ops"
  ss_start :: 's
  ss_open :: "string \<Rightarrow> 'd \<Rightarrow> 'd \<times> 'k result"
  ss_write :: "('f, 'd, 'k) sink_write"
  ss_engine :: query_engine
  ss_watermark :: "watermark_config option"
  ss_expectations :: "stream_expectation list"
  ss_app :: string
  ss_env_ok :: "'e \<Rightarrow> bool"
  ss_fault_ok :: "'f \<Rightarrow> bool"
  ss_acked :: "'f \<Rightarrow> bool"
  ss_dead :: "'f \<Rightarrow> bool"

text \<open>The histories are those of queries that do not drop duplicates.\<close>

definition plain_config :: "('s, 'e, 'f, 'd, 'k) stream_setup \<Rightarrow> start_config" where
  "plain_config W = \<lparr>sc_watermark = ss_watermark W, sc_dedup_columns = [], sc_expectations = ss_expectations W\<rparr>"

lemma no_dedup: "sc_dedup_columns (plain_config W) = []"
  by (simp add: plain_config_def)

text \<open>
  What the environment may do in one run of a batch. Reads of the resume record succeed; everything
  else may fail. A process that survives has its sink commits acknowledged; one that dies may leave a
  commit behind whose acknowledgement it never saw, and does nothing to the table after it.
\<close>

definition env_good :: "('s, 'e, 'f, 'd, 'k) stream_setup \<Rightarrow> ('e, 'f) batch_faults \<Rightarrow> bool" where
  "env_good W bf \<longleftrightarrow> (\<forall>i. ss_env_ok W (bf_plan bf i)) \<and> (\<forall>i. ss_env_ok W (bf_poll bf i)) \<and>
     ss_env_ok W (bf_mark_durable bf) \<and> (\<forall>i. ss_fault_ok W (bf_sink bf i)) \<and> bf_load bf = None"

definition survives :: "('s, 'e, 'f, 'd, 'k) stream_setup \<Rightarrow> ('e, 'f) batch_faults \<Rightarrow> bool" where
  "survives W bf \<longleftrightarrow> (\<forall>i. ss_acked W (bf_sink bf i))"

definition may_die :: "('s, 'e, 'f, 'd, 'k) stream_setup \<Rightarrow> ('e, 'f) batch_faults \<Rightarrow> bool" where
  "may_die W bf \<longleftrightarrow> (\<forall>i. ss_acked W (bf_sink bf i) \<or> (\<forall>j>i. ss_dead W (bf_sink bf j)))"

text \<open>A sink stamps a batch with its number as an \<^verbatim>\<open>i64\<close>.\<close>

definition id_in_range :: "nat \<Rightarrow> bool" where
  "id_in_range n \<longleftrightarrow> n < 2 ^ 63"

text \<open>
  A history starts from an empty checkpoint. A process may go on after a failed batch as long as the
  resume record agrees with its own batch counter; otherwise the query is restarted.
\<close>

inductive stream_run :: "('s, 'e, 'f, 'd, 'k) stream_setup \<Rightarrow> 'd \<Rightarrow> ('s, 'k, 'd) stream_system \<Rightarrow> bool"
  for W :: "('s, 'e, 'f, 'd, 'k) stream_setup" and d0 :: 'd where
  run_fresh: "stream_run W d0 (Down \<lparr>ck_offsets = None, ck_planned = Map.empty, ck_commits = Map.empty, ck_location = loc\<rparr> d0)"
| run_start: "stream_run W d0 (Down ck d) \<Longrightarrow> rf_load (sf_recover sf) = None \<Longrightarrow> sf_init_load sf = None \<Longrightarrow>
    (cs_query_id (load_or_default None ck) = [] \<longrightarrow> qid = ss_app W) \<Longrightarrow>
    start_with_config (ss_source W) (Inr (ss_start W)) (ss_open W) (plain_config W) qid rid sf ck d = (ck', d', res) \<Longrightarrow>
    stream_run W d0 (case res of Inl e \<Rightarrow> Down ck' d' | Inr q \<Rightarrow> Up q)"
| run_batch: "stream_run W d0 (Up q) \<Longrightarrow> env_good W bf \<Longrightarrow> survives W bf \<Longrightarrow> id_in_range (Suc (mq_batch_id q)) \<Longrightarrow>
    run_batch (ss_source W) (ss_write W) (ss_engine W) bf q = (q', res) \<Longrightarrow>
    committed_batch (mq_checkpoint q') = mq_batch_id q' \<Longrightarrow> stream_run W d0 (Up q')"
| run_crash: "stream_run W d0 (Up q) \<Longrightarrow> env_good W bf \<Longrightarrow> may_die W bf \<Longrightarrow> id_in_range (Suc (mq_batch_id q)) \<Longrightarrow>
    run_batch (ss_source W) (ss_write W) (ss_engine W) bf q = (q', res) \<Longrightarrow>
    stream_run W d0 (Down (mq_checkpoint q') (mq_table q'))"
| run_stop: "stream_run W d0 (Up q) \<Longrightarrow> stream_run W d0 (Up (stop_query q))"
| run_fail: "stream_run W d0 (Up q) \<Longrightarrow> stream_run W d0 (Up (fail_query m q))"

section \<open>The contract of a transactional sink\<close>

text \<open>
  \<^verbatim>\<open>slog\<close> is the batches the table carries for the application, with what it stores of each. A write
  adds its batch at most once and only above every batch already there; a write that reports success
  has added it, unless it holds no rows or the table carries it. When the acknowledgement of a commit
  is lost the writer is in limbo: its view of the table is stale.
\<close>

locale transactional_sink =
  fixes put_batch :: "('f, 'd, 'k) sink_write" and open_sink :: "string \<Rightarrow> 'd \<Rightarrow> 'd \<times> 'k result" and app :: string
    and durable :: "'d \<Rightarrow> bool" and ok :: "'d \<Rightarrow> 'k \<Rightarrow> bool" and limbo :: "nat \<Rightarrow> record_batch list \<Rightarrow> 'd \<Rightarrow> 'k \<Rightarrow> bool"
    and fault_ok :: "'f \<Rightarrow> bool" and acked :: "'f \<Rightarrow> bool" and dead :: "'f \<Rightarrow> bool"
    and slog :: "'d \<Rightarrow> (nat \<times> 'c) list" and img :: "record_batch list \<Rightarrow> 'c"
  assumes open_law: "durable d \<Longrightarrow> open_sink app d = (d', opened) \<Longrightarrow>
      durable d' \<and> slog d' = slog d \<and> (case opened of Inl e \<Rightarrow> True | Inr k \<Rightarrow> ok d' k)"
    and ok_durable: "ok d k \<Longrightarrow> durable d"
    and write_law: "ok d k \<Longrightarrow> fault_ok f \<Longrightarrow> id_in_range n \<Longrightarrow> put_batch f bs n d k = (d', k', res) \<Longrightarrow>
      durable d' \<and> (acked f \<longrightarrow> ok d' k') \<and> (\<not> acked f \<and> (\<exists>e. res = Inl e) \<longrightarrow> limbo n bs d' k') \<and>
      (slog d' = slog d \<or> total_rows bs \<noteq> 0 \<and> (\<forall>m \<in> fst ` set (slog d). m < n) \<and> slog d' = slog d @ [(n, img bs)])"
    and done_law: "ok d k \<Longrightarrow> fault_ok f \<Longrightarrow> id_in_range n \<Longrightarrow> put_batch f bs n d k = (d', k', Inr rows) \<Longrightarrow>
      total_rows bs = 0 \<or> (\<exists>m \<in> fst ` set (slog d). n \<le> m) \<or> slog d' = slog d @ [(n, img bs)]"
    and limbo_law: "limbo n bs d k \<Longrightarrow> durable d \<Longrightarrow> fault_ok f \<Longrightarrow> dead f \<Longrightarrow> put_batch f bs n d k = (d', k', res) \<Longrightarrow>
      limbo n bs d' k' \<and> durable d' \<and> slog d' = slog d \<and> (\<exists>e. res = Inl e)"

section \<open>The invariant\<close>

lemma with_retry_rule:
  assumes "with_retry op i q = (q', res)" and "I i q"
    and step: "\<And>j q1 q2 r. I j q1 \<Longrightarrow> op j q1 = (q2, r) \<Longrightarrow> (case r of Inl e \<Rightarrow> I (j + 1) q2 | Inr v \<Rightarrow> P q2 v)"
  shows "case res of Inl e \<Rightarrow> (\<exists>j. I j q') | Inr v \<Rightarrow> P q' v"
  using assms(1,2)
proof (induction "RETRY_ATTEMPTS - i" arbitrary: i q rule: less_induct)
  case less
  obtain q1 r where o: "op i q = (q1, r)" by (metis surj_pair)
  note st = step [OF less.prems(2) o]
  show ?case
  proof (cases r)
    case (Inr v)
    with less.prems(1) o have "q' = q1" "res = Inr v" by (simp_all add: with_retry.simps [of op i])
    with st Inr show ?thesis by simp
  next
    case (Inl e)
    show ?thesis
    proof (cases "is_retryable e \<and> i + 1 < RETRY_ATTEMPTS")
      case True
      with less.prems(1) o Inl have "with_retry op (i + 1) q1 = (q', res)" by (simp add: with_retry.simps [of op i])
      with True Inl st show ?thesis by (intro less.hyps) auto
    next
      case False
      with less.prems(1) o Inl have "q' = q1" "res = Inl e" by (auto simp: with_retry.simps [of op i])
      with st Inl show ?thesis by auto
    qed
  qed
qed

lemma and_then_simps [simp]:
  "and_then (q, Inl e) f = (q, Inl e)" "and_then (q, Inr a) f = f q a"
  by (simp_all add: and_then_def)

text \<open>A put to the checkpoint lands, or fails and changes nothing; it may also land and report a failure.\<close>

lemma put_checkpoint_put:
  assumes "put_checkpoint what op q = (q', res)" and "\<And>ck. op ck = ((if put_lands a then f ck else ck), put_result a)"
  shows "q' = q\<lparr>mq_checkpoint := f (mq_checkpoint q)\<rparr> \<or> q' = q \<and> (\<exists>e. res = Inl e)"
  using assms(1) by (cases a) (auto simp: put_checkpoint_def assms(2))

locale streaming_query =
  source: replayable_source "ss_source W" "ss_start W" "ss_env_ok W" inv pos advance fresh data +
  sink: transactional_sink "ss_write W" "ss_open W" "ss_app W" durable ok limbo "ss_fault_ok W" "ss_acked W" "ss_dead W" slog img
  for W :: "('s, 'e, 'f, 'd, 'k) stream_setup" and inv :: "'s \<Rightarrow> bool" and pos :: "'s \<Rightarrow> 'p" and advance fresh data
    and durable :: "'d \<Rightarrow> bool" and ok limbo and slog :: "'d \<Rightarrow> (nat \<times> 'c) list" and img
begin

abbreviation position :: "batch_range list \<Rightarrow> 'p" where
  "position \<equiv> position_after advance (pos (ss_start W))"

abbreviation chain :: "batch_range list \<Rightarrow> bool" where
  "chain \<equiv> range_chain fresh advance (pos (ss_start W))"

abbreviation expected :: "batch_range list \<Rightarrow> (nat \<times> 'c) list" where
  "expected \<equiv> expected_log (ss_engine W) img data"

definition restores :: "source_offsets option \<Rightarrow> 'p \<Rightarrow> bool" where
  "restores o1 p \<longleftrightarrow> (case o1 of None \<Rightarrow> False
     | Some x \<Rightarrow> inv (src_restore_offsets (ss_source W) x (ss_start W)) \<and>
                 pos (src_restore_offsets (ss_source W) x (ss_start W)) = p)"

text \<open>
  The ranges \<^term>\<open>rs\<close> planned so far, of which the last may be in flight; \<^term>\<open>m\<close> batches have a commit
  entry or are in the resume record.
\<close>

definition log_inv :: "batch_range list \<Rightarrow> nat \<Rightarrow> checkpoint_store \<Rightarrow> bool" where
  "log_inv rs m ck \<longleftrightarrow>
     chain rs \<and> committed_batch ck \<le> m \<and> m \<le> length rs \<and> length rs \<le> Suc (committed_batch ck) \<and>
     (\<forall>b. committed_batch ck < b \<longrightarrow> ck_planned ck b = (if b \<le> length rs then Some (rs ! (b - 1)) else None)) \<and>
     (\<forall>b. committed_batch ck < b \<longrightarrow>
        (case ck_commits ck b of None \<Rightarrow> m < b | Some k \<Rightarrow> b \<le> m \<and> restores (bc_resume_position k) (position rs))) \<and>
     (cs_source_offsets (load_or_default None ck) = None \<and> committed_batch ck = 0 \<or>
      restores (cs_source_offsets (load_or_default None ck)) (position (take (committed_batch ck) rs))) \<and>
     (cs_query_id (load_or_default None ck) = [] \<and> rs = [] \<or> cs_query_id (load_or_default None ck) = ss_app W)"

definition table_inv :: "batch_range list \<Rightarrow> nat \<Rightarrow> 'd \<Rightarrow> bool" where
  "table_inv rs m d \<longleftrightarrow> durable d \<and> (\<exists>l. m \<le> l \<and> l \<le> length rs \<and> slog d = expected (take l rs))"

definition mid_inv :: "batch_range list \<Rightarrow> nat \<Rightarrow> ('s, 'k, 'd) managed_query \<Rightarrow> bool" where
  "mid_inv rs m q \<longleftrightarrow> log_inv rs m (mq_checkpoint q) \<and> table_inv rs m (mq_table q) \<and> inv (mq_source q) \<and>
     (pos (mq_source q) = position (take (committed_batch (mq_checkpoint q)) rs) \<or> pos (mq_source q) = position rs) \<and>
     mq_dedup q = None \<and> cs_query_id (load_or_default None (mq_checkpoint q)) = ss_app W"

lemma load_default_simps [simp]:
  "load_or_default None (ck\<lparr>ck_planned := x\<rparr>) = load_or_default None ck"
  "load_or_default None (ck\<lparr>ck_commits := y\<rparr>) = load_or_default None ck"
  "load_or_default None (ck\<lparr>ck_offsets := Some st\<rparr>) = st"
  "committed_batch (ck\<lparr>ck_planned := x\<rparr>) = committed_batch ck"
  "committed_batch (ck\<lparr>ck_commits := y\<rparr>) = committed_batch ck"
  "committed_batch (ck\<lparr>ck_offsets := Some st\<rparr>) = cs_committed_batch_id st"
  by (simp_all add: load_or_default_def load_def committed_batch_def)

lemma log_inv_later:
  assumes "log_inv rs m ck" and "length rs < b"
  shows "ck_planned ck b = None" "ck_commits ck b = None"
proof -
  have b: "committed_batch ck < b" "\<not> b \<le> m" using assms by (simp_all add: log_inv_def)
  show "ck_planned ck b = None" using assms b(1) by (simp add: log_inv_def)
  have "case ck_commits ck b of None \<Rightarrow> m < b | Some k \<Rightarrow> b \<le> m \<and> restores (bc_resume_position k) (position rs)"
    using assms(1) b(1) unfolding log_inv_def by blast
  with b(2) show "ck_commits ck b = None" by (auto split: option.splits)
qed

lemma log_inv_plan:
  assumes "log_inv rs m ck" and "length rs = committed_batch ck" and "fresh (position rs) r"
    and "cs_query_id (load_or_default None ck) = ss_app W"
  shows "log_inv (rs @ [r]) m (ck\<lparr>ck_planned := (ck_planned ck)(Suc (committed_batch ck) \<mapsto> r)\<rparr>)"
proof -
  have m: "m = committed_batch ck" using assms(1,2) by (simp add: log_inv_def)
  note later = log_inv_later [OF assms(1), unfolded assms(2)]
  from assms m show ?thesis
    by (simp add: log_inv_def range_chain_snoc nth_append later)
qed

lemma log_inv_commit:
  assumes "log_inv rs m ck" and "length rs = Suc (committed_batch ck)" and "restores (bc_resume_position k) (position rs)"
  shows "log_inv rs (length rs) (ck\<lparr>ck_commits := (ck_commits ck)(Suc (committed_batch ck) \<mapsto> k)\<rparr>)"
proof -
  note later = log_inv_later [OF assms(1), unfolded assms(2)]
  have "case (if b = Suc (committed_batch ck) then Some k else ck_commits ck b) of
      None \<Rightarrow> Suc (committed_batch ck) < b
    | Some k' \<Rightarrow> b \<le> Suc (committed_batch ck) \<and> restores (bc_resume_position k') (position rs)" if "committed_batch ck < b" for b
    using later(2) [of b] that assms(3) by (cases "b = Suc (committed_batch ck)") simp_all
  with assms(1,2) show ?thesis by (simp add: log_inv_def)
qed

lemma log_inv_delete:
  assumes "log_inv rs m ck" and "b \<le> committed_batch ck"
  shows "log_inv rs m (delete_entries del b ck)" "load_or_default None (delete_entries del b ck) = load_or_default None ck"
    "committed_batch (delete_entries del b ck) = committed_batch ck"
proof -
  show l: "load_or_default None (delete_entries del b ck) = load_or_default None ck"
    by (simp add: delete_entries_def load_or_default_def load_def)
  then show c: "committed_batch (delete_entries del b ck) = committed_batch ck" by (simp add: committed_batch_def)
  have "ck_planned (delete_entries del b ck) x = ck_planned ck x" "ck_commits (delete_entries del b ck) x = ck_commits ck x"
    if "committed_batch ck < x" for x
    using that assms(2) by (simp_all add: delete_entries_def)
  with assms(1) l c show "log_inv rs m (delete_entries del b ck)" by (simp add: log_inv_def)
qed

lemma log_inv_save:
  assumes "log_inv rs m ck" and "length rs = Suc (committed_batch ck)"
    and "cs_committed_batch_id st = length rs" and "restores (cs_source_offsets st) (position rs)" and "cs_query_id st = ss_app W"
  shows "log_inv rs (length rs) (ck\<lparr>ck_offsets := Some st\<rparr>)"
  using assms log_inv_later [OF assms(1)] by (simp add: log_inv_def)

lemma log_inv_same:
  assumes "log_inv rs m ck" and "cs_committed_batch_id st = committed_batch ck"
    and "cs_source_offsets st = cs_source_offsets (load_or_default None ck)" and "cs_query_id st = ss_app W"
  shows "log_inv rs m (ck\<lparr>ck_offsets := Some st\<rparr>)"
  using assms by (simp add: log_inv_def)

lemma log_inv_prune:
  assumes "log_inv rs m ck" and "b \<le> Suc (committed_batch ck)" and "prune_loop del through b pruned ck = (ck', n)"
  shows "log_inv rs m ck' \<and> load_or_default None ck' = load_or_default None ck \<and> committed_batch ck' = committed_batch ck"
  using assms
proof (induction del through b pruned ck arbitrary: ck' n rule: prune_loop.induct)
  case (1 del through b pruned ck)
  show ?case
  proof (cases "pruned + 1 < b \<and> pruned < through + PRUNE_BATCH")
    case True
    then have "pruned + 1 \<le> committed_batch ck" using 1(3) by simp
    note d = log_inv_delete [OF 1(2) this, of "del (pruned + 1)"]
    have "prune_loop del through b (pruned + 1) (delete_entries (del (pruned + 1)) (pruned + 1) ck) = (ck', n)"
      using 1(4) True by (simp add: prune_loop.simps [of del through b pruned])
    from 1(1) [OF True d(1) _ this] 1(3) d(2,3) show ?thesis by simp
  next
    case False
    then have "prune_loop del through b pruned ck = (ck, pruned)" by (subst prune_loop.simps) (rule if_not_P)
    with 1(2,4) show ?thesis by simp
  qed
qed

text \<open>Planning: the recorded range of the batch, or a fresh one that extends the list of ranges.\<close>

lemma table_inv_snoc: "table_inv rs m d \<Longrightarrow> table_inv (rs @ [r]) m d"
  unfolding table_inv_def by (metis append_take_drop_id length_append_singleton le_SucI take_append diff_is_0_eq' take0 append_Nil2)

lemma plan_attempts:
  assumes "with_retry (\<lambda>i. on_source (src_plan_batch (ss_source W) (bf_plan bf i))) 0 q = (q', res)"
    and "env_good W bf" and "inv (mq_source q)"
  shows "\<exists>s. q' = q\<lparr>mq_source := s\<rparr> \<and> inv s \<and> pos s = pos (mq_source q) \<and>
    (case res of Inl e \<Rightarrow> True | Inr r \<Rightarrow> range_is_empty r \<or> fresh (pos (mq_source q)) r)"
proof -
  let ?I = "\<lambda>i q1. \<exists>s. q1 = q\<lparr>mq_source := s\<rparr> \<and> inv s \<and> pos s = pos (mq_source q)"
  have "case res of Inl e \<Rightarrow> (\<exists>j::nat. ?I j q') | Inr r \<Rightarrow> ?I 0 q' \<and> (range_is_empty r \<or> fresh (pos (mq_source q)) r)"
  proof (rule with_retry_rule [OF assms(1)])
    show "?I (0::nat) q" using assms(3) by (intro exI [of _ "mq_source q"]) simp
  next
    fix j q1 q2 r
    assume "?I j q1" and op: "on_source (src_plan_batch (ss_source W) (bf_plan bf j)) q1 = (q2, r)"
    then obtain s where s: "q1 = q\<lparr>mq_source := s\<rparr>" "inv s" "pos s = pos (mq_source q)" by blast
    obtain s2 where s2: "src_plan_batch (ss_source W) (bf_plan bf j) s = (s2, r)" "q2 = q\<lparr>mq_source := s2\<rparr>"
      using op s(1) by (auto simp: on_source_def split: prod.splits)
    have "ss_env_ok W (bf_plan bf j)" using assms(2) by (simp add: env_good_def)
    from source.plan_law [OF s(2) this s2(1)] s(3) s2(2)
    show "case r of Inl e \<Rightarrow> ?I (j + 1) q2 | Inr v \<Rightarrow> ?I 0 q2 \<and> (range_is_empty v \<or> fresh (pos (mq_source q)) v)"
      by (auto split: sum.splits)
  qed
  then show ?thesis by (auto split: sum.splits)
qed

definition frame :: "('s, 'k, 'd) managed_query \<Rightarrow> ('s, 'k, 'd) managed_query \<Rightarrow> bool" where
  "frame q q' \<longleftrightarrow> mq_table q' = mq_table q \<and> mq_sink q' = mq_sink q \<and> mq_batch_id q' = mq_batch_id q \<and>
     committed_batch (mq_checkpoint q') = committed_batch (mq_checkpoint q)"

lemma mid_inv_source:
  assumes "mid_inv rs m q" and "inv s"
    and "pos s = position (take (committed_batch (mq_checkpoint q)) rs) \<or> pos s = position rs"
  shows "mid_inv rs m (q\<lparr>mq_source := s\<rparr>)" "frame q (q\<lparr>mq_source := s\<rparr>)"
  using assms by (simp_all add: mid_inv_def frame_def)

lemma mid_inv_plan:
  assumes "mid_inv rs m q" and "length rs = committed_batch (mq_checkpoint q)" and "fresh (position rs) r"
    and "pos (mq_source q) = position rs"
  shows "mid_inv (rs @ [r]) m (q\<lparr>mq_checkpoint := (mq_checkpoint q)\<lparr>ck_planned := (ck_planned (mq_checkpoint q))(Suc (committed_batch (mq_checkpoint q)) \<mapsto> r)\<rparr>\<rparr>)"
    "frame q (q\<lparr>mq_checkpoint := (mq_checkpoint q)\<lparr>ck_planned := x\<rparr>\<rparr>)"
proof -
  have "log_inv rs m (mq_checkpoint q)" "cs_query_id (load_or_default None (mq_checkpoint q)) = ss_app W"
    using assms(1) by (simp_all add: mid_inv_def)
  from log_inv_plan [OF this(1) assms(2,3) this(2)] table_inv_snoc [of rs m "mq_table q" r] assms
  show "mid_inv (rs @ [r]) m (q\<lparr>mq_checkpoint := (mq_checkpoint q)\<lparr>ck_planned := (ck_planned (mq_checkpoint q))(Suc (committed_batch (mq_checkpoint q)) \<mapsto> r)\<rparr>\<rparr>)"
    by (simp add: mid_inv_def)
qed (simp add: frame_def)

lemma plan_phase_inv:
  assumes "mid_inv rs m q" and "env_good W bf"
    and "plan_phase (ss_source W) bf (Suc (committed_batch (mq_checkpoint q))) q = (q', res)"
  shows "\<exists>rs'. mid_inv rs' m q' \<and> frame q q' \<and>
    (case res of Inr (Some r) \<Rightarrow> length rs' = Suc (committed_batch (mq_checkpoint q)) \<and> rs' ! committed_batch (mq_checkpoint q) = r | _ \<Rightarrow> True)"
proof -
  let ?ck = "mq_checkpoint q" and ?c = "committed_batch (mq_checkpoint q)"
  have li: "log_inv rs m ?ck" and iv: "inv (mq_source q)" using assms(1) by (simp_all add: mid_inv_def)
  have fr: "frame q q" by (simp add: frame_def)
  have pl: "ck_planned ?ck (Suc ?c) = (if Suc ?c \<le> length rs then Some (rs ! ?c) else None)"
    and len: "?c \<le> length rs" "length rs \<le> Suc ?c" using li by (simp_all add: log_inv_def)
  show ?thesis
  proof (cases "bf_load_planned bf")
    case (Some e)
    with assms(1,3) fr show ?thesis by (auto simp: plan_phase_def load_planned_def)
  next
    case None
    show ?thesis
    proof (cases "Suc ?c \<le> length rs")
      case True
      with assms(3) None pl have "q' = q" "res = Inr (Some (rs ! ?c))" by (auto simp: plan_phase_def load_planned_def)
      with True len assms(1) fr show ?thesis by (intro exI [of _ rs]) simp
    next
      case False
      then have lc: "length rs = ?c" using len by simp
      then have p: "pos (mq_source q) = position rs" using assms(1) by (auto simp: mid_inv_def)
      obtain q1 r1 where wr: "with_retry (\<lambda>i. on_source (src_plan_batch (ss_source W) (bf_plan bf i))) 0 q = (q1, r1)"
        by (metis surj_pair)
      from plan_attempts [OF wr assms(2) iv, unfolded p] obtain s where s: "q1 = q\<lparr>mq_source := s\<rparr>" "inv s" "pos s = position rs"
          "case r1 of Inl e \<Rightarrow> True | Inr r \<Rightarrow> range_is_empty r \<or> fresh (position rs) r"
        by blast
      note m1 = mid_inv_source [OF assms(1) s(2) disjI2 [OF s(3)], folded s(1)]
      have pp: "plan_phase (ss_source W) bf (Suc ?c) q = and_then (q1, r1) (\<lambda>q1 r.
            if range_is_empty r then (q1\<lparr>mq_is_data_available := False\<rparr>, Inr None)
            else and_then (put_checkpoint (''recording batch '' @ show_nat (Suc ?c) @ '': '') (save_planned (bf_save_planned bf) (Suc ?c) r) q1)
                   (\<lambda>q2 _. (q2, Inr (Some r))))"
        using None False pl wr by (simp add: plan_phase_def load_planned_def)
      show ?thesis
      proof (cases r1)
        case (Inl e)
        with pp assms(3) m1 show ?thesis by (auto simp: and_then_def)
      next
        case (Inr r)
        show ?thesis
        proof (cases "range_is_empty r")
          case True
          with pp assms(3) Inr have "q' = q1\<lparr>mq_is_data_available := False\<rparr>" "res = Inr None" by (simp_all add: and_then_def)
          with m1 show ?thesis by (auto simp: mid_inv_def frame_def)
        next
          case ne: False
          obtain q2 r2 where pc: "put_checkpoint (''recording batch '' @ show_nat (Suc ?c) @ '': '') (save_planned (bf_save_planned bf) (Suc ?c) r) q1 = (q2, r2)"
            by (metis surj_pair)
          have q': "q' = q2" "res = (case r2 of Inl e \<Rightarrow> Inl e | Inr _ \<Rightarrow> Inr (Some r))"
            using pp assms(3) Inr ne pc by (auto simp: and_then_def split: sum.splits)
          have "q2 = q1\<lparr>mq_checkpoint := (mq_checkpoint q1)\<lparr>ck_planned := (ck_planned (mq_checkpoint q1))(Suc ?c \<mapsto> r)\<rparr>\<rparr> \<or> q2 = q1 \<and> (\<exists>e. r2 = Inl e)"
            by (rule put_checkpoint_put [OF pc]) (rule save_planned_def)
          then show ?thesis
          proof
            assume q2: "q2 = q1\<lparr>mq_checkpoint := (mq_checkpoint q1)\<lparr>ck_planned := (ck_planned (mq_checkpoint q1))(Suc ?c \<mapsto> r)\<rparr>\<rparr>"
            have "fresh (position rs) r" using s(4) Inr ne by simp
            from mid_inv_plan [OF m1(1)] this lc s(1,3) have "mid_inv (rs @ [r]) m q2" "frame q1 q2" unfolding q2 by simp_all
            moreover have "rs @ [r] \<noteq> []" "(rs @ [r]) ! ?c = r" using lc by (simp_all add: nth_append)
            ultimately show ?thesis using m1(2) q' lc
              by (intro exI [of _ "rs @ [r]"]) (simp add: frame_def split: sum.splits)
          next
            assume "q2 = q1 \<and> (\<exists>e. r2 = Inl e)"
            with q' m1 show ?thesis by auto
          qed
        qed
      qed
    qed
  qed
qed

text \<open>Polling: however often it is tried, the range gives the same records.\<close>

lemma in_flight:
  assumes "mid_inv rs m q" and "length rs = Suc (committed_batch (mq_checkpoint q))"
  shows "rs = take (committed_batch (mq_checkpoint q)) rs @ [rs ! committed_batch (mq_checkpoint q)]"
    "fresh (position (take (committed_batch (mq_checkpoint q)) rs)) (rs ! committed_batch (mq_checkpoint q))"
    "position rs = advance (position (take (committed_batch (mq_checkpoint q)) rs)) (rs ! committed_batch (mq_checkpoint q))"
proof -
  show rs: "rs = take (committed_batch (mq_checkpoint q)) rs @ [rs ! committed_batch (mq_checkpoint q)]"
    using assms(2) by (metis lessI take_Suc_conv_app_nth take_all order_refl)
  have "chain rs" using assms(1) by (simp add: mid_inv_def log_inv_def)
  then show "fresh (position (take (committed_batch (mq_checkpoint q)) rs)) (rs ! committed_batch (mq_checkpoint q))"
    by (subst (asm) rs) (simp add: range_chain_snoc)
  show "position rs = advance (position (take (committed_batch (mq_checkpoint q)) rs)) (rs ! committed_batch (mq_checkpoint q))"
    by (subst rs) simp
qed

lemma poll_inv:
  assumes "mid_inv rs m q" and "env_good W bf" and len: "length rs = Suc (committed_batch (mq_checkpoint q))"
    and r: "rs ! committed_batch (mq_checkpoint q) = r"
    and wr: "with_retry (\<lambda>i. on_source (\<lambda>s. src_poll_range (ss_source W) (bf_poll bf i) s r)) 0 q = (q', res)"
  shows "mid_inv rs m q' \<and> frame q q' \<and>
    (case res of Inl e \<Rightarrow> True | Inr bs \<Rightarrow> bs = data r \<and> pos (mq_source q') = position rs)"
proof -
  let ?p = "position (take (committed_batch (mq_checkpoint q)) rs)"
  note fl = in_flight [OF assms(1) len, unfolded r]
  let ?I = "\<lambda>i q1. \<exists>s. q1 = q\<lparr>mq_source := s\<rparr> \<and> inv s \<and> (pos s = ?p \<or> pos s = position rs)"
  have "case res of Inl e \<Rightarrow> (\<exists>j::nat. ?I j q') | Inr bs \<Rightarrow> ?I 0 q' \<and> bs = data r \<and> pos (mq_source q') = position rs"
  proof (rule with_retry_rule [OF wr])
    show "?I (0::nat) q" using assms(1) by (intro exI [of _ "mq_source q"]) (simp add: mid_inv_def)
  next
    fix j q1 q2 x
    assume "?I j q1" and op: "on_source (\<lambda>s. src_poll_range (ss_source W) (bf_poll bf j) s r) q1 = (q2, x)"
    then obtain s where s: "q1 = q\<lparr>mq_source := s\<rparr>" "inv s" "pos s = ?p \<or> pos s = position rs" by blast
    obtain s2 where s2: "src_poll_range (ss_source W) (bf_poll bf j) s r = (s2, x)" "q2 = q\<lparr>mq_source := s2\<rparr>"
      using op s(1) by (auto simp: on_source_def split: prod.splits)
    have "ss_env_ok W (bf_poll bf j)" using assms(2) by (simp add: env_good_def)
    note pl = source.poll_law [OF s(2) this fl(2) s2(1)]
    have adv: "advance (pos s) r = position rs" using s(3) fl(3) source.advance_idem by metis
    from pl s(3) s2(2) adv show "case x of Inl e \<Rightarrow> ?I (j + 1) q2 | Inr bs \<Rightarrow> ?I 0 q2 \<and> bs = data r \<and> pos (mq_source q2) = position rs"
      by (auto split: sum.splits)
  qed
  then obtain s where s: "q' = q\<lparr>mq_source := s\<rparr>" "inv s" "pos s = ?p \<or> pos s = position rs"
      "case res of Inl e \<Rightarrow> True | Inr bs \<Rightarrow> bs = data r \<and> pos (mq_source q') = position rs"
    by (auto split: sum.splits)
  from mid_inv_source [OF assms(1) s(2,3)] s(1,4) show ?thesis by simp
qed

text \<open>Writing: the table gains the output of the range in flight at most once.\<close>

lemma table_inv_write:
  assumes tb: "table_inv rs m d" and rs: "rs = take c rs @ [r]" and len: "length rs = Suc c" and m: "c \<le> m"
    and out: "batch_output (ss_engine W) img (Suc c) (data r) = (if total_rows bs = 0 then [] else [(Suc c, img bs)])"
    and k: "ok d k" "ss_fault_ok W f" and idr: "id_in_range (Suc c)" and wr: "ss_write W f bs (Suc c) d k = (d', k', res)"
  shows "table_inv rs m d'" "(\<exists>n. res = Inr n) \<Longrightarrow> table_inv rs (length rs) d'"
proof -
  note wl = sink.write_law [OF k idr wr]
  have ex: "expected rs = expected (take c rs) @ (if total_rows bs = 0 then [] else [(Suc c, img bs)])"
    using len by (subst rs) (simp add: out)
  obtain l where l: "m \<le> l" "l \<le> Suc c" "slog d = expected (take l rs)" using tb len by (auto simp: table_inv_def)
  then have l2: "l = c \<or> l = Suc c" using m by auto
  have full: "table_inv rs (length rs) d'" if "slog d' = expected rs" using wl that by (auto simp: table_inv_def)
  have "m \<le> length rs" using l(1,2) len by simp
  then have less: "table_inv rs m d'" if "table_inv rs (length rs) d'"
    using that unfolding table_inv_def by (meson order_trans)
  have added: "slog d' = expected rs"
    if "total_rows bs \<noteq> 0" "\<forall>n \<in> fst ` set (slog d). n < Suc c" "slog d' = slog d @ [(Suc c, img bs)]"
  proof -
    have "(Suc c, img bs) \<in> set (slog d)" if "l = Suc c"
      using l(3) that \<open>total_rows bs \<noteq> 0\<close> len by (simp add: ex)
    then have "l \<noteq> Suc c" using that(2) by force
    with l2 l(3) that(1,3) show ?thesis by (simp add: ex)
  qed
  show "table_inv rs m d'"
  proof (cases "slog d' = slog d")
    case True
    with l wl len show ?thesis by (auto simp: table_inv_def)
  next
    case False
    with wl added full less show ?thesis by blast
  qed
  assume "\<exists>n. res = Inr n"
  then obtain n where n: "res = Inr n" ..
  note dl = sink.done_law [OF k idr wr [unfolded n]]
  show "table_inv rs (length rs) d'"
  proof (cases "slog d' = slog d")
    case True
    have "total_rows bs = 0 \<or> l = Suc c"
    proof (rule ccontr)
      assume h: "\<not> (total_rows bs = 0 \<or> l = Suc c)"
      then have "l = c" using l2 by simp
      moreover have "\<exists>i \<in> fst ` set (slog d). Suc c \<le> i" using dl h True by auto
      ultimately show False using l(3) expected_log_ids [of _ _ "ss_engine W" img data "take l rs"] len by fastforce
    qed
    then have "expected (take l rs) = expected rs"
    proof
      assume "total_rows bs = 0"
      then have "expected (take c rs) = expected rs" by (simp add: ex)
      with l2 len show ?thesis by auto
    qed (simp add: len)
    with True l(3) show ?thesis by (intro full) simp
  next
    case False
    with wl added full show ?thesis by blast
  qed
qed

lemma sink_phase_inv:
  assumes tb: "table_inv rs m (mq_table q)" and rs: "rs = take c rs @ [r]" and len: "length rs = Suc c" and m: "c \<le> m"
    and out: "batch_output (ss_engine W) img (Suc c) (data r) = (if total_rows bs = 0 then [] else [(Suc c, img bs)])"
    and k: "ok (mq_table q) (mq_sink q)" and env: "env_good W bf" "may_die W bf" and idr: "id_in_range (Suc c)"
    and sp: "sink_phase (ss_write W) bf (Suc c) bs q = (q', res)"
  shows "\<exists>d k. q' = q\<lparr>mq_table := d, mq_sink := k\<rparr> \<and> table_inv rs m d \<and> (survives W bf \<longrightarrow> ok d k) \<and>
    (case res of Inl e \<Rightarrow> True | Inr n \<Rightarrow> table_inv rs (length rs) d)"
proof -
  define I where "I = (\<lambda>(j::nat) q1. \<exists>d k. q1 = q\<lparr>mq_table := d, mq_sink := k\<rparr> \<and> table_inv rs m d \<and> (survives W bf \<longrightarrow> ok d k) \<and>
    (ok d k \<or> limbo (Suc c) bs d k \<and> (\<forall>i\<ge>j. ss_dead W (bf_sink bf i))))"
  define P where "P = (\<lambda>q1 (n::nat). \<exists>d k. q1 = q\<lparr>mq_table := d, mq_sink := k\<rparr> \<and> table_inv rs m d \<and> (survives W bf \<longrightarrow> ok d k) \<and>
    table_inv rs (length rs) d)"
  have step: "case x of Inl e \<Rightarrow> I (j + 1) q2 | Inr n \<Rightarrow> P q2 n"
    if I: "I j q1" and op: "(case ss_write W (bf_sink bf j) bs (Suc c) (mq_table q1) (mq_sink q1) of
        (d, k, r) \<Rightarrow> (q1\<lparr>mq_table := d, mq_sink := k\<rparr>, r)) = (q2, x)" for j q1 q2 x
  proof -
    from I obtain d k where q1: "q1 = q\<lparr>mq_table := d, mq_sink := k\<rparr>" "table_inv rs m d" "survives W bf \<longrightarrow> ok d k"
        "ok d k \<or> limbo (Suc c) bs d k \<and> (\<forall>i\<ge>j. ss_dead W (bf_sink bf i))" unfolding I_def by blast
    obtain d2 k2 where w: "ss_write W (bf_sink bf j) bs (Suc c) d k = (d2, k2, x)" "q2 = q\<lparr>mq_table := d2, mq_sink := k2\<rparr>"
      using op q1(1) by (auto split: prod.splits)
    have f: "ss_fault_ok W (bf_sink bf j)" using env(1) by (simp add: env_good_def)
    have du: "durable d" using q1(2) by (simp add: table_inv_def)
    have I2: "I i q2" if "table_inv rs m d2" "survives W bf \<longrightarrow> ok d2 k2"
        "ok d2 k2 \<or> limbo (Suc c) bs d2 k2 \<and> (\<forall>n\<ge>i. ss_dead W (bf_sink bf n))" for i
      unfolding I_def w(2) using that by blast
    show ?thesis
    proof (cases "ok d k")
      case True
      note t = table_inv_write [OF q1(2) rs len m out True f idr w(1)]
      note wl = sink.write_law [OF True f idr w(1)]
      have sv: "survives W bf \<longrightarrow> ok d2 k2" using wl by (simp add: survives_def)
      have "ok d2 k2 \<or> limbo (Suc c) bs d2 k2 \<and> (\<forall>i\<ge>j + 1. ss_dead W (bf_sink bf i))" if "x = Inl e" for e
        using wl that env(2) unfolding may_die_def by (metis Suc_eq_plus1 Suc_le_lessD)
      with I2 [OF t(1) sv, of "j + 1"] have "I (j + 1) q2" if "x = Inl e" for e using that by blast
      moreover have "P q2 n" if "x = Inr n" for n unfolding P_def w(2) using t that sv by blast
      ultimately show ?thesis by (cases x) simp_all
    next
      case False
      with q1(4) have lb: "limbo (Suc c) bs d k" and dd: "\<forall>i\<ge>j. ss_dead W (bf_sink bf i)" by simp_all
      from sink.limbo_law [OF lb du f _ w(1)] dd
      have l2: "limbo (Suc c) bs d2 k2" "durable d2" "slog d2 = slog d" "\<exists>e. x = Inl e" by auto
      have "table_inv rs m d2" using q1(2) l2(2,3) by (simp add: table_inv_def)
      with I2 [of "j + 1"] l2(1) dd False q1(3) have "I (j + 1) q2" by simp
      with l2(4) show ?thesis by auto
    qed
  qed
  have "I 0 q" unfolding I_def using tb k by (intro exI [of _ "mq_table q"] exI [of _ "mq_sink q"]) simp
  then have "case res of Inl e \<Rightarrow> (\<exists>j. I j q') | Inr v \<Rightarrow> P q' v"
    by (rule with_retry_rule [OF sp [unfolded sink_phase_def]]) (rule step)
  then show ?thesis unfolding I_def P_def by (cases res) auto
qed

lemma write_phase_inv:
  assumes mi: "mid_inv rs m q" and c: "c = committed_batch (mq_checkpoint q)" and len: "length rs = Suc c"
    and k: "ok (mq_table q) (mq_sink q)" and env: "env_good W bf" "may_die W bf" and idr: "id_in_range (Suc c)"
    and wp: "write_phase (ss_write W) (ss_engine W) bf (Suc c) (data (rs ! c)) q = (q', res)"
  shows "mid_inv rs m q' \<and> mq_checkpoint q' = mq_checkpoint q \<and> mq_source q' = mq_source q \<and> mq_batch_id q' = mq_batch_id q \<and>
    (survives W bf \<longrightarrow> ok (mq_table q') (mq_sink q')) \<and>
    (case res of Inl e \<Rightarrow> True | Inr n \<Rightarrow> table_inv rs (length rs) (mq_table q'))"
proof -
  have rs: "rs = take c rs @ [rs ! c]" using in_flight(1) [OF mi] len c by simp
  have tb: "table_inv rs m (mq_table q)" and m: "c \<le> m" and nd: "mq_dedup q = None"
    using mi c by (simp_all add: mid_inv_def log_inv_def)
  have ex: "expected rs = expected (take c rs) @ batch_output (ss_engine W) img (Suc c) (data (rs ! c))"
    using len by (subst rs) simp
  show ?thesis
  proof (cases "total_rows (data (rs ! c)) = 0")
    case True
    with wp have q': "q' = q" "res = Inr 0" by (simp_all add: write_phase_def)
    obtain l where l: "m \<le> l" "l \<le> Suc c" "slog (mq_table q) = expected (take l rs)" "durable (mq_table q)"
      using tb len by (auto simp: table_inv_def)
    have "expected (take c rs) = expected rs" using True by (simp add: ex batch_output_def)
    then have "expected (take l rs) = expected rs" using l(1,2) m len by (cases "l = c") (auto simp: le_Suc_eq)
    with l have "table_inv rs (length rs) (mq_table q)" by (auto simp: table_inv_def)
    with q' mi k show ?thesis by simp
  next
    case rows: False
    show ?thesis
    proof (cases "transform_phase (ss_engine W) bf (data (rs ! c))")
      case (Inl e)
      with wp rows mi k show ?thesis by (auto simp: write_phase_def)
    next
      case (Inr bs)
      have out: "batch_output (ss_engine W) img (Suc c) (data (rs ! c)) = (if total_rows bs = 0 then [] else [(Suc c, img bs)])"
        using Inr rows by (auto simp: batch_output_def transform_phase_def split: option.splits)
      let ?q1 = "q\<lparr>mq_tracker := snd (observe_opt (mq_watermark q) bs (mq_tracker q))\<rparr>"
      have st: "state_phase (ss_engine W) bs q = (?q1, Inr bs)" using nd by (simp add: state_phase_def)
      show ?thesis
      proof (cases "check_expectations (qe_count_sql (ss_engine W)) (mq_query_id ?q1) (Suc c) bs (mq_expectations ?q1)")
        case (Inl e)
        with wp rows Inr st have "q' = ?q1" "res = Inl e" by (simp_all add: write_phase_def and_then_def)
        with mi k show ?thesis by (simp add: mid_inv_def)
      next
        case (Inr u)
        with wp rows \<open>transform_phase (ss_engine W) bf (data (rs ! c)) = Inr bs\<close> st
        have sp: "sink_phase (ss_write W) bf (Suc c) bs ?q1 = (q', res)" by (simp add: write_phase_def and_then_def)
        have "table_inv rs m (mq_table ?q1)" "ok (mq_table ?q1) (mq_sink ?q1)" using tb k by simp_all
        from sink_phase_inv [OF this(1) rs len m out this(2) env idr sp] obtain d k1 where
          "q' = ?q1\<lparr>mq_table := d, mq_sink := k1\<rparr>" "table_inv rs m d" "survives W bf \<longrightarrow> ok d k1"
          "case res of Inl e \<Rightarrow> True | Inr n \<Rightarrow> table_inv rs (length rs) d" by blast
        with mi show ?thesis by (cases res) (simp_all add: mid_inv_def)
      qed
    qed
  qed
qed

text \<open>Committing and recording: the commit entry, the pruned logs, and the resume record.\<close>

lemma committed_restores:
  assumes "mid_inv rs m q" and "pos (mq_source q) = position rs"
  shows "restores (src_committed_offsets (ss_source W) (mq_source q)) (position rs)"
  using source.committed_law [of "mq_source q"] assms by (auto simp: mid_inv_def restores_def)

lemma commit_inv:
  assumes mi: "mid_inv rs m q" and len: "length rs = Suc (committed_batch (mq_checkpoint q))"
    and p: "pos (mq_source q) = position rs" and tb: "table_inv rs (length rs) (mq_table q)"
    and kc: "bc_batch_id kc = length rs" "bc_resume_position kc = src_committed_offsets (ss_source W) (mq_source q)"
    and pc: "put_checkpoint what (save_commit a kc) q = (q', res)"
  shows "mq_source q' = mq_source q \<and> frame q q' \<and>
    (mid_inv rs (length rs) q' \<or> q' = q \<and> (\<exists>e. res = Inl e))"
proof -
  let ?ck = "mq_checkpoint q"
  have "q' = q\<lparr>mq_checkpoint := ?ck\<lparr>ck_commits := (ck_commits ?ck)(bc_batch_id kc \<mapsto> kc)\<rparr>\<rparr> \<or> q' = q \<and> (\<exists>e. res = Inl e)"
    by (rule put_checkpoint_put [OF pc]) (rule save_commit_def)
  then show ?thesis
  proof
    assume q': "q' = q\<lparr>mq_checkpoint := ?ck\<lparr>ck_commits := (ck_commits ?ck)(bc_batch_id kc \<mapsto> kc)\<rparr>\<rparr>"
    have "log_inv rs m ?ck" using mi by (simp add: mid_inv_def)
    from log_inv_commit [OF this len, of kc] committed_restores [OF mi p] kc
    have "log_inv rs (length rs) (mq_checkpoint q')" by (simp add: q' len)
    with mi tb p have "mid_inv rs (length rs) q'" by (simp add: mid_inv_def q')
    then show ?thesis by (simp add: q' frame_def)
  qed (simp add: frame_def)
qed

lemma record_inv:
  assumes mi: "mid_inv rs m q" and len: "length rs = Suc (committed_batch (mq_checkpoint q))" and m: "m = length rs"
    and p: "pos (mq_source q) = position rs" and env: "env_good W bf"
    and rp: "record_phase (ss_source W) bf (length rs) (src_committed_offsets (ss_source W) (mq_source q)) q = (q', res)"
  shows "mid_inv rs (length rs) q' \<and> mq_table q' = mq_table q \<and> mq_sink q' = mq_sink q"
proof -
  let ?ck = "mq_checkpoint q" and ?o = "src_committed_offsets (ss_source W) (mq_source q)"
  let ?s = "resume_record q (length rs) ?o (load_or_default None ?ck)"
  obtain ck n where pr: "prune_log (bf_delete bf) (cs_pruned_through ?s) (length rs) ?ck = (ck, n)" by (metis surj_pair)
  have li: "log_inv rs m ?ck" and qi: "cs_query_id (load_or_default None ?ck) = ss_app W" using mi by (simp_all add: mid_inv_def)
  from log_inv_prune [OF li _ pr [unfolded prune_log_def]] len
  have ck: "log_inv rs m ck" "load_or_default None ck = load_or_default None ?ck" "committed_batch ck = committed_batch ?ck" by auto
  let ?q1 = "q\<lparr>mq_checkpoint := ck\<rparr>"
  have m1: "mid_inv rs (length rs) ?q1" using mi ck m by (simp add: mid_inv_def)
  obtain q2 r2 where pc: "put_checkpoint [] (save (bf_save bf) (?s\<lparr>cs_pruned_through := n\<rparr>)) ?q1 = (q2, r2)" by (metis surj_pair)
  have "q2 = ?q1\<lparr>mq_checkpoint := (mq_checkpoint ?q1)\<lparr>ck_offsets := Some (?s\<lparr>cs_pruned_through := n\<rparr>)\<rparr>\<rparr> \<or> q2 = ?q1 \<and> (\<exists>e. r2 = Inl e)"
    by (rule put_checkpoint_put [OF pc]) (rule save_def)
  then have q2: "mid_inv rs (length rs) q2 \<and> mq_table q2 = mq_table q \<and> mq_sink q2 = mq_sink q \<and> mq_source q2 = mq_source q"
  proof
    assume q2: "q2 = ?q1\<lparr>mq_checkpoint := (mq_checkpoint ?q1)\<lparr>ck_offsets := Some (?s\<lparr>cs_pruned_through := n\<rparr>)\<rparr>\<rparr>"
    have "log_inv rs (length rs) (ck\<lparr>ck_offsets := Some (?s\<lparr>cs_pruned_through := n\<rparr>)\<rparr>)"
      using log_inv_save [OF ck(1), of "?s\<lparr>cs_pruned_through := n\<rparr>"] len ck(3) qi committed_restores [OF mi p]
      by (simp add: resume_record_def)
    with m1 p qi show ?thesis by (simp add: mid_inv_def q2 resume_record_def)
  next
    assume "q2 = ?q1 \<and> (\<exists>e. r2 = Inl e)"
    with m1 show ?thesis by simp
  qed
  have ld: "bf_load bf = None" and en: "ss_env_ok W (bf_mark_durable bf)" using env by (simp_all add: env_good_def)
  have eq: "(q', res) = and_then (q2, r2) (\<lambda>q1 _. on_source (src_mark_durable (ss_source W) (bf_mark_durable bf)) q1)"
    using rp pr pc ld by (simp add: record_phase_def Let_def)
  show ?thesis
  proof (cases r2)
    case (Inl e)
    with eq q2 show ?thesis by (simp add: and_then_def)
  next
    case (Inr u)
    obtain s2 t where s2: "src_mark_durable (ss_source W) (bf_mark_durable bf) (mq_source q2) = (s2, t)" by (metis surj_pair)
    have "inv (mq_source q2)" using q2 unfolding mid_inv_def by blast
    from source.durable_law [OF this en s2] have "inv s2" "pos s2 = position rs" using q2 p by simp_all
    from mid_inv_source(1) [OF conjunct1 [OF q2] this(1) disjI2 [OF this(2)]] eq Inr s2 q2
    show ?thesis by (simp add: and_then_def on_source_def)
  qed
qed

lemma mid_inv_status:
  "mid_inv rs m (q\<lparr>mq_batch_id := b, mq_is_data_available := t, mq_last_progress := g\<rparr>) \<longleftrightarrow> mid_inv rs m q"
  "mid_inv rs m (q\<lparr>mq_is_active := t\<rparr>) \<longleftrightarrow> mid_inv rs m q"
  "mid_inv rs m (stop_query q) \<longleftrightarrow> mid_inv rs m q"
  "mid_inv rs m (fail_query e q) \<longleftrightarrow> mid_inv rs m q"
  by (simp_all add: mid_inv_def stop_query_def fail_query_def)

lemma status_simps:
  "mq_table (stop_query q) = mq_table q" "mq_sink (stop_query q) = mq_sink q"
  "mq_batch_id (stop_query q) = mq_batch_id q" "mq_checkpoint (stop_query q) = mq_checkpoint q"
  "mq_table (fail_query e q) = mq_table q" "mq_sink (fail_query e q) = mq_sink q"
  "mq_batch_id (fail_query e q) = mq_batch_id q" "mq_checkpoint (fail_query e q) = mq_checkpoint q"
  by (simp_all add: stop_query_def fail_query_def)

lemma finish_inv:
  assumes mi: "mid_inv rs m q" and len: "length rs = Suc (committed_batch (mq_checkpoint q))"
    and p: "pos (mq_source q) = position rs" and tb: "table_inv rs (length rs) (mq_table q)" and env: "env_good W bf"
    and eq: "(q', res) =
      and_then (put_checkpoint what (save_commit (bf_save_commit bf)
         \<lparr>bc_batch_id = length rs, bc_num_output_rows = n, bc_resume_position = src_committed_offsets (ss_source W) (mq_source q)\<rparr>) q)
       (\<lambda>q4 _. let q5 = q4\<lparr>mq_batch_id := length rs, mq_is_data_available := True, mq_last_progress := g\<rparr>
         in and_then (record_phase (ss_source W) bf (length rs) (src_committed_offsets (ss_source W) (mq_source q)) q5)
              (\<lambda>q6 _. (q6, Inr (total_rows bs))))"
  shows "(\<exists>m'. mid_inv rs m' q') \<and> mq_table q' = mq_table q \<and> mq_sink q' = mq_sink q"
proof -
  let ?kc = "\<lparr>bc_batch_id = length rs, bc_num_output_rows = n, bc_resume_position = src_committed_offsets (ss_source W) (mq_source q)\<rparr>"
  obtain q4 r4 where pc: "put_checkpoint what (save_commit (bf_save_commit bf) ?kc) q = (q4, r4)" by (metis surj_pair)
  have "bc_batch_id ?kc = length rs" "bc_resume_position ?kc = src_committed_offsets (ss_source W) (mq_source q)" by simp_all
  note ci = commit_inv [OF mi len p tb this pc]
  show ?thesis
  proof (cases r4)
    case (Inl e)
    with eq pc have "q' = q4" by (simp add: and_then_def)
    with ci mi show ?thesis by (auto simp: frame_def)
  next
    case (Inr u)
    with ci have m4: "mid_inv rs (length rs) q4" by auto
    let ?q5 = "q4\<lparr>mq_batch_id := length rs, mq_is_data_available := True, mq_last_progress := g\<rparr>"
    obtain q6 r6 where rp: "record_phase (ss_source W) bf (length rs) (src_committed_offsets (ss_source W) (mq_source q)) ?q5 = (q6, r6)"
      by (metis surj_pair)
    have "mid_inv rs (length rs) ?q5" using m4 by (simp add: mid_inv_status)
    moreover have "length rs = Suc (committed_batch (mq_checkpoint ?q5))" "pos (mq_source ?q5) = position rs"
      "mq_source ?q5 = mq_source q" using ci len p by (simp_all add: frame_def)
    ultimately have "mid_inv rs (length rs) q6 \<and> mq_table q6 = mq_table ?q5 \<and> mq_sink q6 = mq_sink ?q5"
      using record_inv [of rs "length rs" ?q5 bf q6 r6] env rp by simp
    moreover have "q' = q6" using eq pc Inr rp by (auto simp: and_then_def Let_def split: sum.splits)
    ultimately show ?thesis using ci by (auto simp: frame_def)
  qed
qed

lemma run_batch_inner_inv:
  assumes mi: "mid_inv rs m q" and k: "ok (mq_table q) (mq_sink q)" and b: "mq_batch_id q = committed_batch (mq_checkpoint q)"
    and env: "env_good W bf" "may_die W bf" and idr: "id_in_range (Suc (mq_batch_id q))"
    and run: "run_batch_inner (ss_source W) (ss_write W) (ss_engine W) bf q = (q', res)"
  shows "\<exists>rs' m'. mid_inv rs' m' q' \<and> (survives W bf \<longrightarrow> ok (mq_table q') (mq_sink q'))"
proof -
  let ?c = "committed_batch (mq_checkpoint q)"
  obtain q1 r1 where pp: "plan_phase (ss_source W) bf (Suc ?c) q = (q1, r1)" by (metis surj_pair)
  from plan_phase_inv [OF mi env(1) pp] obtain rs1 where p1: "mid_inv rs1 m q1" "frame q q1"
    "case r1 of Inr (Some r) \<Rightarrow> length rs1 = Suc ?c \<and> rs1 ! ?c = r | _ \<Rightarrow> True" by blast
  have k1: "ok (mq_table q1) (mq_sink q1)" and c1: "committed_batch (mq_checkpoint q1) = ?c" using p1(2) k by (simp_all add: frame_def)
  show ?thesis
  proof (cases "\<exists>r. r1 = Inr (Some r)")
    case False
    then have "q' = q1" using run pp b by (auto simp: run_batch_inner_def and_then_def Let_def split: sum.splits option.splits)
    with p1(1) k1 show ?thesis by blast
  next
    case True
    then obtain r where r: "r1 = Inr (Some r)" ..
    with p1(3) have len: "length rs1 = Suc ?c" and nth: "rs1 ! ?c = r" by simp_all
    obtain q2 r2 where wr: "with_retry (\<lambda>i. on_source (\<lambda>s. src_poll_range (ss_source W) (bf_poll bf i) s r)) 0 q1 = (q2, r2)"
      by (metis surj_pair)
    from poll_inv [OF p1(1) env(1) _ _ wr] len nth c1
    have p2: "mid_inv rs1 m q2" "frame q1 q2" "case r2 of Inl e \<Rightarrow> True | Inr bs \<Rightarrow> bs = data r \<and> pos (mq_source q2) = position rs1" by auto
    have k2: "ok (mq_table q2) (mq_sink q2)" and c2: "?c = committed_batch (mq_checkpoint q2)" using p2(2) k1 c1 by (simp_all add: frame_def)
    show ?thesis
    proof (cases r2)
      case (Inl e)
      with run pp b r wr have "q' = q2" by (simp add: run_batch_inner_def and_then_def)
      with p2(1) k2 show ?thesis by blast
    next
      case (Inr bs)
      with p2(3) have bs: "bs = data (rs1 ! ?c)" and ps: "pos (mq_source q2) = position rs1" using nth by simp_all
      obtain q3 r3 where wp: "write_phase (ss_write W) (ss_engine W) bf (Suc ?c) bs q2 = (q3, r3)" by (metis surj_pair)
      note p3 = write_phase_inv [OF p2(1) c2 len k2 env idr [unfolded b] wp [unfolded bs]]
      show ?thesis
      proof (cases r3)
        case Inl3: (Inl e)
        with run pp b r wr Inr wp have "q' = q3" by (simp add: run_batch_inner_def and_then_def)
        with p3 show ?thesis by blast
      next
        case Inr3: (Inr n)
        have m3: "mid_inv rs1 m q3" "length rs1 = Suc (committed_batch (mq_checkpoint q3))" "pos (mq_source q3) = position rs1"
          "table_inv rs1 (length rs1) (mq_table q3)" using p3 Inr3 len c2 ps by simp_all
        have "(\<exists>m'. mid_inv rs1 m' q') \<and> mq_table q' = mq_table q3 \<and> mq_sink q' = mq_sink q3"
          by (rule finish_inv [OF m3 env(1), of q' res "''committing batch '' @ show_nat (length rs1) @ '': ''" n
                "Some \<lparr>pg_batch_id = length rs1, pg_num_input_rows = total_rows bs, pg_num_output_rows = n,
                   pg_start_offset = br_start r, pg_end_offset = map_option so_entries (src_committed_offsets (ss_source W) (mq_source q3))\<rparr>" bs])
            (simp only: run [symmetric] run_batch_inner_def Let_def b add_0_right Suc_eq_plus1 [symmetric] pp r wr Inr wp Inr3 len and_then_simps option.case)
        with p3 show ?thesis by auto
      qed
    qed
  qed
qed

text \<open>Starting over a checkpoint: what is committed but not recorded is recovered, and the position restored.\<close>

lemma recover_inv:
  assumes "log_inv rs m ck" and "recover_loop n rf (load_or_default None ck) ck = (ck', res)"
  shows "log_inv rs m ck' \<and> cs_query_id (load_or_default None ck') = cs_query_id (load_or_default None ck) \<and>
    (case res of Inl e \<Rightarrow> True | Inr s \<Rightarrow> s = load_or_default None ck')"
  using assms
proof (induction n arbitrary: ck)
  case (Suc n)
  let ?s = "load_or_default None ck" and ?c = "committed_batch ck"
  have cs: "cs_committed_batch_id ?s = ?c" by (simp add: committed_batch_def)
  show ?case
  proof (cases "rf_commit rf (Suc ?c)")
    case (Some e)
    with Suc.prems show ?thesis by (auto simp: cs load_commit_def Let_def)
  next
    case none: None
    show ?thesis
    proof (cases "Option.bind (ck_commits ck (Suc ?c)) bc_resume_position")
      case None
      with none Suc.prems show ?thesis by (auto simp: cs load_commit_def Let_def)
    next
      case (Some o1)
      then obtain k where k: "ck_commits ck (Suc ?c) = Some k" "bc_resume_position k = Some o1" by (auto simp: bind_eq_Some_conv)
      have "case ck_commits ck (Suc ?c) of None \<Rightarrow> m < Suc ?c | Some k \<Rightarrow> Suc ?c \<le> m \<and> restores (bc_resume_position k) (position rs)"
        using Suc.prems(1) unfolding log_inv_def by blast
      then have re: "restores (Some o1) (position rs)" "Suc ?c \<le> m" using k by simp_all
      then have len: "length rs = Suc ?c" "m = length rs" using Suc.prems(1) by (simp_all add: log_inv_def)
      then have qi: "cs_query_id ?s = ss_app W" using Suc.prems(1) by (auto simp: log_inv_def)
      let ?s1 = "?s\<lparr>cs_committed_batch_id := Suc ?c, cs_batch_id := Suc ?c, cs_source_offsets := Some o1\<rparr>"
      have li: "log_inv rs m (ck\<lparr>ck_offsets := Some ?s1\<rparr>)"
        using log_inv_save [OF Suc.prems(1) len(1), of ?s1] len re qi by simp
      have rec: "recover_loop (Suc n) rf ?s ck =
          (case save (rf_save rf (Suc ?c)) ?s1 ck of (ck1, Inl e) \<Rightarrow> (ck1, Inl (ck_error ck [] e)) | (ck1, Inr _) \<Rightarrow> recover_loop n rf ?s1 ck1)"
        using none k by (simp add: cs load_commit_def Let_def)
      show ?thesis
      proof (cases "rf_save rf (Suc ?c)")
        case PutOk
        then have "recover_loop n rf (load_or_default None (ck\<lparr>ck_offsets := Some ?s1\<rparr>)) (ck\<lparr>ck_offsets := Some ?s1\<rparr>) = (ck', res)"
          using Suc.prems(2) rec by (simp add: save_def)
        from Suc.IH [OF li this] show ?thesis by simp
      next
        case (PutUnacked e)
        then have "ck' = ck\<lparr>ck_offsets := Some ?s1\<rparr>" "\<exists>x. res = Inl x" using Suc.prems(2) rec by (auto simp: save_def)
        with li show ?thesis by auto
      next
        case (PutFailed e)
        then have "ck' = ck" "\<exists>x. res = Inl x" using Suc.prems(2) rec by (auto simp: save_def)
        with Suc.prems(1) show ?thesis by auto
      qed
    qed
  qed
qed auto

definition sys_inv :: "('s, 'k, 'd) stream_system \<Rightarrow> bool" where
  "sys_inv S \<longleftrightarrow> (case S of
     Down ck d \<Rightarrow> \<exists>rs m. log_inv rs m ck \<and> table_inv rs m d
   | Up q \<Rightarrow> \<exists>rs m. mid_inv rs m q \<and> ok (mq_table q) (mq_sink q) \<and> mq_batch_id q = committed_batch (mq_checkpoint q))"

lemma sys_inv_simps:
  "log_inv rs m ck \<Longrightarrow> table_inv rs m d \<Longrightarrow> sys_inv (Down ck d)"
  "mid_inv rs m q \<Longrightarrow> ok (mq_table q) (mq_sink q) \<Longrightarrow> mq_batch_id q = committed_batch (mq_checkpoint q) \<Longrightarrow> sys_inv (Up q)"
  unfolding sys_inv_def by (simp, blast)+

lemma init_inv:
  assumes "log_inv rs m ck" and "cs_query_id (load_or_default None ck) = [] \<Longrightarrow> qid = ss_app W"
    and "init_for_query None a qid rid ck = (ck', res)"
  shows "log_inv rs m ck' \<and> (res = Inr () \<longrightarrow> cs_query_id (load_or_default None ck') = ss_app W \<and>
    cs_source_offsets (load_or_default None ck') = cs_source_offsets (load_or_default None ck) \<and> committed_batch ck' = committed_batch ck)"
proof -
  let ?s = "load_or_default None ck"
  let ?s1 = "(if cs_query_id ?s = [] then ?s\<lparr>cs_query_id := qid\<rparr> else ?s)\<lparr>cs_run_id := rid\<rparr>"
  have q: "cs_query_id ?s1 = ss_app W" using assms(1,2) by (auto simp: log_inv_def)
  have e: "cs_source_offsets ?s1 = cs_source_offsets ?s" "cs_committed_batch_id ?s1 = committed_batch ck"
    by (simp_all add: committed_batch_def)
  note li = log_inv_same [OF assms(1) e(2,1) q]
  have "ck' = (if put_lands a then ck\<lparr>ck_offsets := Some ?s1\<rparr> else ck)" "res = put_result a"
    using assms(3) by (simp_all only: init_for_query_def save_def Let_def prod.inject)
  with assms(1) li q e show ?thesis by (cases a) simp_all
qed

lemma start_inv:
  assumes inv: "log_inv rs m ck" "table_inv rs m d" and rf: "rf_load (sf_recover sf) = None" "sf_init_load sf = None"
    and qid: "cs_query_id (load_or_default None ck) = [] \<longrightarrow> qid = ss_app W"
    and st: "start_with_config (ss_source W) (Inr (ss_start W)) (ss_open W) (plain_config W) qid rid sf ck d = (ck', d', res)"
  shows "sys_inv (case res of Inl e \<Rightarrow> Down ck' d' | Inr q \<Rightarrow> Up q)"
proof (cases "sf_probe sf")
  case (Some e)
  have "(ck, d, Inl e) = (ck', d', res)" using st by (simp only: start_with_config_def Some option.case)
  with sys_inv_simps(1) [OF inv] show ?thesis by auto
next
  case pr: None
  obtain ck1 r1 where rc: "recover_from_log (sf_recover sf) ck = (ck1, r1)" by (metis surj_pair)
  from recover_inv [OF inv(1) rc [unfolded recover_from_log_def rf]]
  have r1: "log_inv rs m ck1" "cs_query_id (load_or_default None ck1) = cs_query_id (load_or_default None ck)"
      "case r1 of Inl e \<Rightarrow> True | Inr s \<Rightarrow> s = load_or_default None ck1" by simp_all
  show ?thesis
  proof (cases r1)
    case (Inl e)
    have "(ck1, d, Inl e) = (ck', d', res)"
      using st by (simp only: start_with_config_def pr rc Inl option.case sum.case prod.case)
    with sys_inv_simps(1) [OF r1(1) inv(2)] show ?thesis by auto
  next
    case (Inr s)
    then have s: "s = load_or_default None ck1" using r1(3) by simp
    have app: "(if cs_query_id s = [] then qid else cs_query_id s) = ss_app W"
      using qid r1(1,2) s by (auto simp: log_inv_def)
    obtain d1 r2 where op: "ss_open W (ss_app W) d = (d1, r2)" by (metis surj_pair)
    have "durable d" using inv(2) by (simp add: table_inv_def)
    note ol = sink.open_law [OF this op]
    then have t1: "table_inv rs m d1" using inv(2) by (auto simp: table_inv_def)
    show ?thesis
    proof (cases r2)
      case Inl2: (Inl e)
      have "(ck1, d1, Inl e) = (ck', d', res)"
        using st by (simp only: start_with_config_def pr rc Inr Let_def app op Inl2 option.case sum.case prod.case)
      with sys_inv_simps(1) [OF r1(1) t1] show ?thesis by auto
    next
      case Inr2: (Inr k)
      obtain ck2 r3 where it: "init_for_query None (sf_init_save sf) qid rid ck1 = (ck2, r3)" by (metis surj_pair)
      note ii = init_inv [OF r1(1) _ it]
      then have i: "log_inv rs m ck2" "r3 = Inr () \<longrightarrow> cs_query_id (load_or_default None ck2) = ss_app W \<and>
          cs_source_offsets (load_or_default None ck2) = cs_source_offsets s \<and> committed_batch ck2 = cs_committed_batch_id s"
        using qid r1(2) s by (auto simp: committed_batch_def)
      show ?thesis
      proof (cases r3)
        case Inl3: (Inl e)
        have "\<exists>x. (ck2, d1, Inl x) = (ck', d', res)"
          using st by (simp only: start_with_config_def pr rc Inr Let_def app op Inr2 rf it Inl3 option.case sum.case prod.case) blast
        with sys_inv_simps(1) [OF i(1) t1] show ?thesis by auto
      next
        case Inr3: (Inr u)
        let ?src = "case cs_source_offsets s of None \<Rightarrow> ss_start W | Some o1 \<Rightarrow> src_restore_offsets (ss_source W) o1 (ss_start W)"
        let ?q = "\<lparr>mq_source = ?src, mq_sink = k, mq_watermark = sc_watermark (plain_config W),
             mq_tracker = cs_max_event_time_micros s, mq_dedup = None, mq_dedup_columns = [], mq_dedup_key_cols = [],
             mq_expectations = sc_expectations (plain_config W), mq_query_id = qid, mq_batch_id = cs_committed_batch_id s,
             mq_is_active = True, mq_is_data_available = False, mq_message = ''initialized'', mq_last_progress = None,
             mq_checkpoint = ck2, mq_table = d1\<rparr>"
        have "(ck2, d1, Inr ?q) = (ck', d', res)"
          using st by (simp only: start_with_config_def pr rc Inr Let_def app op Inr2 rf it Inr3 no_dedup option.case sum.case prod.case simp_thms if_True)
        then have "Inr ?q = res" by (elim Pair_inject)
        note res = this [symmetric]
        obtain q where q: "res = Inr q" "mq_source q = ?src" "mq_sink q = k" "mq_table q = d1" "mq_checkpoint q = ck2"
            "mq_dedup q = None" "mq_batch_id q = cs_committed_batch_id s"
          by (rule that [OF res]) simp_all
        have src: "inv ?src \<and> pos ?src = position (take (committed_batch ck2) rs)"
          using i Inr3 source.inv_start by (auto simp: log_inv_def restores_def split: option.splits)
        with i t1 Inr3 q have "mid_inv rs m q" by (simp add: mid_inv_def)
        moreover have "ok d1 k" using ol Inr2 by simp
        ultimately have "sys_inv (Up q)" using i Inr3 q by (intro sys_inv_simps(2)) simp_all
        then show ?thesis by (simp add: q(1))
      qed
    qed
  qed
qed

lemma run_batch_inv:
  assumes "sys_inv (Up q)" and env: "env_good W bf" "may_die W bf" and idr: "id_in_range (Suc (mq_batch_id q))"
    and run: "run_batch (ss_source W) (ss_write W) (ss_engine W) bf q = (q', res)"
  shows "\<exists>rs' m'. mid_inv rs' m' q' \<and> (survives W bf \<longrightarrow> ok (mq_table q') (mq_sink q'))"
proof -
  obtain rs m where q: "mid_inv rs m q" "ok (mq_table q) (mq_sink q)" "mq_batch_id q = committed_batch (mq_checkpoint q)"
    using assms(1) by (auto simp: sys_inv_def)
  show ?thesis
  proof (cases "mq_is_active q")
    case True
    with run have "run_batch_inner (ss_source W) (ss_write W) (ss_engine W) bf q = (q', res)" by (simp add: run_batch_def)
    with q env idr show ?thesis by (intro run_batch_inner_inv)
  next
    case False
    with run have "q' = q" by (simp add: run_batch_def)
    with q(1,2) show ?thesis by blast
  qed
qed

lemma stream_run_inv:
  assumes "stream_run W d0 S" and "durable d0" and "slog d0 = []"
  shows "sys_inv S"
  using assms(1)
proof (induction rule: stream_run.induct)
  case (run_fresh loc)
  have "log_inv [] 0 \<lparr>ck_offsets = None, ck_planned = Map.empty, ck_commits = Map.empty, ck_location = loc\<rparr>"
    by (simp add: log_inv_def committed_batch_def load_or_default_def load_def checkpoint_state_default_def)
  moreover have "table_inv [] 0 d0" using assms(2,3) by (simp add: table_inv_def)
  ultimately show ?case by (rule sys_inv_simps)
next
  case (run_start ck d sf qid rid ck' d' res)
  then obtain rs m where "log_inv rs m ck" "table_inv rs m d" by (auto simp: sys_inv_def)
  from start_inv [OF this run_start(2-5)] show ?case .
next
  case (run_batch q bf q' res)
  have "may_die W bf" using run_batch(3) by (simp add: survives_def may_die_def)
  from run_batch_inv [OF run_batch(7,2) this run_batch(4,5)] run_batch(3,6) show ?case by (auto simp: sys_inv_def)
next
  case (run_crash q bf q' res)
  from run_batch_inv [OF run_crash(6,2-5)] obtain rs m where "mid_inv rs m q'" by blast
  then show ?case by (auto simp: mid_inv_def intro: sys_inv_simps)
next
  case (run_stop q)
  then show ?case by (simp add: sys_inv_def mid_inv_status status_simps)
next
  case (run_fail q e)
  then show ?case by (simp add: sys_inv_def mid_inv_status status_simps)
qed

lemma chain_take: "chain rs \<Longrightarrow> chain (take l rs)"
  by (metis append_take_drop_id range_chain_append)

theorem exactly_once:
  assumes "stream_run W d0 S" and "durable d0" and "slog d0 = []"
  shows "\<exists>rs. chain rs \<and> slog (system_table S) = expected rs \<and>
    committed_batch (system_checkpoint S) \<le> length rs \<and> length rs \<le> Suc (committed_batch (system_checkpoint S))"
proof -
  obtain rs m where l: "log_inv rs m (system_checkpoint S)" "table_inv rs m (system_table S)"
    using stream_run_inv [OF assms] by (cases S) (auto simp: sys_inv_def mid_inv_def)
  then obtain k where k: "m \<le> k" "k \<le> length rs" "slog (system_table S) = expected (take k rs)" by (auto simp: table_inv_def)
  have "chain (take k rs)" using l(1) chain_take by (auto simp: log_inv_def)
  with k l(1) show ?thesis by (intro exI [of _ "take k rs"]) (simp add: log_inv_def)
qed

end

end
