(* ===== verification/Lake_Delivery.thy ===== *)
theory Lake_Delivery
  imports Stream_Sinks Exactly_Once "HOL-Library.Sublist"
begin

text \<open>
  The Delta sink meets the contract of a transactional sink, and a query from a directory of files to
  a Delta table delivers every file exactly once. What the table carries for a query is read off its
  log: for each commit stamped with the query's identifier, the data files of the commit with the rows
  they store.
\<close>

section \<open>The rows of a commit\<close>








definition file_contents :: "delta_store \<Rightarrow> add_file list \<Rightarrow> (partition_key \<times> record_batch list option) list" where
  "file_contents st fs = map (\<lambda>f. (af_partition_values f, map_of (ds_objects st) (af_path f))) fs"

text \<open>A prefix is fresh when no object of the table has it in its name.\<close>

definition fresh_prefix :: "delta_store \<Rightarrow> string \<Rightarrow> bool" where
  "fresh_prefix st pfx \<longleftrightarrow> (\<forall>p \<in> fst ` set (ds_objects st). \<not> sublist pfx p)"











section \<open>What an append leaves behind\<close>





section \<open>The Delta sink is transactional\<close>

definition lake_slog :: "string \<Rightarrow> delta_store \<Rightarrow> (nat \<times> (partition_key \<times> record_batch list option) list) list" where
  "lake_slog a st = map (\<lambda>(i, fs). (nat i, file_contents st fs)) (app_log a (bodies st))"


text \<open>A table between writes: its log is well formed, and every file a commit of the query names is there.\<close>

definition files_present :: "string \<Rightarrow> delta_store \<Rightarrow> bool" where
  "files_present a st \<longleftrightarrow>
     (\<forall>(i, fs) \<in> set (app_log a (bodies st)). 0 \<le> i \<and> (\<forall>f \<in> set fs. af_path f \<in> fst ` set (ds_objects st)))"




definition lake_fault_ok :: "string \<Rightarrow> lake_faults \<Rightarrow> bool" where
  "lake_fault_ok a f \<longleftrightarrow> foreign_races a (lf_delta f) \<and> (\<forall>st. fresh_prefix st (lf_prefix f st))"

definition lake_acked :: "lake_faults \<Rightarrow> bool" where
  "lake_acked f \<longleftrightarrow> acknowledged (lf_delta f)"

definition lake_dead :: "lake_faults \<Rightarrow> bool" where
  "lake_dead f \<longleftrightarrow> (\<forall>i. df_put_file (lf_delta f) i \<noteq> None)"





lemma slog_ids:
  assumes "files_present a st" and "0 \<le> n"
  shows "(\<forall>m \<in> fst ` set (lake_slog a st). m < nat n) \<longleftrightarrow> (\<forall>i \<in> set (map fst (app_log a (bodies st))). i < n)"
  using assms by (fastforce simp: lake_slog_def files_present_def)


lemma schema_error_writer [simp]: "schema_error what eng (k\<lparr>ls_writer := x\<rparr>) bs = schema_error what eng k bs"
  by (simp add: schema_error_def cong: option.case_cong)







section \<open>The sink of a query\<close>










section \<open>From a directory of files to a Delta table\<close>

definition file_to_lake ::
  "lake_engine \<Rightarrow> stream_query_config \<Rightarrow> string \<Rightarrow> string list \<Rightarrow> field list \<Rightarrow> query_engine \<Rightarrow> watermark_config option \<Rightarrow>
   file_source \<Rightarrow> (string \<Rightarrow> record_batch list) \<Rightarrow> string \<Rightarrow>
   (file_source, file_env, sink_faults, sink_world, stream_sink) stream_setup" where
  "file_to_lake eng config catalog ns schema qe wm s0 content app =
     \<lparr>ss_source = file_ops, ss_start = s0\<lparr>fs_seen := []\<rparr>,
      ss_open = \<lambda>a d. (d, build_sink eng config catalog ns schema a d), ss_write = stream_sink_write eng,
      ss_engine = qe, ss_watermark = wm, ss_expectations = cf_expectations config, ss_app = app,
      ss_env_ok = files_stable s0 content, ss_fault_ok = \<lambda>f. lake_fault_ok app (kf_lake f),
      ss_acked = \<lambda>f. lake_acked (kf_lake f), ss_dead = \<lambda>f. lake_dead (kf_lake f)\<rparr>"

lemma file_to_lake_simps [simp]:
  "ss_source (file_to_lake eng config catalog ns schema qe wm s0 content app) = file_ops"
  "ss_start (file_to_lake eng config catalog ns schema qe wm s0 content app) = s0\<lparr>fs_seen := []\<rparr>"
  "ss_open (file_to_lake eng config catalog ns schema qe wm s0 content app) = (\<lambda>a d. (d, build_sink eng config catalog ns schema a d))"
  "ss_write (file_to_lake eng config catalog ns schema qe wm s0 content app) = stream_sink_write eng"
  "ss_engine (file_to_lake eng config catalog ns schema qe wm s0 content app) = qe"
  "ss_app (file_to_lake eng config catalog ns schema qe wm s0 content app) = app"
  "ss_env_ok (file_to_lake eng config catalog ns schema qe wm s0 content app) = files_stable s0 content"
  "ss_fault_ok (file_to_lake eng config catalog ns schema qe wm s0 content app) = (\<lambda>f. lake_fault_ok app (kf_lake f))"
  "ss_acked (file_to_lake eng config catalog ns schema qe wm s0 content app) = (\<lambda>f. lake_acked (kf_lake f))"
  "ss_dead (file_to_lake eng config catalog ns schema qe wm s0 content app) = (\<lambda>f. lake_dead (kf_lake f))"
  by (simp_all add: file_to_lake_def)



































end
