(* ===== verification/Shuffle_Partition.thy ===== *)
theory Shuffle_Partition
  imports Record_Batch "HOL-Library.Word" "HOL-Library.Multiset"
begin

unbundle bit_operations_syntax

text \<open>
  Hash partitioning of a stage's output (\<^verbatim>\<open>oxidant-execution/src/shuffle/partition.rs\<close>): the FNV-1a hash
  of the encoded key columns, at 64 bits, picks the bucket of a row. Arrow's row converter is a
  parameter. \<^verbatim>\<open>None\<close> is a panic: no buckets, or a key column outside the schema. Compacting the string
  buffers of a part (\<^verbatim>\<open>compact_views\<close>) does not change its values and is left out.
\<close>

section \<open>Hashing\<close>

definition FNV_OFFSET :: "64 word" where "FNV_OFFSET = 0xcbf29ce484222325"
definition FNV_PRIME :: "64 word" where "FNV_PRIME = 0x100000001b3"

definition fnv1a :: "string \<Rightarrow> 64 word" where
  "fnv1a bytes = fold (\<lambda>b h. (h XOR of_char b) * FNV_PRIME) bytes FNV_OFFSET"

definition bucket_of :: "nat \<Rightarrow> string \<Rightarrow> nat" where
  "bucket_of n bytes = nat (uint (fnv1a bytes) mod int n)"

section \<open>Buckets\<close>

record row_converter =
  rc_new :: "data_type list \<Rightarrow> string option"
  rc_convert :: "data_type list \<Rightarrow> cell list list \<Rightarrow> string + string list"

text \<open>\<^verbatim>\<open>idx[bucket].push(i as u32)\<close> for every row, in order; the cast wraps.\<close>

definition as_u32 :: "nat \<Rightarrow> nat" where "as_u32 i = nat (int i mod 4294967296)"

definition bucket_indices :: "nat \<Rightarrow> string list \<Rightarrow> nat list list" where
  "bucket_indices n keys =
     fold (\<lambda>(i, k) idx. idx[bucket_of n k := idx ! bucket_of n k @ [as_u32 i]]) (enumerate 0 keys) (replicate n [])"

definition take_rows :: "record_batch \<Rightarrow> nat list \<Rightarrow> record_batch" where
  "take_rows b is = b\<lparr>rb_rows := map (\<lambda>i. rb_rows b ! i) is\<rparr>"

definition push_parts :: "record_batch \<Rightarrow> nat list list \<Rightarrow> record_batch list list \<Rightarrow> record_batch list list" where
  "push_parts b idx out = map2 (\<lambda>is part. if is = [] then part else part @ [take_rows b is]) idx out"

fun partition_batches ::
  "row_converter \<Rightarrow> data_type list \<Rightarrow> nat list \<Rightarrow> nat \<Rightarrow> record_batch list \<Rightarrow> record_batch list list \<Rightarrow> record_batch list list result option" where
  "partition_batches rc types key_cols n [] out = Some (Inr out)"
| "partition_batches rc types key_cols n (b # bs) out =
     (if \<exists>c \<in> set key_cols. num_columns b \<le> c then None
      else case rc_convert rc types (map (\<lambda>row. map (\<lambda>c. row ! c) key_cols) (rb_rows b)) of
        Inl e \<Rightarrow> Some (Inl (Execution (''convert columns: '' @ e)))
      | Inr keys \<Rightarrow> partition_batches rc types key_cols n bs (push_parts b (bucket_indices n keys) out))"

definition hash_partition ::
  "row_converter \<Rightarrow> record_batch list \<Rightarrow> nat list \<Rightarrow> nat \<Rightarrow> record_batch list list result option" where
  "hash_partition rc bs key_cols n =
     (if n = 0 then None
      else let out = replicate n [] in
        case bs of
          [] \<Rightarrow> Some (Inr out)
        | b0 # _ \<Rightarrow>
            if key_cols = [] then Some (Inr (out[0 := bs]))
            else if \<exists>c \<in> set key_cols. num_columns b0 \<le> c then None
            else let types = map (\<lambda>c. f_type (rb_schema b0 ! c)) key_cols in
              case rc_new rc types of
                Some e \<Rightarrow> Some (Inl (Execution (''row converter: '' @ e)))
              | None \<Rightarrow> partition_batches rc types key_cols n bs out)"

section \<open>Every row goes to the bucket of its key\<close>

lemma bucket_indices_fold:
  assumes "0 < n" and "length idx = n"
  shows "length (fold (\<lambda>(i, k) idx. idx[bucket_of n k := idx ! bucket_of n k @ [as_u32 i]]) iks idx) = n \<and>
    (\<forall>j < n. fold (\<lambda>(i, k) idx. idx[bucket_of n k := idx ! bucket_of n k @ [as_u32 i]]) iks idx ! j =
       idx ! j @ map (as_u32 \<circ> fst) (filter (\<lambda>(i, k). bucket_of n k = j) iks))"
  using assms(2)
proof (induction iks arbitrary: idx)
  case (Cons e iks)
  obtain i k where e: "e = (i, k)" by fastforce
  have "bucket_of n k < n" using assms(1) by (simp add: bucket_of_def nat_less_iff)
  with Cons.IH [of "idx[bucket_of n k := idx ! bucket_of n k @ [as_u32 i]]"] Cons.prems show ?case
    by (auto simp: e nth_list_update)
qed simp

lemma bucket_indices_nth:
  assumes "0 < n"
  shows "length (bucket_indices n keys) = n"
    and "j < n \<Longrightarrow> length keys \<le> 4294967296 \<Longrightarrow>
      bucket_indices n keys ! j = map fst (filter (\<lambda>(i, k). bucket_of n k = j) (enumerate 0 keys))"
proof -
  note f = bucket_indices_fold [OF assms, of "replicate n []" "enumerate 0 keys"]
  then show "length (bucket_indices n keys) = n" by (simp add: bucket_indices_def)
  assume j: "j < n" and l: "length keys \<le> 4294967296"
  have "as_u32 i = i" if "(i, k) \<in> set (enumerate 0 keys)" for i k
    using that l by (auto simp: in_set_enumerate_eq as_u32_def)
  then have "map (as_u32 \<circ> fst) (filter (\<lambda>(i, k). bucket_of n k = j) (enumerate 0 keys)) =
      map fst (filter (\<lambda>(i, k). bucket_of n k = j) (enumerate 0 keys))"
    by (intro map_cong) auto
  with f j show "bucket_indices n keys ! j = map fst (filter (\<lambda>(i, k). bucket_of n k = j) (enumerate 0 keys))"
    by (simp add: bucket_indices_def)
qed

lemma take_enumerated:
  "length keys = length rows \<Longrightarrow>
   map (\<lambda>i. (pre @ rows) ! i) (map fst (filter (\<lambda>(i, k). P k) (enumerate (length pre) keys))) =
   map snd (filter (\<lambda>(k, r). P k) (zip keys rows))"
proof (induction keys rows arbitrary: pre rule: list_induct2)
  case (Cons k keys r rows)
  from Cons.IH [of "pre @ [r]"] show ?case by simp
qed simp

lemma taken_rows:
  assumes "length keys = length (rb_rows b)" and "0 < n" and "j < n" and "num_rows b \<le> 4294967296"
  shows "rb_rows (take_rows b (bucket_indices n keys ! j)) =
    map snd (filter (\<lambda>(k, r). bucket_of n k = j) (zip keys (rb_rows b)))"
  using take_enumerated [OF assms(1), of "[]" "\<lambda>k. bucket_of n k = j"] bucket_indices_nth(2) [OF assms(2,3), of keys] assms(1,4)
  by (simp add: take_rows_def num_rows_def)

lemma push_parts_rows:
  assumes "keys = map enc (rb_rows b)" and "0 < n" and "length out = n" and "j < n"
    and "num_rows b \<le> 4294967296"
  shows "length (push_parts b (bucket_indices n keys) out) = n"
    and "all_rows (push_parts b (bucket_indices n keys) out ! j) =
      all_rows (out ! j) @ filter (\<lambda>r. bucket_of n (enc r) = j) (rb_rows b)"
proof -
  show "length (push_parts b (bucket_indices n keys) out) = n"
    using assms(2,3) by (simp add: push_parts_def bucket_indices_nth)
  have "map snd (filter (\<lambda>(k, r). bucket_of n k = j) (zip (map enc rs) rs)) = filter (\<lambda>r. bucket_of n (enc r) = j) rs" for rs
    by (induction rs) auto
  then have t: "rb_rows (take_rows b (bucket_indices n keys ! j)) = filter (\<lambda>r. bucket_of n (enc r) = j) (rb_rows b)"
    using taken_rows [of keys b n j] assms by simp
  have "push_parts b (bucket_indices n keys) out ! j =
      (if bucket_indices n keys ! j = [] then out ! j else out ! j @ [take_rows b (bucket_indices n keys ! j)])"
    using assms(2-4) by (simp add: push_parts_def bucket_indices_nth(1))
  then show "all_rows (push_parts b (bucket_indices n keys) out ! j) =
      all_rows (out ! j) @ filter (\<lambda>r. bucket_of n (enc r) = j) (rb_rows b)"
    using t by (auto simp: take_rows_def)
qed

text \<open>The encoding of a key depends on its values only.\<close>

definition value_faithful :: "row_converter \<Rightarrow> data_type list \<Rightarrow> (cell list \<Rightarrow> string) \<Rightarrow> bool" where
  "value_faithful rc types enc \<longleftrightarrow> (\<forall>rows keys. rc_convert rc types rows = Inr keys \<longrightarrow> keys = map enc rows)"

definition route :: "(cell list \<Rightarrow> string) \<Rightarrow> nat list \<Rightarrow> nat \<Rightarrow> cell list \<Rightarrow> nat" where
  "route enc key_cols n r = (if key_cols = [] then 0 else bucket_of n (enc (map (\<lambda>c. r ! c) key_cols)))"

lemma partition_batches_rows:
  assumes "partition_batches rc types key_cols n bs out = Some (Inr parts)" and "value_faithful rc types enc"
    and "0 < n" and "length out = n" and "\<forall>b \<in> set bs. num_rows b \<le> 4294967296"
  shows "length parts = n \<and> (\<forall>j < n. all_rows (parts ! j) =
    all_rows (out ! j) @ filter (\<lambda>r. bucket_of n (enc (map (\<lambda>c. r ! c) key_cols)) = j) (all_rows bs))"
  using assms(1,4,5)
proof (induction bs arbitrary: out)
  case (Cons b bs)
  obtain keys where k: "rc_convert rc types (map (\<lambda>row. map (\<lambda>c. row ! c) key_cols) (rb_rows b)) = Inr keys"
      "partition_batches rc types key_cols n bs (push_parts b (bucket_indices n keys) out) = Some (Inr parts)"
    using Cons.prems(1) by (auto split: if_splits sum.splits)
  have keys: "keys = map (\<lambda>r. enc (map (\<lambda>c. r ! c) key_cols)) (rb_rows b)"
    using assms(2) [unfolded value_faithful_def, rule_format, OF k(1)] by simp
  note pp = push_parts_rows [OF keys assms(3) Cons.prems(2)]
  from Cons.IH [OF k(2)] pp assms(3) Cons.prems(3) show ?case by simp
qed simp

lemma hash_partition_rows:
  assumes "hash_partition rc bs key_cols n = Some (Inr parts)"
    and "\<And>types. value_faithful rc types (enc types)"
    and "\<forall>b \<in> set bs. num_rows b \<le> 4294967296"
  shows "length parts = n \<and>
    (\<forall>j < n. all_rows (parts ! j) =
       filter (\<lambda>r. route (enc (map (\<lambda>c. f_type (rb_schema (hd bs) ! c)) key_cols)) key_cols n r = j) (all_rows bs))"
proof (cases bs)
  case Nil
  with assms(1) show ?thesis by (auto simp: hash_partition_def split: if_splits)
next
  case (Cons b0 bs')
  show ?thesis
  proof (cases "key_cols = []")
    case True
    with assms(1) Cons have n: "n \<noteq> 0" "parts = (replicate n [])[0 := bs]" by (auto simp: hash_partition_def split: if_splits)
    show ?thesis
    proof (intro conjI allI impI)
      fix j assume "j < n"
      then show "all_rows (parts ! j) = filter (\<lambda>r. route (enc (map (\<lambda>c. f_type (rb_schema (hd bs) ! c)) key_cols)) key_cols n r = j) (all_rows bs)"
        using n True by (cases "j = 0") (simp_all add: route_def)
    qed (simp add: n)
  next
    case False
    let ?types = "map (\<lambda>c. f_type (rb_schema b0 ! c)) key_cols"
    from assms(1) Cons False have n: "0 < n" and pb: "partition_batches rc ?types key_cols n bs (replicate n []) = Some (Inr parts)"
      by (auto simp: hash_partition_def Let_def simp del: partition_batches.simps split: if_splits option.splits)
    from partition_batches_rows [OF pb assms(2) n _ assms(3)] Cons False show ?thesis by (simp add: route_def)
  qed
qed

text \<open>
  C8. Hash partitioning of batches of at most 2^32 rows loses no row and duplicates none: bucket \<^term>\<open>j\<close> holds exactly the rows whose key
  hashes to it, in the order of the stage's output, so rows of equal keys meet in one bucket whatever
  batch or worker they come from. Without key columns every row goes to bucket 0.
\<close>

theorem hash_partition_exact:
  assumes "hash_partition rc bs key_cols n = Some (Inr parts)"
    and "\<And>types. value_faithful rc types (enc types)"
    and "\<forall>b \<in> set bs. num_rows b \<le> 4294967296"
  shows "length parts = n \<and>
    (\<forall>j < n. all_rows (parts ! j) =
       filter (\<lambda>r. route (enc (map (\<lambda>c. f_type (rb_schema (hd bs) ! c)) key_cols)) key_cols n r = j) (all_rows bs))"
  by (rule hash_partition_rows [OF assms])

definition demo_key :: "cell list \<Rightarrow> string" where
  "demo_key row = concat (map (\<lambda>c. case c of StrCell s \<Rightarrow> s | _ \<Rightarrow> []) row)"

definition demo_converter :: row_converter where
  "demo_converter = \<lparr>rc_new = \<lambda>_. None, rc_convert = \<lambda>_ rows. Inr (map demo_key rows)\<rparr>"

definition demo_shuffle_batches :: "record_batch list" where
  "demo_shuffle_batches =
     [\<lparr>rb_schema = [\<lparr>f_name = ''k'', f_type = Utf8\<rparr>], rb_rows = [[StrCell ''a''], [StrCell ''b''], [StrCell ''a'']]\<rparr>,
      \<lparr>rb_schema = [\<lparr>f_name = ''k'', f_type = Utf8\<rparr>], rb_rows = [[StrCell ''c''], [StrCell ''a'']]\<rparr>]"

theorem hash_partition_exact_witness:
  "\<exists>parts. hash_partition demo_converter demo_shuffle_batches [0] 3 = Some (Inr parts) \<and> length parts = 3 \<and>
     (\<forall>j < 3. all_rows (parts ! j) = filter (\<lambda>r. route demo_key [0] 3 r = j) (all_rows demo_shuffle_batches))"
proof -
  have "(case hash_partition demo_converter demo_shuffle_batches [0] 3 of Some (Inr _) \<Rightarrow> True | _ \<Rightarrow> False)"
    by code_simp
  then obtain parts where parts: "hash_partition demo_converter demo_shuffle_batches [0] 3 = Some (Inr parts)"
    by (auto split: option.splits sum.splits)
  have f: "value_faithful demo_converter types demo_key" for types
    by (simp add: value_faithful_def demo_converter_def)
  have r: "\<forall>b \<in> set demo_shuffle_batches. num_rows b \<le> 4294967296"
    by (simp add: demo_shuffle_batches_def num_rows_def)
  from hash_partition_exact [where enc = "\<lambda>_. demo_key", OF parts f r] parts show ?thesis by blast
qed

end
