(* ===== verification/Shuffle_Spill.thy ===== *)
theory Shuffle_Spill
  imports Shuffle_Partition "HOL-Library.AList"
begin

text \<open>
  The buckets of a stage's output in memory and on disk (\<^verbatim>\<open>oxidant-execution/src/shuffle/spill.rs\<close>).
  The spill directory is the list of its files; a file is what a reader of it gets, so a write that
  fails half way leaves a file that reads as an error or as fewer batches. What the file system
  does wrong during a call, and Arrow's size estimate of a batch, is the argument \<^verbatim>\<open>spill_env\<close>.
  The simulation \<^verbatim>\<open>holds\<close> relates a cache and the directory to the rows of its buckets.
\<close>

section \<open>The spill directory\<close>

record spill_store =
  sp_root :: string
  sp_force :: bool
  sp_memory_limit :: "nat option"
  sp_total_limit :: "nat option"

datatype read_fault = OpenFails string | ReaderFails string | BatchFails string

type_synonym spill_file = "read_fault + record_batch list"
type_synonym spill_files = "(string \<times> spill_file) list"

datatype write_fault = CreateFails string | WriterFails string spill_file | WriteFails string spill_file | FinishFails string spill_file

record spill_env =
  se_write :: "string \<Rightarrow> write_fault option"
  se_read :: "string \<Rightarrow> read_fault option"
  se_list :: bool
  se_size :: "record_batch \<Rightarrow> nat"
  se_len :: "string \<Rightarrow> nat option"

definition put_file :: "string \<Rightarrow> spill_file \<Rightarrow> spill_files \<Rightarrow> spill_files" where
  "put_file name f fs = AList.update name f fs"

definition write_ipc_file :: "spill_env \<Rightarrow> spill_store \<Rightarrow> string \<Rightarrow> record_batch list \<Rightarrow> spill_files \<Rightarrow> spill_files \<times> unit result" where
  "write_ipc_file env st name bs fs =
     (case se_write env name of
        Some (CreateFails e) \<Rightarrow> (fs, Inl (Io (''spill create '' @ path_join (sp_root st) name @ '': '' @ e)))
      | Some (WriterFails e left) \<Rightarrow> (put_file name left fs, Inl (Io (''spill writer: '' @ e)))
      | Some (WriteFails e left) \<Rightarrow> (put_file name left fs, Inl (Io (''spill write: '' @ e)))
      | Some (FinishFails e left) \<Rightarrow> (put_file name left fs, Inl (Io (''spill finish: '' @ e)))
      | None \<Rightarrow> (put_file name (Inr bs) fs, Inr ()))"

definition read_error :: "spill_store \<Rightarrow> string \<Rightarrow> read_fault \<Rightarrow> error" where
  "read_error st name f =
     (case f of
        OpenFails e \<Rightarrow> Io (''spill open '' @ path_join (sp_root st) name @ '': '' @ e)
      | ReaderFails e \<Rightarrow> Io (''spill read: '' @ e)
      | BatchFails e \<Rightarrow> Io (''spill batch: '' @ e))"

definition read_ipc_file :: "spill_env \<Rightarrow> spill_store \<Rightarrow> string \<Rightarrow> spill_files \<Rightarrow> record_batch list result" where
  "read_ipc_file env st name fs =
     (case se_read env name of
        Some f \<Rightarrow> Inl (read_error st name f)
      | None \<Rightarrow>
          (case map_of fs name of
             None \<Rightarrow> Inl (read_error st name (OpenFails ''No such file or directory (os error 2)''))
           | Some (Inl f) \<Rightarrow> Inl (read_error st name f)
           | Some (Inr bs) \<Rightarrow> Inr bs))"

section \<open>Names\<close>

definition scope_prefix :: "nat \<Rightarrow> nat \<Rightarrow> string" where
  "scope_prefix s r = ''stage_'' @ show_nat s @ ''_src'' @ show_nat r @ ''_''"

definition bucket_name :: "nat \<Rightarrow> nat \<Rightarrow> nat \<Rightarrow> string" where
  "bucket_name s r p = ''stage_'' @ show_nat s @ ''_src'' @ show_nat r @ ''_part_'' @ show_nat p @ ''.arrow''"

definition segment_prefix :: "nat \<Rightarrow> nat \<Rightarrow> nat \<Rightarrow> string" where
  "segment_prefix s r p = ''stage_'' @ show_nat s @ ''_src'' @ show_nat r @ ''_part_'' @ show_nat p @ ''.seg''"

definition segment_name :: "nat \<Rightarrow> nat \<Rightarrow> nat \<Rightarrow> nat \<Rightarrow> string" where
  "segment_name s r p q =
     ''stage_'' @ show_nat s @ ''_src'' @ show_nat r @ ''_part_'' @ show_nat p @ ''.seg'' @ show_nat q @ ''.arrow''"

definition parse_seq :: "string \<Rightarrow> nat option" where "parse_seq s = parse_u64 s"

lemma parse_seq_code [code]:
  "parse_seq s =
     (let t = (case s of [] \<Rightarrow> [] | c # cs \<Rightarrow> if c = CHR ''+'' then cs else s) in
      if t \<noteq> [] \<and> list_all is_digit t \<and> int (digits_value t) \<le> 18446744073709551615 then Some (digits_value t) else None)"
proof -
  have "n \<le> u64_max \<longleftrightarrow> int n \<le> 18446744073709551615" for n by simp
  then show ?thesis by (simp add: parse_seq_def parse_unsigned_def Let_def)
qed

definition segment_seq :: "nat \<Rightarrow> nat \<Rightarrow> nat \<Rightarrow> string \<Rightarrow> nat option" where
  "segment_seq s r p name =
     (if starts_with name (segment_prefix s r p)
      then let rest = drop (length (segment_prefix s r p)) name in
        if ends_with rest ''.arrow'' then parse_seq (take (length rest - 6) rest) else None
      else None)"

definition segment_paths :: "spill_env \<Rightarrow> nat \<Rightarrow> nat \<Rightarrow> nat \<Rightarrow> spill_files \<Rightarrow> string list" where
  "segment_paths env s r p fs =
     (if se_list env
      then map snd (sort_key fst (List.map_filter (\<lambda>(name, _). map_option (\<lambda>q. (q, name)) (segment_seq s r p name)) fs))
      else [])"

section \<open>Buckets on disk\<close>

definition write_bucket ::
  "spill_env \<Rightarrow> spill_store \<Rightarrow> nat \<Rightarrow> nat \<Rightarrow> nat \<Rightarrow> record_batch list \<Rightarrow> spill_files \<Rightarrow> spill_files \<times> unit result" where
  "write_bucket env st s r p bs fs = write_ipc_file env st (bucket_name s r p) bs fs"

definition append_batches_to_bucket ::
  "spill_env \<Rightarrow> spill_store \<Rightarrow> nat \<Rightarrow> nat \<Rightarrow> nat \<Rightarrow> record_batch list \<Rightarrow> spill_files \<Rightarrow> spill_files \<times> unit result" where
  "append_batches_to_bucket env st s r p bs fs =
     (if bs = [] then (fs, Inr ())
      else if map_of fs (bucket_name s r p) = None then write_bucket env st s r p bs fs
      else write_ipc_file env st (segment_name s r p (length (segment_paths env s r p fs))) bs fs)"

fun read_segments :: "spill_env \<Rightarrow> spill_store \<Rightarrow> spill_files \<Rightarrow> string list \<Rightarrow> record_batch list result" where
  "read_segments env st fs [] = Inr []"
| "read_segments env st fs (n # ns) =
     rbind (read_ipc_file env st n fs) (\<lambda>bs. rbind (read_segments env st fs ns) (\<lambda>rest. Inr (bs @ rest)))"

definition read_bucket :: "spill_env \<Rightarrow> spill_store \<Rightarrow> nat \<Rightarrow> nat \<Rightarrow> nat \<Rightarrow> spill_files \<Rightarrow> record_batch list result" where
  "read_bucket env st s r p fs =
     (if map_of fs (bucket_name s r p) = None then Inr []
      else read_segments env st fs (bucket_name s r p # segment_paths env s r p fs))"

definition bucket_disk_bytes :: "spill_env \<Rightarrow> nat \<Rightarrow> nat \<Rightarrow> nat \<Rightarrow> spill_files \<Rightarrow> nat" where
  "bucket_disk_bytes env s r p fs =
     sum_list (map (\<lambda>n. if map_of fs n = None then 0 else case se_len env n of Some l \<Rightarrow> l | None \<Rightarrow> 0)
       (bucket_name s r p # segment_paths env s r p fs))"

definition clear_by_prefix :: "spill_env \<Rightarrow> string \<Rightarrow> spill_files \<Rightarrow> spill_files" where
  "clear_by_prefix env pre fs = (if se_list env then filter (\<lambda>(name, _). \<not> starts_with name pre) fs else fs)"

definition clear_stage :: "spill_env \<Rightarrow> nat \<Rightarrow> spill_files \<Rightarrow> spill_files" where
  "clear_stage env s = clear_by_prefix env (''stage_'' @ show_nat s @ ''_'')"

definition clear_scoped_stage :: "spill_env \<Rightarrow> nat \<Rightarrow> nat \<Rightarrow> spill_files \<Rightarrow> spill_files" where
  "clear_scoped_stage env s r = clear_by_prefix env (scope_prefix s r)"

section \<open>A cache of buckets\<close>

datatype bucket_cache =
    Memory "record_batch list list"
  | Spilled "field list" spill_store nat nat "nat list"

definition estimated_batch_bytes :: "spill_env \<Rightarrow> record_batch list \<Rightarrow> nat" where
  "estimated_batch_bytes env bs = sum_list (map (se_size env) bs)"

definition estimated_bucket_bytes :: "spill_env \<Rightarrow> record_batch list list \<Rightarrow> nat" where
  "estimated_bucket_bytes env buckets = sum_list (map (se_size env) (concat buckets))"

definition should_spill_bytes :: "spill_store \<Rightarrow> nat \<Rightarrow> bool" where
  "should_spill_bytes st bytes \<longleftrightarrow> sp_force st \<or> (case sp_memory_limit st of Some l \<Rightarrow> l \<le> bytes | None \<Rightarrow> False)"

definition should_spill :: "spill_env \<Rightarrow> spill_store \<Rightarrow> record_batch list list \<Rightarrow> bool" where
  "should_spill env st buckets \<longleftrightarrow> sp_force st \<or> should_spill_bytes st (estimated_bucket_bytes env buckets)"

fun write_buckets ::
  "spill_env \<Rightarrow> spill_store \<Rightarrow> nat \<Rightarrow> nat \<Rightarrow> nat \<Rightarrow> record_batch list list \<Rightarrow> spill_files \<Rightarrow> spill_files \<times> unit result" where
  "write_buckets env st s r i [] fs = (fs, Inr ())"
| "write_buckets env st s r i (b # bs) fs =
     (case write_bucket env st s r i b fs of
        (fs', Inl e) \<Rightarrow> (fs', Inl e)
      | (fs', Inr _) \<Rightarrow> write_buckets env st s r (Suc i) bs fs')"

definition spill_buckets ::
  "spill_env \<Rightarrow> spill_store \<Rightarrow> field list \<Rightarrow> nat \<Rightarrow> nat \<Rightarrow> record_batch list list \<Rightarrow> spill_files \<Rightarrow> spill_files \<times> bucket_cache result" where
  "spill_buckets env st sch s r buckets fs =
     (case write_buckets env st s r 0 buckets fs of
        (fs', Inl e) \<Rightarrow> (fs', Inl e)
      | (fs', Inr _) \<Rightarrow> (fs', Inr (Spilled sch st s r (map total_rows buckets))))"

definition maybe_spill ::
  "spill_env \<Rightarrow> spill_store option \<Rightarrow> field list \<Rightarrow> nat \<Rightarrow> nat \<Rightarrow> record_batch list list \<Rightarrow> spill_files \<Rightarrow> spill_files \<times> bucket_cache result" where
  "maybe_spill env spill sch s r buckets fs =
     (case spill of
        Some st \<Rightarrow> if should_spill env st buckets then spill_buckets env st sch s r buckets fs else (fs, Inr (Memory buckets))
      | None \<Rightarrow> (fs, Inr (Memory buckets)))"

definition from_partition ::
  "spill_env \<Rightarrow> spill_store option \<Rightarrow> field list \<Rightarrow> nat \<Rightarrow> nat \<Rightarrow> nat \<Rightarrow> record_batch list \<Rightarrow> spill_files \<Rightarrow> spill_files \<times> bucket_cache result" where
  "from_partition env spill sch s r p bs fs =
     maybe_spill env spill sch s r ((replicate (p + 1) [])[p := bs]) fs"

text \<open>\<^verbatim>\<open>Vec::resize\<close> upwards only.\<close>

definition grow :: "nat \<Rightarrow> 'a \<Rightarrow> 'a list \<Rightarrow> 'a list" where
  "grow n d xs = (if length xs < n then xs @ replicate (n - length xs) d else xs)"

definition bump_row_count :: "nat list \<Rightarrow> nat \<Rightarrow> nat \<Rightarrow> nat list" where
  "bump_row_count counts p rows = (let c = grow (p + 1) 0 counts in c[p := c ! p + rows])"

text \<open>
  The in-memory buckets are taken out of the cache before they are written: when the write fails the
  cache is left holding no buckets.
\<close>

definition spill_in_place ::
  "spill_env \<Rightarrow> spill_store \<Rightarrow> field list \<Rightarrow> nat \<Rightarrow> nat \<Rightarrow> record_batch list list \<Rightarrow> spill_files \<Rightarrow> spill_files \<times> bucket_cache \<times> unit result" where
  "spill_in_place env st sch s r buckets fs =
     (case spill_buckets env st sch s r buckets fs of
        (fs', Inl e) \<Rightarrow> (fs', Memory [], Inl e)
      | (fs', Inr c) \<Rightarrow> (fs', c, Inr ()))"

definition append_partition ::
  "spill_env \<Rightarrow> spill_store option \<Rightarrow> field list \<Rightarrow> nat \<Rightarrow> nat \<Rightarrow> nat \<Rightarrow> record_batch list \<Rightarrow> spill_files \<Rightarrow> bucket_cache \<Rightarrow> spill_files \<times> bucket_cache \<times> unit result" where
  "append_partition env spill sch s r p bs fs cache =
     (case cache of
        Memory buckets \<Rightarrow>
          (let b = grow (p + 1) [] buckets; b' = b[p := b ! p @ bs] in
           case spill of
             Some st \<Rightarrow> if should_spill env st b' then spill_in_place env st sch s r b' fs else (fs, Memory b', Inr ())
           | None \<Rightarrow> (fs, Memory b', Inr ()))
      | Spilled sch' st s' r' counts \<Rightarrow>
          (case append_batches_to_bucket env st s' r' p bs fs of
             (fs', Inl e) \<Rightarrow> (fs', cache, Inl e)
           | (fs', Inr _) \<Rightarrow> (fs', Spilled sch' st s' r' (bump_row_count counts p (total_rows bs)), Inr ())))"

definition append_batch ::
  "spill_env \<Rightarrow> spill_store option \<Rightarrow> field list \<Rightarrow> nat \<Rightarrow> nat \<Rightarrow> nat \<Rightarrow> record_batch \<Rightarrow> spill_files \<Rightarrow> bucket_cache \<Rightarrow> spill_files \<times> bucket_cache \<times> unit result" where
  "append_batch env spill sch s r p b fs cache = append_partition env spill sch s r p [b] fs cache"

definition memory_bytes :: "spill_env \<Rightarrow> bucket_cache \<Rightarrow> nat" where
  "memory_bytes env cache = (case cache of Memory buckets \<Rightarrow> estimated_bucket_bytes env buckets | Spilled _ _ _ _ _ \<Rightarrow> 0)"

definition partition_row_counts :: "bucket_cache \<Rightarrow> nat list" where
  "partition_row_counts cache = (case cache of Memory buckets \<Rightarrow> map total_rows buckets | Spilled _ _ _ _ counts \<Rightarrow> counts)"

definition partition_byte_counts :: "spill_env \<Rightarrow> spill_files \<Rightarrow> bucket_cache \<Rightarrow> nat list" where
  "partition_byte_counts env fs cache =
     (case cache of
        Memory buckets \<Rightarrow> map (estimated_batch_bytes env) buckets
      | Spilled _ _ s r counts \<Rightarrow> map (\<lambda>p. bucket_disk_bytes env s r p fs) [0..<length counts])"

definition spill_now ::
  "spill_env \<Rightarrow> spill_store \<Rightarrow> field list \<Rightarrow> nat \<Rightarrow> nat \<Rightarrow> spill_files \<Rightarrow> bucket_cache \<Rightarrow> spill_files \<times> bucket_cache \<times> unit result" where
  "spill_now env st sch s r fs cache =
     (case cache of Memory buckets \<Rightarrow> spill_in_place env st sch s r buckets fs | Spilled _ _ _ _ _ \<Rightarrow> (fs, cache, Inr ()))"

definition new_empty :: "field list \<Rightarrow> record_batch" where
  "new_empty sch = \<lparr>rb_schema = sch, rb_rows = []\<rparr>"

definition read_partition :: "spill_env \<Rightarrow> spill_files \<Rightarrow> bucket_cache \<Rightarrow> nat \<Rightarrow> record_batch list result" where
  "read_partition env fs cache p =
     (case cache of
        Memory buckets \<Rightarrow> Inr (if p < length buckets then buckets ! p else [])
      | Spilled sch st s r _ \<Rightarrow>
          rbind (read_bucket env st s r p fs) (\<lambda>bs.
            let data = filter (\<lambda>b. 0 < num_rows b) bs in
            Inr (if data = [] then [new_empty sch] else data)))"

definition cache_schema :: "bucket_cache \<Rightarrow> field list" where
  "cache_schema cache =
     (case cache of
        Memory buckets \<Rightarrow> (case concat buckets of [] \<Rightarrow> [] | b # _ \<Rightarrow> rb_schema b)
      | Spilled sch _ _ _ _ \<Rightarrow> sch)"

section \<open>The worker-wide budget\<close>

type_synonym cached_stages = "((nat \<times> nat) \<times> field list \<times> bucket_cache) list"

definition stage_bytes :: "spill_env \<Rightarrow> cached_stages \<Rightarrow> nat list" where
  "stage_bytes env stages = map (\<lambda>(_, _, cache). memory_bytes env cache) stages"

text \<open>\<^verbatim>\<open>Iterator::max_by_key\<close>: the last of the largest.\<close>

definition last_max :: "nat list \<Rightarrow> nat" where
  "last_max xs = last (filter (\<lambda>i. \<forall>x \<in> set xs. x \<le> xs ! i) [0..<length xs])"

lemma last_max_works:
  assumes "xs \<noteq> []"
  shows "last_max xs < length xs" and "\<forall>x \<in> set xs. x \<le> xs ! last_max xs"
proof -
  let ?top = "filter (\<lambda>i. \<forall>x \<in> set xs. x \<le> xs ! i) [0..<length xs]"
  have "Max (set xs) \<in> set xs" using assms by simp
  then obtain i where "i < length xs" "xs ! i = Max (set xs)" unfolding in_set_conv_nth by blast
  then have "i \<in> set ?top" by simp
  then have "?top \<noteq> []" by (metis empty_iff list.set(1))
  then have "last_max xs \<in> set ?top" unfolding last_max_def by (rule last_in_set)
  then show "last_max xs < length xs" "\<forall>x \<in> set xs. x \<le> xs ! last_max xs" by simp_all
qed

function enforce_loop ::
  "spill_env \<Rightarrow> spill_store \<Rightarrow> nat \<Rightarrow> spill_files \<Rightarrow> cached_stages \<Rightarrow> spill_files \<times> cached_stages \<times> unit result" where
  "enforce_loop env st limit fs stages =
     (if sum_list (stage_bytes env stages) \<le> limit then (fs, stages, Inr ())
      else let i = last_max (stage_bytes env stages); ((s, r), sch, cache) = stages ! i in
        case spill_now env st sch s r fs cache of
          (fs', cache', Inl e) \<Rightarrow> (fs', stages[i := ((s, r), sch, cache')], Inl e)
        | (fs', cache', Inr _) \<Rightarrow> enforce_loop env st limit fs' (stages[i := ((s, r), sch, cache')]))"
  by pat_completeness auto

lemma spill_now_frees:
  assumes "spill_now env st sch s r fs cache = (fs', cache', Inr ())"
  shows "memory_bytes env cache' = 0"
  using assms by (auto simp: spill_now_def spill_in_place_def spill_buckets_def memory_bytes_def
      split: bucket_cache.splits prod.splits sum.splits)

lemma enforce_decreases:
  assumes "limit < sum_list (stage_bytes env stages)" and "memory_bytes env cache' = 0"
  shows "last_max (stage_bytes env stages) < length stages"
    and "sum_list (stage_bytes env (stages[last_max (stage_bytes env stages) := (k, sch, cache')])) < sum_list (stage_bytes env stages)"
proof -
  let ?bs = "stage_bytes env stages"
  let ?i = "last_max ?bs"
  have ne: "?bs \<noteq> []" using assms(1) by auto
  note m = last_max_works [OF ne]
  then show l: "?i < length stages" by (simp add: stage_bytes_def)
  have "?bs ! ?i \<noteq> 0"
  proof
    assume "?bs ! ?i = 0"
    with m(2) have "sum_list ?bs = 0" by (auto simp: sum_list_eq_0_iff)
    with assms(1) show False by simp
  qed
  moreover have "stage_bytes env (stages[?i := (k, sch, cache')]) = ?bs[?i := 0]"
    using assms(2) by (simp add: stage_bytes_def map_update)
  moreover have "sum_list (?bs[?i := 0]) = sum_list ?bs - ?bs ! ?i"
    using sum_list_update [OF m(1), of 0] by simp
  moreover have "?bs ! ?i \<le> sum_list ?bs" using m(1) by (simp add: member_le_sum_list)
  ultimately show "sum_list (stage_bytes env (stages[?i := (k, sch, cache')])) < sum_list ?bs" by simp
qed

termination enforce_loop
  apply (relation "measure (\<lambda>(env, st, limit, fs, stages). sum_list (stage_bytes env stages))")
   apply simp
  apply (clarsimp simp: not_le)
  subgoal premises prems
    using enforce_decreases(2) [OF prems(1) spill_now_frees [OF prems(4) [symmetric]]] .
  done

declare enforce_loop.simps [simp del]

definition enforce_total_budget ::
  "spill_env \<Rightarrow> spill_store \<Rightarrow> spill_files \<Rightarrow> cached_stages \<Rightarrow> spill_files \<times> cached_stages \<times> unit result" where
  "enforce_total_budget env st fs stages =
     (case sp_total_limit st of None \<Rightarrow> (fs, stages, Inr ()) | Some limit \<Rightarrow> enforce_loop env st limit fs stages)"

end
