(* ===== verification/Spill_Refinement.thy ===== *)
theory Spill_Refinement
  imports Shuffle_Spill
begin

text \<open>
  The spilling bucket cache refines a plain function from buckets to rows. \<^verbatim>\<open>holds\<close> is the simulation
  relation; every operation that succeeds keeps it, whether the buckets are in memory, are moved to
  disk by the call, or are already there. The names of the files keep the scopes apart.
\<close>

section \<open>File names\<close>

lemma delimiters [simp]: "\<not> is_digit CHR ''_''" "\<not> is_digit CHR ''.''"
  by (simp_all add: is_digit_def)

lemma show_nat_delimited_iff [simp]:
  "\<not> is_digit c \<Longrightarrow> \<not> is_digit d \<Longrightarrow> show_nat m @ c # x = show_nat n @ d # y \<longleftrightarrow> m = n \<and> c = d \<and> x = y"
  using show_nat_delimited [of m c x n d y] by blast

lemma names_apart [simp]:
  "bucket_name s r p = bucket_name s' r' p' \<longleftrightarrow> s = s' \<and> r = r' \<and> p = p'"
  "segment_name s r p q = segment_name s' r' p' q' \<longleftrightarrow> s = s' \<and> r = r' \<and> p = p' \<and> q = q'"
  "bucket_name s r p \<noteq> segment_name s' r' p' q'"
  "segment_name s' r' p' q' \<noteq> bucket_name s r p"
  by (auto simp: bucket_name_def segment_name_def)

lemma scope_prefix_names [simp]:
  "starts_with (bucket_name s' r' p) (scope_prefix s r) \<longleftrightarrow> s = s' \<and> r = r'"
  "starts_with (segment_name s' r' p q) (scope_prefix s r) \<longleftrightarrow> s = s' \<and> r = r'"
  by (auto simp: starts_with_iff bucket_name_def segment_name_def scope_prefix_def)

lemma stage_prefix_names [simp]:
  "starts_with (bucket_name s' r' p) (''stage_'' @ show_nat s @ ''_'') \<longleftrightarrow> s = s'"
  "starts_with (segment_name s' r' p q) (''stage_'' @ show_nat s @ ''_'') \<longleftrightarrow> s = s'"
  by (auto simp: starts_with_iff bucket_name_def segment_name_def)

lemma segment_prefix_names [simp]:
  "\<not> starts_with (bucket_name s' r' p') (segment_prefix s r p)"
  "starts_with (segment_name s' r' p' q) (segment_prefix s r p) \<longleftrightarrow> s = s' \<and> r = r' \<and> p = p'"
  by (auto simp: starts_with_iff bucket_name_def segment_name_def segment_prefix_def)

lemma segment_seq_names [simp]:
  "segment_seq s r p (bucket_name s' r' p') = None"
  "q \<le> u64_max \<Longrightarrow> segment_seq s r p (segment_name s' r' p' q) = (if s = s' \<and> r = r' \<and> p = p' then Some q else None)"
proof -
  show "segment_seq s r p (bucket_name s' r' p') = None" by (simp add: segment_seq_def)
  assume "q \<le> u64_max"
  then have "parse_seq (show_nat q) = Some q" unfolding parse_seq_def by (rule parse_show_nat)
  moreover have "segment_name s r p q = segment_prefix s r p @ show_nat q @ ''.arrow''"
    by (simp add: segment_name_def segment_prefix_def)
  moreover have "ends_with (show_nat q @ ''.arrow'') ''.arrow''" by (simp add: ends_with_def)
  ultimately have "segment_seq s r p (segment_name s r p q) = Some q" by (simp add: segment_seq_def)
  then show "segment_seq s r p (segment_name s' r' p' q) = (if s = s' \<and> r = r' \<and> p = p' then Some q else None)"
    by (auto simp: segment_seq_def)
qed

section \<open>The directory\<close>

definition known_name :: "string \<Rightarrow> bool" where
  "known_name n \<longleftrightarrow> (\<exists>s r p. n = bucket_name s r p) \<or> (\<exists>s r p q. q \<le> u64_max \<and> n = segment_name s r p q)"

definition dir_ok :: "spill_files \<Rightarrow> bool" where
  "dir_ok fs \<longleftrightarrow> distinct (map fst fs) \<and> (\<forall>n \<in> fst ` set fs. known_name n)"

lemma map_of_put_file [simp]: "map_of (put_file n f fs) = (map_of fs)(n \<mapsto> f)"
  by (simp add: put_file_def update_conv')

lemma dir_ok_put_file: "dir_ok fs \<Longrightarrow> known_name n \<Longrightarrow> dir_ok (put_file n f fs)"
  by (auto simp: dir_ok_def put_file_def distinct_update dom_update)

lemma dir_ok_clear: "dir_ok fs \<Longrightarrow> dir_ok (clear_by_prefix env pre fs)"
  by (auto simp: dir_ok_def clear_by_prefix_def distinct_map_filter)

lemma map_of_clear:
  "map_of (clear_by_prefix env pre fs) n = (if se_list env \<and> starts_with n pre then None else map_of fs n)"
  by (induction fs) (auto simp: clear_by_prefix_def)

lemma set_map_filter_names:
  "set (List.map_filter (\<lambda>(name, _). map_option (\<lambda>q. (q, name)) (f name)) fs) = {(q, n). n \<in> fst ` set fs \<and> f n = Some q}"
  by (induction fs) (auto simp: List.map_filter_simps split: option.splits)

lemma distinct_map_filter_names:
  "distinct (map fst fs) \<Longrightarrow> distinct (map snd (List.map_filter (\<lambda>(name, _). map_option (\<lambda>q. (q, name)) (f name)) fs))"
  by (induction fs) (auto simp: List.map_filter_simps set_map_filter_names image_iff split: option.splits)

lemma segment_files:
  assumes "dir_ok fs"
  shows "{(q, n). n \<in> fst ` set fs \<and> segment_seq s r p n = Some q} = {(q, n). n = segment_name s r p q \<and> map_of fs n \<noteq> None}"
  using assms by (auto simp: dir_ok_def known_name_def map_of_eq_None_iff split: if_splits)

text \<open>Contiguous segments are listed in the order of their numbers.\<close>

lemma segment_paths_upt:
  assumes "dir_ok fs" and "se_list env" and "\<And>q. map_of fs (segment_name s r p q) \<noteq> None \<longleftrightarrow> q < k"
  shows "segment_paths env s r p fs = map (segment_name s r p) [0..<k]" and "k \<le> length fs"
proof -
  define L where "L = List.map_filter (\<lambda>(name, _). map_option (\<lambda>q. (q, name)) (segment_seq s r p name)) fs"
  have set_L: "set L = {(q, n). n = segment_name s r p q \<and> q < k}"
    using segment_files [OF assms(1), of s r p] assms(3) by (auto simp: L_def set_map_filter_names)
  have "distinct (map fst fs)" using assms(1) by (simp add: dir_ok_def)
  then have dist: "distinct (map snd L)" unfolding L_def by (rule distinct_map_filter_names)
  let ?S = "sort_key fst L"
  have snd_S: "map snd ?S = map (segment_name s r p) (map fst ?S)" using set_L by auto
  moreover have "distinct (map snd ?S)"
    using dist mset_eq_imp_distinct_iff [of "map snd ?S" "map snd L"] by simp
  ultimately have "distinct (map (segment_name s r p) (map fst ?S))" by (simp only:)
  then have "distinct (map fst ?S)" by (simp only: distinct_map)
  moreover have "set (map fst ?S) = set [0..<k]" using set_L by force
  moreover have "sorted (map fst ?S)" by simp
  ultimately have fst_S: "map fst ?S = [0..<k]" using sorted_distinct_set_unique [of "map fst ?S" "[0..<k]"] by simp
  have "map snd ?S = map (segment_name s r p) [0..<k]" using snd_S unfolding fst_S .
  then show "segment_paths env s r p fs = map (segment_name s r p) [0..<k]"
    using assms(2) by (simp only: segment_paths_def L_def if_True)
  have "k = length L" using arg_cong [OF fst_S, of length] by simp
  moreover have "length L \<le> length fs" unfolding L_def
    by (induction fs) (auto simp: List.map_filter_simps split: option.splits)
  ultimately show "k \<le> length fs" by simp
qed

section \<open>What a cache holds\<close>

definition bucket_holds :: "spill_files \<Rightarrow> nat \<Rightarrow> nat \<Rightarrow> nat \<Rightarrow> cell list list \<Rightarrow> bool" where
  "bucket_holds fs s r p rows \<longleftrightarrow>
     (\<exists>segs. (\<forall>q. map_of fs (segment_name s r p q) = (if q < length segs then Some (Inr (segs ! q)) else None)) \<and>
        ((map_of fs (bucket_name s r p) = None \<and> segs = [] \<and> rows = []) \<or>
         (\<exists>b0. map_of fs (bucket_name s r p) = Some (Inr b0) \<and> rows = all_rows (b0 @ concat segs))))"

definition scope_clean :: "spill_files \<Rightarrow> nat \<Rightarrow> nat \<Rightarrow> bool" where
  "scope_clean fs s r \<longleftrightarrow>
     (\<forall>p. map_of fs (bucket_name s r p) = None \<and> (\<forall>q. map_of fs (segment_name s r p q) = None))"

definition holds :: "spill_files \<Rightarrow> nat \<times> nat \<Rightarrow> bucket_cache \<Rightarrow> (nat \<Rightarrow> cell list list) \<Rightarrow> bool" where
  "holds fs k cache c \<longleftrightarrow>
     (case cache of
        Memory buckets \<Rightarrow> scope_clean fs (fst k) (snd k) \<and> (\<forall>p. c p = (if p < length buckets then all_rows (buckets ! p) else []))
      | Spilled sch st s r counts \<Rightarrow>
          k = (s, r) \<and> (\<forall>p. bucket_holds fs s r p (c p) \<and> length (c p) = (if p < length counts then counts ! p else 0)))"

text \<open>An operation on one scope leaves the files of the others.\<close>

definition touches :: "nat \<times> nat \<Rightarrow> spill_files \<Rightarrow> spill_files \<Rightarrow> bool" where
  "touches k fs fs' \<longleftrightarrow> (\<forall>s r p. (s, r) \<noteq> k \<longrightarrow>
     map_of fs' (bucket_name s r p) = map_of fs (bucket_name s r p) \<and>
     (\<forall>q. map_of fs' (segment_name s r p q) = map_of fs (segment_name s r p q)))"

lemma touches_refl [simp, intro]: "touches k fs fs"
  by (simp add: touches_def)

lemma touches_trans [trans]: "touches k fs fs' \<Longrightarrow> touches k fs' fs'' \<Longrightarrow> touches k fs fs''"
  by (simp add: touches_def)

lemma scope_clean_frame: "scope_clean fs s r \<Longrightarrow> touches k' fs fs' \<Longrightarrow> k' \<noteq> (s, r) \<Longrightarrow> scope_clean fs' s r"
  by (auto simp: touches_def scope_clean_def)

lemma bucket_holds_frame: "touches k' fs fs' \<Longrightarrow> k' \<noteq> (s, r) \<Longrightarrow> bucket_holds fs' s r p rows \<longleftrightarrow> bucket_holds fs s r p rows"
  by (simp add: touches_def bucket_holds_def)

lemma holds_frame: "holds fs k cache c \<Longrightarrow> touches k' fs fs' \<Longrightarrow> k' \<noteq> k \<Longrightarrow> holds fs' k cache c"
  using bucket_holds_frame [of k' fs fs' "fst k" "snd k"] scope_clean_frame [of fs "fst k" "snd k" k' fs']
  by (cases cache; cases k) (simp_all add: holds_def)

lemma clear_scoped_stage_effect:
  assumes "se_list env"
  shows "scope_clean (clear_scoped_stage env s r fs) s r" "touches (s, r) fs (clear_scoped_stage env s r fs)"
  using assms by (auto simp: clear_scoped_stage_def scope_clean_def touches_def map_of_clear)

section \<open>Writing\<close>

lemma write_ipc_file_outcome:
  assumes "write_ipc_file env st n bs fs = (fs', res)" and "dir_ok fs" and "known_name n"
  shows "dir_ok fs'" and "\<And>m. m \<noteq> n \<Longrightarrow> map_of fs' m = map_of fs m"
    and "res = Inr () \<Longrightarrow> map_of fs' = (map_of fs)(n \<mapsto> Inr bs)"
  using assms by (auto simp: write_ipc_file_def dir_ok_put_file split: option.splits write_fault.splits)

lemma known_names [simp]: "known_name (bucket_name s r p)" "q \<le> u64_max \<Longrightarrow> known_name (segment_name s r p q)"
  by (auto simp: known_name_def)

lemma write_buckets_outcome:
  assumes "write_buckets env st s r i bs fs = (fs', res)" and "dir_ok fs"
  shows "dir_ok fs' \<and> (\<forall>n. (\<forall>p \<ge> i. n \<noteq> bucket_name s r p) \<longrightarrow> map_of fs' n = map_of fs n) \<and>
    (res = Inr () \<longrightarrow> (\<forall>p. map_of fs' (bucket_name s r p) =
       (if i \<le> p \<and> p < i + length bs then Some (Inr (bs ! (p - i))) else map_of fs (bucket_name s r p))))"
  using assms
proof (induction bs arbitrary: i fs)
  case (Cons b bs)
  obtain fs1 res1 where w: "write_ipc_file env st (bucket_name s r i) b fs = (fs1, res1)" by fastforce
  note o = write_ipc_file_outcome [OF w Cons.prems(2)]
  show ?case
  proof (cases res1)
    case (Inl e)
    with w Cons.prems(1) have "fs' = fs1" "res = Inl e" by (auto simp: write_bucket_def)
    with o show ?thesis by auto
  next
    case (Inr u)
    with w Cons.prems(1) have "write_buckets env st s r (Suc i) bs fs1 = (fs', res)" by (simp add: write_bucket_def)
    note IH = Cons.IH [OF this o(1)]
    show ?thesis
    proof (intro conjI allI impI)
      show "dir_ok fs'" using IH by simp
      show "map_of fs' n = map_of fs n" if "\<forall>p \<ge> i. n \<noteq> bucket_name s r p" for n
        using IH o(2) [of n] that by simp
      show "map_of fs' (bucket_name s r p) =
          (if i \<le> p \<and> p < i + length (b # bs) then Some (Inr ((b # bs) ! (p - i))) else map_of fs (bucket_name s r p))"
        if "res = Inr ()" for p
        using IH o(3) Inr that by (cases "p = i") (auto simp: nth_Cons')
    qed
  qed
qed auto

lemma touches_write:
  assumes "\<And>m. (\<forall>p q. m \<noteq> bucket_name s r p \<and> m \<noteq> segment_name s r p q) \<Longrightarrow> map_of fs' m = map_of fs m"
  shows "touches (s, r) fs fs'"
  using assms by (auto simp: touches_def)

definition buckets_rows :: "record_batch list list \<Rightarrow> nat \<Rightarrow> cell list list" where
  "buckets_rows buckets p = (if p < length buckets then all_rows (buckets ! p) else [])"

lemma holds_Memory: "holds fs (s, r) (Memory buckets) c \<longleftrightarrow> scope_clean fs s r \<and> c = buckets_rows buckets"
  by (auto simp: holds_def buckets_rows_def fun_eq_iff)

lemma spill_buckets_holds:
  assumes "spill_buckets env st sch s r buckets fs = (fs', res)" and "dir_ok fs" and "scope_clean fs s r"
  shows "dir_ok fs'" and "touches (s, r) fs fs'"
    and "res = Inr cache \<Longrightarrow> holds fs' (s, r) cache (buckets_rows buckets)"
proof -
  obtain w where w: "write_buckets env st s r 0 buckets fs = (fs', w)"
    using assms(1) by (auto simp: spill_buckets_def split: prod.splits sum.splits)
  note o = write_buckets_outcome [OF w assms(2)]
  show "dir_ok fs'" using o by simp
  show "touches (s, r) fs fs'" using o by (intro touches_write) auto
  assume r: "res = Inr cache"
  with assms(1) w have ok: "w = Inr ()" and cache: "cache = Spilled sch st s r (map total_rows buckets)"
    by (auto simp: spill_buckets_def split: sum.splits)
  have "bucket_holds fs' s r p (buckets_rows buckets p)" for p
    unfolding bucket_holds_def using o ok assms(3)
    by (intro exI [of _ "[]"]) (simp add: buckets_rows_def scope_clean_def)
  then show "holds fs' (s, r) cache (buckets_rows buckets)"
    by (simp add: holds_def cache buckets_rows_def total_rows_length)
qed

lemma spill_in_place_holds:
  assumes "spill_in_place env st sch s r buckets fs = (fs', cache, res)" and "dir_ok fs" and "scope_clean fs s r"
  shows "dir_ok fs'" and "touches (s, r) fs fs'" and "res = Inr () \<Longrightarrow> holds fs' (s, r) cache (buckets_rows buckets)"
proof -
  obtain x where x: "spill_buckets env st sch s r buckets fs = (fs', x)"
    using assms(1) by (auto simp: spill_in_place_def split: prod.splits sum.splits)
  note o = spill_buckets_holds [OF x assms(2,3)]
  show "dir_ok fs'" "touches (s, r) fs fs'" by (fact o)+
  show "holds fs' (s, r) cache (buckets_rows buckets)" if "res = Inr ()"
    using assms(1) x that by (intro o(3)) (auto simp: spill_in_place_def split: sum.splits)
qed

lemma bucket_holds_segments:
  assumes "bucket_holds fs s r p rows" and "dir_ok fs" and "se_list env" and "map_of fs (bucket_name s r p) \<noteq> None"
  obtains b0 segs where "map_of fs (bucket_name s r p) = Some (Inr b0)" and "rows = all_rows (b0 @ concat segs)"
    and "\<And>q. map_of fs (segment_name s r p q) = (if q < length segs then Some (Inr (segs ! q)) else None)"
    and "segment_paths env s r p fs = map (segment_name s r p) [0..<length segs]" and "length segs \<le> length fs"
proof -
  obtain b0 segs where h: "map_of fs (bucket_name s r p) = Some (Inr b0)" "rows = all_rows (b0 @ concat segs)"
      "\<And>q. map_of fs (segment_name s r p q) = (if q < length segs then Some (Inr (segs ! q)) else None)"
    using assms(1,4) unfolding bucket_holds_def by blast
  then have "\<And>q. map_of fs (segment_name s r p q) \<noteq> None \<longleftrightarrow> q < length segs" by simp
  from segment_paths_upt [OF assms(2,3) this] h show ?thesis by (intro that)
qed

lemma append_batches_holds:
  assumes "append_batches_to_bucket env st s r p bs fs = (fs', res)" and "dir_ok fs" and "se_list env"
    and "length fs \<le> u64_max" and "\<And>p. bucket_holds fs s r p (c p)"
  shows "dir_ok fs'" and "touches (s, r) fs fs'"
    and "res = Inr () \<Longrightarrow> bucket_holds fs' s r x ((c(p := c p @ all_rows bs)) x)"
proof -
  consider (none) "bs = []" | (base) "bs \<noteq> []" "map_of fs (bucket_name s r p) = None"
    | (seg) "bs \<noteq> []" "map_of fs (bucket_name s r p) \<noteq> None" by blast
  then have "dir_ok fs' \<and> touches (s, r) fs fs' \<and>
      (res = Inr () \<longrightarrow> bucket_holds fs' s r x ((c(p := c p @ all_rows bs)) x))"
  proof cases
    case none
    with assms(1,2,5) show ?thesis by (auto simp: append_batches_to_bucket_def)
  next
    case base
    with assms(1) have w: "write_ipc_file env st (bucket_name s r p) bs fs = (fs', res)"
      by (simp add: append_batches_to_bucket_def write_bucket_def)
    note o = write_ipc_file_outcome [OF w assms(2)]
    have "c p = []" "\<And>q. map_of fs (segment_name s r p q) = None"
      using assms(5) [of p] base(2) by (auto simp: bucket_holds_def)
    then have "bucket_holds fs' s r p (c p @ all_rows bs)" if "res = Inr ()"
      unfolding bucket_holds_def using o(3) that by (intro exI [of _ "[]"]) simp
    moreover have "bucket_holds fs' s r x (c x)" if "x \<noteq> p"
      using assms(5) [of x] o(2) that by (simp add: bucket_holds_def)
    ultimately show ?thesis using o(1,2) by (auto intro!: touches_write)
  next
    case seg
    obtain b0 segs where h: "map_of fs (bucket_name s r p) = Some (Inr b0)" "c p = all_rows (b0 @ concat segs)"
        "\<And>q. map_of fs (segment_name s r p q) = (if q < length segs then Some (Inr (segs ! q)) else None)"
        "segment_paths env s r p fs = map (segment_name s r p) [0..<length segs]" "length segs \<le> length fs"
      using bucket_holds_segments [OF assms(5,2,3) seg(2)] by blast
    with assms(1) seg have w: "write_ipc_file env st (segment_name s r p (length segs)) bs fs = (fs', res)"
      by (simp add: append_batches_to_bucket_def)
    have "known_name (segment_name s r p (length segs))" using h(5) assms(4) by (intro known_names(2)) (rule order.trans)
    note o = write_ipc_file_outcome [OF w assms(2) this]
    have "bucket_holds fs' s r p (c p @ all_rows bs)" if "res = Inr ()"
      unfolding bucket_holds_def using o(3) [OF that] h(1-3)
      by (intro exI [of _ "segs @ [bs]"]) (simp add: nth_append)
    moreover have "bucket_holds fs' s r x (c x)" if "x \<noteq> p"
      using assms(5) [of x] o(2) that by (simp add: bucket_holds_def)
    ultimately show ?thesis using o(1,2) by (auto intro!: touches_write)
  qed
  then show "dir_ok fs'" "touches (s, r) fs fs'" "res = Inr () \<Longrightarrow> bucket_holds fs' s r x ((c(p := c p @ all_rows bs)) x)"
    by simp_all
qed

section \<open>Appending and reading\<close>

lemma grow_props [simp]:
  "length (grow n d xs) = max n (length xs)"
  "i < length (grow n d xs) \<Longrightarrow> grow n d xs ! i = (if i < length xs then xs ! i else d)"
  by (auto simp: grow_def nth_append)

lemma grown_buckets_rows:
  "buckets_rows ((grow (p + 1) [] buckets)[p := grow (p + 1) [] buckets ! p @ bs]) =
   (buckets_rows buckets)(p := buckets_rows buckets p @ all_rows bs)"
  by (auto simp: buckets_rows_def fun_eq_iff nth_list_update)

lemma bump_row_count_nth:
  "(if x < length (bump_row_count counts p n) then bump_row_count counts p n ! x else 0) =
   (if x < length counts then counts ! x else 0) + (if x = p then n else 0)"
  by (auto simp: bump_row_count_def Let_def nth_list_update)

lemma append_partition_holds:
  assumes "append_partition env spill sch s r p bs fs cache = (fs', cache', res)" and "dir_ok fs" and "se_list env"
    and "length fs \<le> u64_max" and "holds fs (s, r) cache c"
  shows "dir_ok fs'" and "touches (s, r) fs fs'"
    and "res = Inr () \<Longrightarrow> holds fs' (s, r) cache' (c(p := c p @ all_rows bs))"
proof -
  have "dir_ok fs' \<and> touches (s, r) fs fs' \<and> (res = Inr () \<longrightarrow> holds fs' (s, r) cache' (c(p := c p @ all_rows bs)))"
  proof (cases cache)
    case (Memory buckets)
    let ?b = "(grow (p + 1) [] buckets)[p := grow (p + 1) [] buckets ! p @ bs]"
    from assms(5) Memory have c: "scope_clean fs s r" "c = buckets_rows buckets" by (simp_all add: holds_Memory)
    have "(\<exists>st. spill_in_place env st sch s r ?b fs = (fs', cache', res)) \<or> (fs' = fs \<and> cache' = Memory ?b)"
      using assms(1) Memory by (auto simp: append_partition_def Let_def split: option.splits if_splits)
    then show ?thesis
    proof (elim disjE exE)
      fix st assume "spill_in_place env st sch s r ?b fs = (fs', cache', res)"
      from spill_in_place_holds [OF this assms(2) c(1)] show ?thesis unfolding grown_buckets_rows c(2) by blast
    next
      assume "fs' = fs \<and> cache' = Memory ?b"
      then show ?thesis using assms(2) c by (simp only: holds_Memory grown_buckets_rows) simp
    qed
  next
    case (Spilled sch' st s' r' counts)
    with assms(5) have k: "s' = s" "r' = r" and h: "\<And>p. bucket_holds fs s r p (c p)"
      and n: "\<And>p. length (c p) = (if p < length counts then counts ! p else 0)" by (auto simp: holds_def)
    obtain x where x: "append_batches_to_bucket env st s r p bs fs = (fs', x)"
      using assms(1) Spilled k by (auto simp: append_partition_def split: prod.splits sum.splits)
    note o = append_batches_holds [OF x assms(2-4) h]
    have "length ((c(p := c p @ all_rows bs)) y) =
        (if y < length (bump_row_count counts p (total_rows bs)) then bump_row_count counts p (total_rows bs) ! y else 0)" for y
      unfolding bump_row_count_nth n [symmetric] by (simp add: total_rows_length)
    then have "holds fs' (s, r) cache' (c(p := c p @ all_rows bs))" if "res = Inr ()"
      using assms(1) Spilled k x o(3) that by (auto simp: append_partition_def holds_def split: sum.splits)
    with o(1,2) show ?thesis by blast
  qed
  then show "dir_ok fs'" "touches (s, r) fs fs'" "res = Inr () \<Longrightarrow> holds fs' (s, r) cache' (c(p := c p @ all_rows bs))"
    by simp_all
qed

lemma maybe_spill_holds:
  assumes "maybe_spill env spill sch s r buckets fs = (fs', res)" and "dir_ok fs" and "scope_clean fs s r"
  shows "dir_ok fs'" and "touches (s, r) fs fs'"
    and "res = Inr cache \<Longrightarrow> holds fs' (s, r) cache (buckets_rows buckets)"
proof -
  have "(\<exists>st. spill_buckets env st sch s r buckets fs = (fs', res)) \<or> (fs' = fs \<and> res = Inr (Memory buckets))"
    using assms(1) by (auto simp: maybe_spill_def split: option.splits if_splits)
  then have "dir_ok fs' \<and> touches (s, r) fs fs' \<and> (res = Inr cache \<longrightarrow> holds fs' (s, r) cache (buckets_rows buckets))"
  proof (elim disjE exE)
    fix st assume "spill_buckets env st sch s r buckets fs = (fs', res)"
    from spill_buckets_holds [OF this assms(2,3)] show ?thesis by blast
  qed (use assms(2,3) in \<open>auto simp: holds_Memory\<close>)
  then show "dir_ok fs'" "touches (s, r) fs fs'" "res = Inr cache \<Longrightarrow> holds fs' (s, r) cache (buckets_rows buckets)"
    by simp_all
qed

lemma read_segments_rows:
  assumes "\<And>n. n \<in> set ns \<Longrightarrow> map_of fs n = Some (Inr (f n))"
  shows "read_segments env st fs ns = Inr bs \<Longrightarrow> bs = concat (map f ns)"
    and "(\<And>n. se_read env n = None) \<Longrightarrow> read_segments env st fs ns = Inr (concat (map f ns))"
proof -
  show "read_segments env st fs ns = Inr bs \<Longrightarrow> bs = concat (map f ns)"
    using assms
  proof (induction ns arbitrary: bs)
    case (Cons n ns)
    from Cons.prems show ?case by (auto simp: read_ipc_file_def split: option.splits intro!: Cons.IH)
  qed simp
  assume "\<And>n. se_read env n = None"
  then show "read_segments env st fs ns = Inr (concat (map f ns))"
    using assms by (induction ns) (auto simp: read_ipc_file_def)
qed

lemma all_rows_filter [simp]: "all_rows (filter (\<lambda>b. 0 < num_rows b) bs) = all_rows bs"
  by (induction bs) (auto simp: num_rows_def)

lemma read_bucket_rows:
  assumes "bucket_holds fs s r p rows" and "dir_ok fs" and "se_list env"
  shows "read_bucket env st s r p fs = Inr bs \<Longrightarrow> all_rows bs = rows"
    and "(\<And>n. se_read env n = None) \<Longrightarrow> \<exists>bs. read_bucket env st s r p fs = Inr bs"
proof -
  have "(read_bucket env st s r p fs = Inr bs \<longrightarrow> all_rows bs = rows) \<and>
      ((\<forall>n. se_read env n = None) \<longrightarrow> (\<exists>bs. read_bucket env st s r p fs = Inr bs))"
  proof (cases "map_of fs (bucket_name s r p) = None")
    case True
    with assms(1) show ?thesis by (auto simp: read_bucket_def bucket_holds_def)
  next
    case False
    obtain b0 segs where h: "map_of fs (bucket_name s r p) = Some (Inr b0)" "rows = all_rows (b0 @ concat segs)"
        "\<And>q. map_of fs (segment_name s r p q) = (if q < length segs then Some (Inr (segs ! q)) else None)"
        "segment_paths env s r p fs = map (segment_name s r p) [0..<length segs]"
      using bucket_holds_segments [OF assms False] by blast
    let ?ns = "bucket_name s r p # map (segment_name s r p) [0..<length segs]"
    define f where "f n = projr (the (map_of fs n))" for n
    have m: "\<And>n. n \<in> set ?ns \<Longrightarrow> map_of fs n = Some (Inr (f n))" using h(1,3) by (auto simp: f_def)
    have "map (f \<circ> segment_name s r p) [0..<length segs] = map ((!) segs) [0..<length segs]" using h(3) by (simp add: f_def)
    then have e: "concat (map f ?ns) = b0 @ concat segs" using h(1) by (simp add: map_nth f_def)
    have rb: "read_bucket env st s r p fs = read_segments env st fs ?ns" unfolding read_bucket_def h(4) using False by (simp only: if_False)
    show ?thesis
    proof (intro conjI impI)
      assume "read_bucket env st s r p fs = Inr bs"
      then have "read_segments env st fs ?ns = Inr bs" by (simp only: rb)
      then have "bs = concat (map f ?ns)" using read_segments_rows(1) [of ?ns fs f env st bs] m by blast
      then show "all_rows bs = rows" by (simp only: e h(2))
    next
      assume "\<forall>n. se_read env n = None"
      then have "read_segments env st fs ?ns = Inr (concat (map f ?ns))" using read_segments_rows(2) [of ?ns fs f env st] m by blast
      then show "\<exists>bs. read_bucket env st s r p fs = Inr bs" unfolding rb by blast
    qed
  qed
  then show "read_bucket env st s r p fs = Inr bs \<Longrightarrow> all_rows bs = rows"
      "(\<And>n. se_read env n = None) \<Longrightarrow> \<exists>bs. read_bucket env st s r p fs = Inr bs" by blast+
qed

lemma read_partition_rows:
  assumes "holds fs k cache c" and "dir_ok fs" and "se_list env"
  shows "read_partition env fs cache p = Inr bs \<Longrightarrow> all_rows bs = c p"
    and "(\<And>n. se_read env n = None) \<Longrightarrow> \<exists>bs. read_partition env fs cache p = Inr bs"
proof -
  show "all_rows bs = c p" if "read_partition env fs cache p = Inr bs"
  proof (cases cache)
    case (Memory buckets)
    with assms(1) that show ?thesis by (auto simp: read_partition_def holds_def)
  next
    case (Spilled sch st s r counts)
    with that obtain bs0 where b: "read_bucket env st s r p fs = Inr bs0"
        "bs = (if filter (\<lambda>b. 0 < num_rows b) bs0 = [] then [new_empty sch] else filter (\<lambda>b. 0 < num_rows b) bs0)"
      by (auto simp: read_partition_def Let_def)
    have "all_rows bs = all_rows (filter (\<lambda>b. 0 < num_rows b) bs0)" unfolding b(2)
      by (cases "filter (\<lambda>b. 0 < num_rows b) bs0 = []") (simp_all only: if_True if_False, simp add: new_empty_def)
    also have "\<dots> = c p" using read_bucket_rows(1) [OF _ assms(2,3) b(1)] assms(1) Spilled by (simp add: holds_def)
    finally show ?thesis .
  qed
  assume "\<And>n. se_read env n = None"
  show "\<exists>bs. read_partition env fs cache p = Inr bs"
  proof (cases cache)
    case (Spilled sch st s r counts)
    with assms(1) have "bucket_holds fs s r p (c p)" by (simp add: holds_def)
    from read_bucket_rows(2) [OF this assms(2,3) \<open>\<And>n. se_read env n = None\<close>] obtain bs where
      "read_bucket env st s r p fs = Inr bs" by blast
    with Spilled show ?thesis by (simp add: read_partition_def Let_def)
  qed (simp add: read_partition_def)
qed

section \<open>The budget\<close>

definition stages_hold :: "spill_files \<Rightarrow> cached_stages \<Rightarrow> (nat \<times> nat \<Rightarrow> nat \<Rightarrow> cell list list) \<Rightarrow> bool" where
  "stages_hold fs stages C \<longleftrightarrow> dir_ok fs \<and> distinct (map fst stages) \<and>
     (\<forall>i < length stages. holds fs (fst (stages ! i)) (snd (snd (stages ! i))) (C (fst (stages ! i))))"

lemma stages_hold_mem: "stages_hold fs stages C \<Longrightarrow> (k, sch, cache) \<in> set stages \<Longrightarrow> holds fs k cache (C k)"
  by (auto simp: stages_hold_def in_set_conv_nth)

lemma spill_now_holds:
  assumes "spill_now env st sch s r fs cache = (fs', cache', res)" and "dir_ok fs" and "holds fs (s, r) cache c"
  shows "dir_ok fs'" and "touches (s, r) fs fs'" and "res = Inr () \<Longrightarrow> holds fs' (s, r) cache' c"
proof -
  have "dir_ok fs' \<and> touches (s, r) fs fs' \<and> (res = Inr () \<longrightarrow> holds fs' (s, r) cache' c)"
  proof (cases cache)
    case (Memory buckets)
    with assms have c: "scope_clean fs s r" "c = buckets_rows buckets" "spill_in_place env st sch s r buckets fs = (fs', cache', res)"
      by (simp_all add: holds_Memory spill_now_def)
    from spill_in_place_holds [OF c(3) assms(2) c(1)] c(2) show ?thesis by blast
  qed (use assms in \<open>auto simp: spill_now_def\<close>)
  then show "dir_ok fs'" "touches (s, r) fs fs'" "res = Inr () \<Longrightarrow> holds fs' (s, r) cache' c" by simp_all
qed

text \<open>Replacing one entry by one with the same contents.\<close>

lemma stages_hold_update:
  assumes "stages_hold fs stages C" and "i < length stages" and "stages ! i = (k, sch, cache)"
    and "dir_ok fs'" and "touches k fs fs'" and "holds fs' k cache' c"
  shows "stages_hold fs' (stages[i := (k, sch, cache')]) (C(k := c))"
proof -
  have d: "distinct (map fst stages)" using assms(1) by (simp add: stages_hold_def)
  have keys: "map fst (stages[i := (k, sch, cache')]) = map fst stages"
    using assms(2,3) by (auto simp: list_eq_iff_nth_eq nth_list_update)
  have "holds fs' (fst (stages[i := (k, sch, cache')] ! j)) (snd (snd (stages[i := (k, sch, cache')] ! j)))
      ((C(k := c)) (fst (stages[i := (k, sch, cache')] ! j)))" if j: "j < length stages" for j
  proof (cases "j = i")
    case False
    then have "fst (stages ! j) \<noteq> k" using nth_eq_iff_index_eq [OF d, of j i] j assms(2,3) by simp
    with False j assms(1) show ?thesis by (auto simp: stages_hold_def intro: holds_frame [OF _ assms(5)])
  qed (use assms(2,6) in simp)
  then show ?thesis using assms(4) d by (simp add: stages_hold_def keys)
qed

lemma enforce_loop_holds:
  assumes "enforce_loop env st limit fs stages = (fs', stages', res)" and "stages_hold fs stages C"
  shows "dir_ok fs' \<and> map fst stages' = map fst stages \<and> map (\<lambda>e. fst (snd e)) stages' = map (\<lambda>e. fst (snd e)) stages \<and>
    (\<forall>s r. (s, r) \<notin> fst ` set stages \<longrightarrow> scope_clean fs s r \<longrightarrow> scope_clean fs' s r) \<and>
    (res = Inr () \<longrightarrow> stages_hold fs' stages' C \<and> sum_list (stage_bytes env stages') \<le> limit)"
  using assms
proof (induction env st limit fs stages rule: enforce_loop.induct)
  case (1 env st limit fs stages)
  show ?case
  proof (cases "sum_list (stage_bytes env stages) \<le> limit")
    case True
    with "1.prems" show ?thesis by (simp add: enforce_loop.simps stages_hold_def)
  next
    case False
    define i where "i = last_max (stage_bytes env stages)"
    obtain s r sch cache where v: "stages ! i = ((s, r), sch, cache)" by (metis surj_pair)
    obtain fs1 cache1 res1 where sn: "spill_now env st sch s r fs cache = (fs1, cache1, res1)" by (metis surj_pair)
    have i: "i < length stages" unfolding i_def using False
      by (intro enforce_decreases(1) [of limit env stages "Memory []"]) (simp_all add: memory_bytes_def estimated_bucket_bytes_def)
    then have e: "((s, r), sch, cache) \<in> set stages" using v by (metis nth_mem)
    then have mem: "(s, r) \<in> fst ` set stages" "((s, r), sch, cache) \<in> set stages" by force+
    have dir: "dir_ok fs" using "1.prems"(2) by (simp add: stages_hold_def)
    note h = spill_now_holds [OF sn dir stages_hold_mem [OF "1.prems"(2) mem(2)]]
    let ?stages1 = "stages[i := ((s, r), sch, cache1)]"
    have keys: "map fst ?stages1 = map fst stages" "map (\<lambda>e. fst (snd e)) ?stages1 = map (\<lambda>e. fst (snd e)) stages"
      using i v by (auto simp: list_eq_iff_nth_eq nth_list_update)
    then have set_keys: "fst ` set ?stages1 = fst ` set stages" by (metis list.set_map)
    have clean: "scope_clean fs1 s' r'" if "(s', r') \<notin> fst ` set stages" "scope_clean fs s' r'" for s' r'
      using scope_clean_frame [OF that(2) h(2)] mem(1) that(1) by metis
    show ?thesis
    proof (cases res1)
      case (Inl e)
      with "1.prems"(1) False v sn have "fs' = fs1" "stages' = ?stages1" "res = Inl e"
        by (simp_all add: enforce_loop.simps [of env st limit fs stages] Let_def i_def)
      then show ?thesis using h(1) keys clean by simp
    next
      case (Inr u)
      then have sh: "stages_hold fs1 ?stages1 C"
        using stages_hold_update [OF "1.prems"(2) i v h(1,2) h(3)] by simp
      have "enforce_loop env st limit fs1 ?stages1 = (fs', stages', res)"
        using "1.prems"(1) False v sn Inr by (simp add: enforce_loop.simps [of env st limit fs stages] Let_def i_def)
      from "1.IH" [OF False i_def refl v [symmetric] refl sn [symmetric] refl Inr this sh] show ?thesis
        using keys set_keys clean by simp
    qed
  qed
qed

lemma enforce_total_budget_holds:
  assumes "enforce_total_budget env st fs stages = (fs', stages', res)" and "stages_hold fs stages C"
  shows "dir_ok fs'" and "map fst stages' = map fst stages" and "map (\<lambda>e. fst (snd e)) stages' = map (\<lambda>e. fst (snd e)) stages"
    and "(s, r) \<notin> fst ` set stages \<Longrightarrow> scope_clean fs s r \<Longrightarrow> scope_clean fs' s r"
    and "res = Inr () \<Longrightarrow> stages_hold fs' stages' C"
    and "res = Inr () \<Longrightarrow> sp_total_limit st = Some limit \<Longrightarrow> sum_list (stage_bytes env stages') \<le> limit"
  using assms enforce_loop_holds [of env st _ fs stages fs' stages' res C]
  by (auto simp: enforce_total_budget_def stages_hold_def split: option.splits)

section \<open>A contract for row buckets\<close>

text \<open>What the clients of a cache rely on: an added batch is at the end of its bucket, and a read returns the bucket.\<close>

locale row_buckets =
  fixes repr :: "'s \<Rightarrow> (nat \<Rightarrow> 'r list) \<Rightarrow> bool"
    and add :: "nat \<Rightarrow> 'b \<Rightarrow> 's \<Rightarrow> 's option"
    and rows :: "'b \<Rightarrow> 'r list"
    and get :: "'s \<Rightarrow> nat \<Rightarrow> 'r list option"
  assumes add_law: "repr st c \<Longrightarrow> add p b st = Some st' \<Longrightarrow> repr st' (c(p := c p @ rows b))"
    and get_law: "repr st c \<Longrightarrow> get st p = Some rs \<Longrightarrow> rs = c p"
begin

definition adds :: "(nat \<times> 'b) list \<Rightarrow> 's \<Rightarrow> 's option" where
  "adds xs st = foldl (\<lambda>acc (p, b). Option.bind acc (add p b)) (Some st) xs"

lemma adds_step [simp]: "adds [] st = Some st" "adds ((p, b) # xs) st = Option.bind (add p b st) (adds xs)"
proof -
  have "foldl (\<lambda>acc (p, b). Option.bind acc (add p b)) None xs = None" by (induction xs) auto
  then show "adds ((p, b) # xs) st = Option.bind (add p b st) (adds xs)"
    by (cases "add p b st") (simp_all add: adds_def)
qed (simp add: adds_def)

lemma adds_repr:
  "repr st c \<Longrightarrow> adds xs st = Some st' \<Longrightarrow>
   repr st' (\<lambda>p. c p @ concat (map (rows \<circ> snd) (filter (\<lambda>x. fst x = p) xs)))"
proof (induction xs arbitrary: st c)
  case (Cons x xs)
  obtain p b where x: "x = (p, b)" by fastforce
  with Cons.prems(2) obtain st1 where s: "add p b st = Some st1" "adds xs st1 = Some st'" by (auto simp: bind_eq_Some_conv)
  have "(\<lambda>q. (c(p := c p @ rows b)) q @ concat (map (rows \<circ> snd) (filter (\<lambda>x. fst x = q) xs))) =
      (\<lambda>q. c q @ concat (map (rows \<circ> snd) (filter (\<lambda>x. fst x = q) (x # xs))))" by (auto simp: x fun_eq_iff)
  with Cons.IH [OF add_law [OF Cons.prems(1) s(1)] s(2)] show ?case by (simp only:)
qed simp

lemma adds_get:
  assumes "repr st (\<lambda>_. [])" and "adds xs st = Some st'" and "get st' p = Some rs"
  shows "rs = concat (map (rows \<circ> snd) (filter (\<lambda>x. fst x = p) xs))"
  using get_law [OF adds_repr [OF assms(1,2)] assms(3)] by simp

end

text \<open>
  One successful append under what the file system did during the call; a directory of 2^64 files is
  out of reach.
\<close>

definition few_files :: "spill_files \<Rightarrow> bool" where
  "few_files fs \<longleftrightarrow> int (length fs) \<le> 18446744073709551615"

lemma few_files_iff: "few_files fs \<longleftrightarrow> length fs \<le> u64_max"
  by (simp add: few_files_def)

definition cache_add ::
  "spill_store option \<Rightarrow> field list \<Rightarrow> nat \<Rightarrow> nat \<Rightarrow> nat \<Rightarrow> spill_env \<times> record_batch list \<Rightarrow> spill_files \<times> bucket_cache \<Rightarrow> (spill_files \<times> bucket_cache) option" where
  "cache_add spill sch s r p eb fc =
     (if se_list (fst eb) \<and> few_files (fst fc)
      then case append_partition (fst eb) spill sch s r p (snd eb) (fst fc) (snd fc) of
        (fs', cache', Inr _) \<Rightarrow> Some (fs', cache')
      | (_, _, Inl _) \<Rightarrow> None
      else None)"

definition cache_get :: "spill_env \<Rightarrow> spill_files \<times> bucket_cache \<Rightarrow> nat \<Rightarrow> cell list list option" where
  "cache_get env fc p =
     (if se_list env then case read_partition env (fst fc) (snd fc) p of Inr bs \<Rightarrow> Some (all_rows bs) | Inl _ \<Rightarrow> None else None)"

interpretation spill_cache: row_buckets "\<lambda>fc c. dir_ok (fst fc) \<and> holds (fst fc) (s, r) (snd fc) c"
  "cache_add spill sch s r" "\<lambda>eb. all_rows (snd eb)" "cache_get env"
proof
  fix fc :: "spill_files \<times> bucket_cache" and c p eb fc'
  assume h: "dir_ok (fst fc) \<and> holds (fst fc) (s, r) (snd fc) c" and "cache_add spill sch s r p eb fc = Some fc'"
  then have "se_list (fst eb)" "length (fst fc) \<le> u64_max"
      "append_partition (fst eb) spill sch s r p (snd eb) (fst fc) (snd fc) = (fst fc', snd fc', Inr ())"
    by (auto simp: cache_add_def few_files_iff split: if_splits prod.splits sum.splits)
  from append_partition_holds [OF this(3) _ this(1,2)] h
  show "dir_ok (fst fc') \<and> holds (fst fc') (s, r) (snd fc') (c(p := c p @ all_rows (snd eb)))" by blast
next
  fix fc :: "spill_files \<times> bucket_cache" and c p rs
  assume h: "dir_ok (fst fc) \<and> holds (fst fc) (s, r) (snd fc) c" and "cache_get env fc p = Some rs"
  then obtain bs where "se_list env" "read_partition env (fst fc) (snd fc) p = Inr bs" "rs = all_rows bs"
    by (auto simp: cache_get_def split: if_splits sum.splits)
  with read_partition_rows(1) [of "fst fc" "(s, r)" "snd fc" c env p bs] h show "rs = c p" by simp
qed

definition append_run ::
  "spill_store option \<Rightarrow> field list \<Rightarrow> nat \<Rightarrow> nat \<Rightarrow> (nat \<times> spill_env \<times> record_batch list) list \<Rightarrow> spill_files \<times> bucket_cache \<Rightarrow> (spill_files \<times> bucket_cache) option" where
  "append_run spill sch s r xs fc = foldl (\<lambda>acc (p, eb). Option.bind acc (cache_add spill sch s r p eb)) (Some fc) xs"

lemma append_run_holds:
  assumes "append_run spill sch s r xs (fs, cache) = Some (fs', cache')" and "dir_ok fs" and "holds fs (s, r) cache c"
  shows "dir_ok fs'" and "holds fs' (s, r) cache' (\<lambda>p. c p @ concat (map (\<lambda>x. all_rows (snd (snd x))) (filter (\<lambda>x. fst x = p) xs)))"
  using spill_cache.adds_repr [of "(fs, cache)" s r c spill sch xs "(fs', cache')"] assms
  by (simp_all add: append_run_def spill_cache.adds_def o_def)

lemma empty_cache_holds: "scope_clean fs s r \<Longrightarrow> holds fs (s, r) (Memory (replicate n [])) (\<lambda>_. [])"
  by (auto simp: holds_Memory buckets_rows_def fun_eq_iff)

lemma holds_row_counts:
  "holds fs k cache c \<Longrightarrow> (if p < length (partition_row_counts cache) then partition_row_counts cache ! p else 0) = length (c p)"
  by (cases cache) (auto simp: holds_def partition_row_counts_def total_rows_length)

text \<open>
  C3. Refinement: a cache that started empty on a scope with no files, after any successful appends,
  returns for each bucket the rows appended to it, in order, once each, and its row counts agree.
  It does not matter when the buckets moved to disk or which appends became segment files.
\<close>

theorem spill_cache_refines:
  assumes "append_run spill sch s r xs (fs, Memory (replicate n [])) = Some (fs', cache)"
    and "dir_ok fs" and "scope_clean fs s r" and "se_list env"
    and "read_partition env fs' cache p = Inr bs"
  shows "all_rows bs = concat (map (\<lambda>x. all_rows (snd (snd x))) (filter (\<lambda>x. fst x = p) xs)) \<and>
    (if p < length (partition_row_counts cache) then partition_row_counts cache ! p else 0) = length (all_rows bs)"
proof -
  note h = append_run_holds [OF assms(1,2) empty_cache_holds [OF assms(3)]]
  from read_partition_rows(1) [OF h(2,1) assms(4,5)] holds_row_counts [OF h(2), of p] show ?thesis by simp
qed

definition calm :: spill_env where
  "calm = \<lparr>se_write = \<lambda>_. None, se_read = \<lambda>_. None, se_list = True, se_size = num_rows, se_len = \<lambda>_. None\<rparr>"

definition int_batch :: "int list \<Rightarrow> record_batch" where
  "int_batch xs = \<lparr>rb_schema = [\<lparr>f_name = ''v'', f_type = Int64\<rparr>], rb_rows = map (\<lambda>x. [IntCell x]) xs\<rparr>"

definition two_row_store :: spill_store where
  "two_row_store = \<lparr>sp_root = ''/spill'', sp_force = False, sp_memory_limit = Some 2, sp_total_limit = Some 2\<rparr>"

definition demo_appends :: "(nat \<times> spill_env \<times> record_batch list) list" where
  "demo_appends = [(0, calm, [int_batch [1]]), (1, calm, [int_batch [2]]), (0, calm, [int_batch [3], int_batch [4]]), (0, calm, [int_batch [5]])]"

theorem spill_cache_refines_witness:
  "\<exists>fs' cache bs. append_run (Some two_row_store) [] 7 2 demo_appends ([], Memory (replicate 2 [])) = Some (fs', cache) \<and>
     read_partition calm fs' cache 0 = Inr bs \<and> all_rows bs = [[IntCell 1], [IntCell 3], [IntCell 4], [IntCell 5]] \<and>
     map fst fs' \<noteq> []"
proof -
  let ?x = "append_run (Some two_row_store) [] 7 2 demo_appends ([], Memory (replicate 2 []))"
  have e: "(case ?x of Some (fs', cache) \<Rightarrow> map fst fs' \<noteq> [] \<and> (case read_partition calm fs' cache 0 of Inr _ \<Rightarrow> True | Inl _ \<Rightarrow> False) | None \<Rightarrow> False)"
    by code_simp
  then obtain fs' cache where x1: "?x = Some (fs', cache)" by (cases ?x) auto
  with e obtain bs where "read_partition calm fs' cache 0 = Inr bs" "map fst fs' \<noteq> []"
    by (cases "read_partition calm fs' cache 0") simp_all
  with x1 have x: "?x = Some (fs', cache)" "map fst fs' \<noteq> []" "read_partition calm fs' cache 0 = Inr bs" by blast+
  have "se_list calm" "dir_ok []" "scope_clean [] 7 2" by (simp_all add: calm_def dir_ok_def scope_clean_def)
  from spill_cache_refines [OF x(1) this(2,3,1) x(3)] have "all_rows bs = [[IntCell 1], [IntCell 3], [IntCell 4], [IntCell 5]]"
    by (simp add: demo_appends_def int_batch_def)
  with x show ?thesis by blast
qed

section \<open>The budget keeps what the stages hold\<close>

lemma write_buckets_succeeds: "(\<And>n. se_write env n = None) \<Longrightarrow> \<exists>fs'. write_buckets env st s r i bs fs = (fs', Inr ())"
  by (induction bs arbitrary: i fs) (auto simp: write_bucket_def write_ipc_file_def)

lemma spill_now_succeeds: "(\<And>n. se_write env n = None) \<Longrightarrow> \<exists>fs' cache'. spill_now env st sch s r fs cache = (fs', cache', Inr ())"
proof (cases cache)
  case (Memory buckets)
  assume "\<And>n. se_write env n = None"
  then obtain fs' where "write_buckets env st s r 0 buckets fs = (fs', Inr ())" using write_buckets_succeeds by blast
  with Memory show ?thesis by (simp add: spill_now_def spill_in_place_def spill_buckets_def)
qed (simp add: spill_now_def)

lemma enforce_loop_succeeds:
  "(\<And>n. se_write env n = None) \<Longrightarrow> \<exists>fs' stages'. enforce_loop env st limit fs stages = (fs', stages', Inr ())"
proof (induction env st limit fs stages rule: enforce_loop.induct)
  case (1 env st limit fs stages)
  define i where "i = last_max (stage_bytes env stages)"
  obtain s r sch cache where v: "stages ! i = ((s, r), sch, cache)" by (metis surj_pair)
  obtain fs1 cache1 where sn: "spill_now env st sch s r fs cache = (fs1, cache1, Inr ())"
    using spill_now_succeeds [OF "1.prems"] by blast
  show ?case
  proof (cases "sum_list (stage_bytes env stages) \<le> limit")
    case False
    from "1.IH" [OF False i_def refl v [symmetric] refl sn [symmetric] refl refl "1.prems"] False v sn
    show ?thesis by (simp add: enforce_loop.simps [of env st limit fs stages] Let_def i_def)
  qed (simp add: enforce_loop.simps)
qed

text \<open>
  C19. When the file system takes the writes, enforcing the worker-wide budget ends, brings the bytes in
  memory within the limit, and changes the contents of no cached stage.
\<close>

theorem budget_enforced:
  assumes "stages_hold fs stages C" and "\<And>n. se_write env n = None" and "sp_total_limit st = Some limit"
  shows "\<exists>fs' stages'. enforce_total_budget env st fs stages = (fs', stages', Inr ()) \<and>
    stages_hold fs' stages' C \<and> map fst stages' = map fst stages \<and> sum_list (stage_bytes env stages') \<le> limit"
proof -
  obtain fs' stages' where e: "enforce_total_budget env st fs stages = (fs', stages', Inr ())"
    using enforce_loop_succeeds [OF assms(2)] assms(3) by (fastforce simp: enforce_total_budget_def)
  from enforce_total_budget_holds [OF e assms(1)] assms(3) e show ?thesis by blast
qed

definition demo_stages :: cached_stages where
  "demo_stages = [((0, 0), [], Memory [[int_batch [1, 2, 3]]]), ((1, 0), [], Memory [[int_batch [4, 5]]])]"

definition demo_contents :: "nat \<times> nat \<Rightarrow> nat \<Rightarrow> cell list list" where
  "demo_contents k = (if k = (0, 0) then buckets_rows [[int_batch [1, 2, 3]]] else buckets_rows [[int_batch [4, 5]]])"

lemma demo_stages_hold: "stages_hold [] demo_stages demo_contents"
  by (auto simp: stages_hold_def demo_stages_def demo_contents_def dir_ok_def holds_Memory scope_clean_def less_Suc_eq)

theorem budget_enforced_witness:
  "\<exists>fs' stages'. enforce_total_budget calm two_row_store [] demo_stages = (fs', stages', Inr ()) \<and>
     stages_hold fs' stages' demo_contents \<and> map fst stages' = [(0, 0), (1, 0)] \<and> sum_list (stage_bytes calm stages') \<le> 2"
  using budget_enforced [OF demo_stages_hold, of calm two_row_store 2]
  by (simp add: calm_def two_row_store_def demo_stages_def)

lemma spill_now_outcome:
  assumes "spill_now env st sch s r fs cache = (fs', cache', res)"
  shows "res = Inr () \<Longrightarrow> cache' \<noteq> Memory buckets" and "res = Inl e \<Longrightarrow> cache' = Memory [] \<and> (\<exists>buckets. cache = Memory buckets)"
  using assms by (auto simp: spill_now_def spill_in_place_def spill_buckets_def split: bucket_cache.splits prod.splits sum.splits)

lemma enforce_loop_error:
  "enforce_loop env st limit fs stages = (fs', stages', Inl e) \<Longrightarrow>
   \<exists>k sch buckets. (k, sch, Memory buckets) \<in> set stages \<and> 0 < estimated_bucket_bytes env buckets \<and> (k, sch, Memory []) \<in> set stages'"
proof (induction env st limit fs stages rule: enforce_loop.induct)
  case (1 env st limit fs stages)
  define i where "i = last_max (stage_bytes env stages)"
  obtain s r sch cache where v: "stages ! i = ((s, r), sch, cache)" by (metis surj_pair)
  obtain fs1 cache1 res1 where sn: "spill_now env st sch s r fs cache = (fs1, cache1, res1)" by (metis surj_pair)
  have over: "\<not> sum_list (stage_bytes env stages) \<le> limit" using "1.prems" by (auto simp: enforce_loop.simps)
  then have ne: "stage_bytes env stages \<noteq> []" by auto
  note m = last_max_works [OF ne, folded i_def]
  have i: "i < length stages" using m(1) by (simp add: stage_bytes_def)
  have "memory_bytes env cache \<noteq> 0"
  proof
    assume "memory_bytes env cache = 0"
    with i v have "stage_bytes env stages ! i = 0" by (simp add: stage_bytes_def)
    with m(2) have "sum_list (stage_bytes env stages) = 0" by (auto simp: sum_list_eq_0_iff)
    with over show False by simp
  qed
  then have pos: "0 < memory_bytes env cache" by simp
  have mem: "((s, r), sch, cache) \<in> set stages" using i v by (metis nth_mem)
  show ?case
  proof (cases res1)
    case (Inl e')
    then obtain buckets where c: "cache1 = Memory []" "cache = Memory buckets" using spill_now_outcome(2) [OF sn] by blast
    have "stages' = stages[i := ((s, r), sch, Memory [])]"
      using "1.prems" over v sn Inl c by (simp add: enforce_loop.simps [of env st limit fs stages] Let_def i_def)
    then have "((s, r), sch, Memory []) \<in> set stages'" using i by (simp add: set_update_memI)
    then show ?thesis using mem pos c(2) by (auto simp: memory_bytes_def)
  next
    case (Inr u)
    have "enforce_loop env st limit fs1 (stages[i := ((s, r), sch, cache1)]) = (fs', stages', Inl e)"
      using "1.prems" over v sn Inr by (simp add: enforce_loop.simps [of env st limit fs stages] Let_def i_def)
    from "1.IH" [OF over i_def refl v [symmetric] refl sn [symmetric] refl Inr this]
    obtain k sch' buckets where k: "(k, sch', Memory buckets) \<in> set (stages[i := ((s, r), sch, cache1)])"
      "0 < estimated_bucket_bytes env buckets" "(k, sch', Memory []) \<in> set stages'" by blast
    have "cache1 \<noteq> Memory buckets" using spill_now_outcome(1) [OF sn] Inr by simp
    with k(1) have "(k, sch', Memory buckets) \<in> set stages" using set_update_subset_insert [of stages i] by fastforce
    with k show ?thesis by blast
  qed
qed

text \<open>
  When spilling fails while the budget is enforced, the stage chosen for spilling, which held rows in
  memory and may be the committed output of another task, stays in the cache with no buckets at all.
\<close>

theorem budget_error_empties_stage:
  assumes "enforce_total_budget env st fs stages = (fs', stages', Inl e)"
  shows "\<exists>k sch buckets. (k, sch, Memory buckets) \<in> set stages \<and> 0 < estimated_bucket_bytes env buckets \<and>
    (k, sch, Memory []) \<in> set stages'"
  using assms enforce_loop_error by (auto simp: enforce_total_budget_def split: option.splits)

definition disk_full :: spill_env where
  "disk_full = calm\<lparr>se_write := \<lambda>_. Some (CreateFails ''No space left on device (os error 28)'')\<rparr>"

theorem budget_error_empties_stage_witness:
  "\<exists>k sch buckets stages'. snd (enforce_total_budget disk_full two_row_store [] demo_stages) =
       (stages', Inl (Io ''spill create /spill/stage_0_src0_part_0.arrow: No space left on device (os error 28)'')) \<and>
     (k, sch, Memory buckets) \<in> set demo_stages \<and> (k, sch, Memory []) \<in> set stages'"
proof -
  let ?x = "enforce_total_budget disk_full two_row_store [] demo_stages"
  have "snd (snd ?x) = Inl (Io ''spill create /spill/stage_0_src0_part_0.arrow: No space left on device (os error 28)'')"
    by code_simp
  then have "?x = (fst ?x, fst (snd ?x), Inl (Io ''spill create /spill/stage_0_src0_part_0.arrow: No space left on device (os error 28)''))"
    by (metis prod.collapse)
  from budget_error_empties_stage [OF this] this show ?thesis by (metis snd_conv)
qed

text \<open>
  A directory that cannot be listed reads as one without segments: the bucket is served without the rows
  of its segment files, and without an error.
\<close>

lemma unlisted_directory_truncates:
  "(case append_run (Some two_row_store) [] 7 2 demo_appends ([], Memory (replicate 2 [])) of
      Some (fs, cache) \<Rightarrow> read_partition (calm\<lparr>se_list := False\<rparr>) fs cache 0 = Inr [int_batch [1]]
    | None \<Rightarrow> False)"
  by code_simp

end
