(* ===== verification/Shuffle_Worker.thy ===== *)
theory Shuffle_Worker
  imports Spill_Refinement
begin

text \<open>
  The stage cache of a worker (\<^verbatim>\<open>oxidant-execution/src/flight.rs\<close>): producer tasks partition the output of
  their stage into it, pushed batches are appended to it, shuffle reads take the union of its entries,
  and entries leave it when their task fails, when they are too old and when the query ends. The
  query engine is the argument \<^verbatim>\<open>stage_engine\<close>: what running the stage's SQL gives. \<^verbatim>\<open>None\<close> is a panic.
\<close>

section \<open>State\<close>

record shuffle_worker =
  sw_stages :: cached_stages
  sw_inserted :: "((nat \<times> nat) \<times> nat) list"
  sw_files :: spill_files
  sw_spill :: "spill_store option"
  sw_keep_spill :: bool
  sw_ttl :: nat



definition PUSH_SRC :: nat where "PUSH_SRC = 4294967295"

definition remove_key :: "'k \<Rightarrow> ('k \<times> 'v) list \<Rightarrow> ('k \<times> 'v) list" where
  "remove_key k xs = filter (\<lambda>(k', _). k' \<noteq> k) xs"

section \<open>Entries come and go\<close>


definition note_stage_output_insert :: "nat \<Rightarrow> nat \<times> nat \<Rightarrow> shuffle_worker \<Rightarrow> shuffle_worker" where
  "note_stage_output_insert now key w =
     (let stamps = AList.update key now (sw_inserted w) in
      if sw_ttl w = 0 then w\<lparr>sw_inserted := stamps\<rparr>
      else let expired = map fst (filter (\<lambda>(_, t). sw_ttl w \<le> now - t) stamps) in
        w\<lparr>sw_inserted := fold remove_key expired stamps, sw_stages := fold remove_key expired (sw_stages w)\<rparr>)"


section \<open>Producing\<close>








section \<open>Reading and pushing\<close>





definition cache_append_batch ::
  "spill_env \<Rightarrow> spill_env \<Rightarrow> nat \<Rightarrow> nat \<Rightarrow> nat \<Rightarrow> field list \<Rightarrow> record_batch \<Rightarrow> shuffle_worker \<Rightarrow> shuffle_worker \<times> unit result" where
  "cache_append_batch env envb now s p sch b w =
     (let key = (s, PUSH_SRC);
          (w1, res) =
            (case map_of (sw_stages w) key of
               Some (existing, cache) \<Rightarrow>
                 if existing \<noteq> sch
                 then (w, Inl (Execution (''do_exchange schema mismatch for stage '' @ show_nat s @ '' partition '' @ show_nat p)))
                 else (case append_batch env (sw_spill w) existing s PUSH_SRC p b (sw_files w) cache of
                         (fs', cache', res) \<Rightarrow> (w\<lparr>sw_files := fs', sw_stages := AList.update key (existing, cache') (sw_stages w)\<rparr>, res))
             | None \<Rightarrow>
                 (case from_partition env (sw_spill w) sch s PUSH_SRC p [b] (sw_files w) of
                    (fs', Inl e) \<Rightarrow> (w\<lparr>sw_files := fs'\<rparr>, Inl e)
                  | (fs', Inr cache) \<Rightarrow> (w\<lparr>sw_files := fs', sw_stages := AList.update key (sch, cache) (sw_stages w)\<rparr>, Inr ())))
      in case res of
           Inl e \<Rightarrow> (w1, Inl e)
         | Inr _ \<Rightarrow>
             (case sw_spill w1 of
                None \<Rightarrow> (note_stage_output_insert now key w1, Inr ())
              | Some st \<Rightarrow>
                  (case enforce_total_budget envb st (sw_files w1) (sw_stages w1) of
                     (fs', stages', Inl e) \<Rightarrow> (w1\<lparr>sw_files := fs', sw_stages := stages'\<rparr>, Inl e)
                   | (fs', stages', Inr _) \<Rightarrow> (note_stage_output_insert now key (w1\<lparr>sw_files := fs', sw_stages := stages'\<rparr>), Inr ()))))"

text \<open>The rows of one upstream a consumer task will read, when the ticket measures every bucket; \<^verbatim>\<open>None\<close> inside is an index out of range.\<close>

definition measured_upstream_rows :: "nat \<Rightarrow> nat \<Rightarrow> nat list \<Rightarrow> nat list \<Rightarrow> nat \<Rightarrow> nat option option" where
  "measured_upstream_rows np upstreams bucket_rows read_buckets idx =
     (if np = 0 \<or> length bucket_rows \<noteq> upstreams * np then Some None
      else if \<exists>b \<in> set read_buckets. length bucket_rows \<le> idx * np + b then None
      else Some (Some (sum_list (map (\<lambda>b. bucket_rows ! (idx * np + b)) read_buckets))))"

section \<open>What a producer caches\<close>







text \<open>Rows waiting in the staging buffers of bucket \<^term>\<open>p\<close>, counted from \<^term>\<open>i\<close>.\<close>

definition staged_rows :: "nat \<Rightarrow> record_batch list list \<Rightarrow> nat \<Rightarrow> cell list list" where
  "staged_rows i staging p = (if i \<le> p \<and> p < i + length staging then all_rows (staging ! (p - i)) else [])"

lemma staged_rows_simps [simp]:
  "staged_rows i [] = (\<lambda>_. [])"
  "staged_rows i (bs # staging) = (staged_rows (Suc i) staging)(i := all_rows bs)"
  by (auto simp: staged_rows_def fun_eq_iff nth_Cons' not_less_eq_eq)


















section \<open>The worker's cache\<close>















section \<open>A shuffle read is the union of the entries\<close>





section \<open>A small worker\<close>







section \<open>Instances\<close>








section \<open>Files of an earlier run\<close>




end
