(* ===== verification/Task_Scheduler.thy ===== *)
theory Task_Scheduler
  imports Aqe
begin

text \<open>
  How the driver runs one stage task (\<^verbatim>\<open>oxidant-execution/src/scheduler.rs\<close>): attempts on the primary
  worker, recomputation of upstream producers when their buckets cannot be read, then the other
  workers. The remote calls act on a state of the cluster and are the argument \<^verbatim>\<open>cluster_ops\<close>;
  the pauses between attempts are left out. Recomputing a producer runs a stage task in turn, which
  may recompute its own upstreams: the recursion is bounded by fuel, and a fuel above the depth of
  the stage graph is enough. Speculative execution races two of these runs and is not modelled.
\<close>

section \<open>Errors\<close>

definition task_max_retries :: "(string \<Rightarrow> string option) \<Rightarrow> nat" where
  "task_max_retries env =
     (case Option.bind (env ''OXIDANT_TASK_MAX_RETRIES'') parse_u32 of Some n \<Rightarrow> if 0 < n then n else 3 | None \<Rightarrow> 3)"

definition error_text :: "error \<Rightarrow> string" where
  "error_text e = to_ascii_lowercase (error_display e)"

definition is_retryable :: "error \<Rightarrow> bool" where
  "is_retryable e =
     (let s = error_text e in
      if str_contains s ''connect worker'' then True
      else if str_contains s ''transport'' \<or> str_contains s ''goaway'' \<or> str_contains s ''incomplete message'' then True
      else if str_contains s ''deadline'' \<or> str_contains s ''timed out'' \<or> str_contains s ''timeout'' then False
      else str_contains s ''unavailable'' \<or> str_contains s ''connection'' \<or> str_contains s ''reset'' \<or>
        str_contains s ''broken pipe'' \<or> str_contains s ''health check failed'' \<or> str_contains s ''shuffle'' \<or>
        str_contains s ''empty bucket'' \<or> str_contains s ''no task slots'')"

definition needs_upstream_recompute :: "error \<Rightarrow> bool" where
  "needs_upstream_recompute e =
     (let s = error_text e in str_contains s ''shuffle'' \<or> str_contains s ''empty bucket'' \<or> str_contains s ''no batches'')"

definition action_unimplemented :: "error \<Rightarrow> bool" where
  "action_unimplemented e = (let s = error_text e in str_contains s ''unimplemented'' \<or> str_contains s ''not implemented'')"

section \<open>Remote calls\<close>

record worker_heartbeat =
  slots_total :: "nat option"
  slots_used :: "nat option"

definition has_available_slot :: "worker_heartbeat \<Rightarrow> bool" where
  "has_available_slot hb = (case (slots_total hb, slots_used hb) of (Some tot, Some used) \<Rightarrow> used < tot | _ \<Rightarrow> True)"

record ('w, 'b) cluster_ops =
  run_stage_on_worker :: "string \<Rightarrow> stage_ticket \<Rightarrow> 'w \<Rightarrow> 'w \<times> 'b list result"
  heartbeat_worker :: "string \<Rightarrow> 'w \<Rightarrow> 'w \<times> worker_heartbeat result"
  health_check_worker :: "string \<Rightarrow> 'w \<Rightarrow> 'w \<times> unit result"
  pull_bucket_with_retry :: "string \<Rightarrow> nat \<Rightarrow> nat \<Rightarrow> 'w \<Rightarrow> 'w \<times> 'b list result"
  member_endpoints :: "'w \<Rightarrow> 'w \<times> string list"

definition worker_accepts_task :: "('w, 'b) cluster_ops \<Rightarrow> string \<Rightarrow> 'w \<Rightarrow> 'w \<times> bool" where
  "worker_accepts_task ops ep w =
     (case heartbeat_worker ops ep w of
        (w', Inr hb) \<Rightarrow> (w', has_available_slot hb)
      | (w', Inl e) \<Rightarrow>
          if action_unimplemented e
          then (case health_check_worker ops ep w' of (w'', Inr _) \<Rightarrow> (w'', True) | (w'', Inl _) \<Rightarrow> (w'', False))
          else (w', False))"

definition show_slots :: "nat option \<Rightarrow> string" where
  "show_slots n = (case n of Some k \<Rightarrow> show_nat k | None \<Rightarrow> ''?'')"

definition no_free_slots_error :: "('w, 'b) cluster_ops \<Rightarrow> string \<Rightarrow> 'w \<Rightarrow> 'w \<times> error" where
  "no_free_slots_error ops ep w =
     (case heartbeat_worker ops ep w of
        (w', Inr hb) \<Rightarrow>
          (w', Execution (''worker has no free task slots: '' @ ep @ '' (used: '' @ show_slots (slots_used hb) @ ''/'' @ show_slots (slots_total hb) @ '')''))
      | (w', Inl _) \<Rightarrow> (w', Execution (''worker has no free task slots: '' @ ep)))"

fun healthy_endpoints :: "('w, 'b) cluster_ops \<Rightarrow> string list \<Rightarrow> 'w \<Rightarrow> 'w \<times> string list" where
  "healthy_endpoints ops [] w = (w, [])"
| "healthy_endpoints ops (ep # eps) w =
     (case health_check_worker ops ep w of
        (w', Inr _) \<Rightarrow> (case healthy_endpoints ops eps w' of (w'', out) \<Rightarrow> (w'', ep # out))
      | (w', Inl _) \<Rightarrow> healthy_endpoints ops eps w')"

section \<open>Attempts\<close>

definition note_success :: "stage_ticket \<Rightarrow> string \<Rightarrow> stage_lineage \<Rightarrow> stage_lineage" where
  "note_success t ep l = (if t_produce t then record_producer (t_stage_id t) (t_partition_id t) ep l else l)"

text \<open>The loop over the attempts left: \<^const>\<open>Inr\<close> is what the task returns, \<^const>\<open>Inl\<close> the last error of a loop that ended.\<close>

fun attempt_loop ::
  "('w, 'b) cluster_ops \<Rightarrow> stage_ticket \<Rightarrow> string \<Rightarrow> nat \<Rightarrow> nat \<Rightarrow> error option \<Rightarrow> 'w \<times> stage_lineage \<Rightarrow> ('w \<times> stage_lineage) \<times> (error option + 'b list result)" where
  "attempt_loop ops t ep attempt 0 last_err st = (st, Inl last_err)"
| "attempt_loop ops t ep attempt (Suc n) last_err (w, l) =
     (let (w1, go) = (if 0 < attempt then worker_accepts_task ops ep w else (w, True)) in
      if \<not> go then
        (case no_free_slots_error ops ep w1 of (w2, e) \<Rightarrow> attempt_loop ops t ep (Suc attempt) n (Some e) (w2, l))
      else
        (case run_stage_on_worker ops ep t w1 of
           (w2, Inr b) \<Rightarrow> ((w2, note_success t ep l), Inr (Inr b))
         | (w2, Inl e) \<Rightarrow>
             if is_retryable e then attempt_loop ops t ep (Suc attempt) n (Some e) (w2, l)
             else ((w2, l), Inr (Inl e))))"

text \<open>The other workers, each probed first and tried once.\<close>

fun alternates_loop ::
  "('w, 'b) cluster_ops \<Rightarrow> stage_ticket \<Rightarrow> string list \<Rightarrow> string list \<Rightarrow> error option \<Rightarrow> 'w \<times> stage_lineage \<Rightarrow> ('w \<times> stage_lineage) \<times> 'b list result" where
  "alternates_loop ops t tried [] last_err st =
     (st, Inl (case last_err of Some e \<Rightarrow> e | None \<Rightarrow> Execution ''stage task failed on all workers''))"
| "alternates_loop ops t tried (alt # alts) last_err (w, l) =
     (if alt \<in> set tried then alternates_loop ops t tried alts last_err (w, l)
      else case worker_accepts_task ops alt w of
        (w1, False) \<Rightarrow> alternates_loop ops t tried alts last_err (w1, l)
      | (w1, True) \<Rightarrow>
          (case run_stage_on_worker ops alt t w1 of
             (w2, Inr b) \<Rightarrow> ((w2, note_success t alt l), Inr b)
           | (w2, Inl e) \<Rightarrow>
               if is_retryable e then alternates_loop ops t (tried @ [alt]) alts (Some e) (w2, l)
               else ((w2, l), Inl e)))"

section \<open>Recomputation\<close>

fun all_readable :: "('w, 'b) cluster_ops \<Rightarrow> string \<Rightarrow> nat \<Rightarrow> nat list \<Rightarrow> 'w \<Rightarrow> 'w \<times> bool" where
  "all_readable ops ep up [] w = (w, True)"
| "all_readable ops ep up (b # bs) w =
     (case pull_bucket_with_retry ops ep up b w of
        (w', Inr batches) \<Rightarrow> if batches \<noteq> [] then all_readable ops ep up bs w' else (w', False)
      | (w', Inl _) \<Rightarrow> (w', False))"

definition needed_buckets :: "stage_ticket \<Rightarrow> nat list" where
  "needed_buckets c =
     (let m = (if t_coalesce_read_modulus c = 0 then t_num_partitions c else min (t_coalesce_read_modulus c) (t_num_partitions c))
      in coalesced_read_buckets (t_num_partitions c) m (t_partition_id c))"

definition recompute_ticket :: "stage_ticket \<Rightarrow> nat \<Rightarrow> nat \<Rightarrow> stage_def \<Rightarrow> (nat \<rightharpoonup> stage_def) \<Rightarrow> stage_ticket" where
  "recompute_ticket c up i d stages =
     \<lparr>t_stage_id = up, t_partition_id = i, t_num_partitions = t_num_partitions c,
      t_upstream_endpoints = (if upstream_stage_ids d = [] then [] else t_upstream_endpoints c),
      t_stage_sql = sql d, t_plan_fragment = (case plan_fragment d of Some f \<Rightarrow> f | None \<Rightarrow> []),
      t_hash_key_cols = hash_key_cols d, t_upstream_stage_ids = upstream_stage_ids d, t_produce = True,
      t_lakehouse_snapshot_pins = lakehouse_snapshot_pins d, t_replicated_tables = replicated_tables d,
      t_coalesce_read_modulus = 0, t_forward_upstream_stage_ids = forward_upstreams d stages,
      t_upstream_bucket_rows = [], t_lakeformation_required = lakeformation_required d,
      t_lakeformation_principal = lakeformation_principal d\<rparr>"

definition recompute_target :: "('w, 'b) cluster_ops \<Rightarrow> string \<Rightarrow> 'w \<Rightarrow> 'w \<times> string option" where
  "recompute_target ops ep w =
     (case healthy_endpoints ops [ep] w of
        (w', h # _) \<Rightarrow> (w', Some h)
      | (w', []) \<Rightarrow> (case member_endpoints ops w' of (w'', eps) \<Rightarrow> (w'', find (\<lambda>e. e \<noteq> ep) eps)))"

text \<open>\<^term>\<open>run\<close> runs one stage task; \<^const>\<open>None\<close> when it does not return.\<close>

fun recompute_endpoints ::
  "(string \<Rightarrow> stage_ticket \<Rightarrow> 'w \<times> stage_lineage \<Rightarrow> (('w \<times> stage_lineage) \<times> 'b list result) option) \<Rightarrow> ('w, 'b) cluster_ops \<Rightarrow>
   (nat \<rightharpoonup> stage_def) \<Rightarrow> stage_ticket \<Rightarrow> nat \<Rightarrow> stage_def \<Rightarrow> nat \<Rightarrow> string list \<Rightarrow> 'w \<times> stage_lineage \<Rightarrow>
   (('w \<times> stage_lineage) \<times> unit result) option" where
  "recompute_endpoints run ops stages c up d i [] st = Some (st, Inr ())"
| "recompute_endpoints run ops stages c up d i (ep # eps) (w, l) =
     (case all_readable ops ep up (needed_buckets c) w of
        (w1, True) \<Rightarrow> recompute_endpoints run ops stages c up d (Suc i) eps (w1, l)
      | (w1, False) \<Rightarrow>
          (case recompute_target ops ep w1 of
             (w2, None) \<Rightarrow> Some ((w2, l), Inl (Execution ''recompute: no healthy worker''))
           | (w2, Some target) \<Rightarrow>
               (case run target (recompute_ticket c up i d stages) (w2, l) of
                  None \<Rightarrow> None
                | Some (st', Inl e) \<Rightarrow> Some (st', Inl e)
                | Some (st', Inr _) \<Rightarrow> recompute_endpoints run ops stages c up d (Suc i) eps st')))"

fun recompute_upstreams ::
  "(string \<Rightarrow> stage_ticket \<Rightarrow> 'w \<times> stage_lineage \<Rightarrow> (('w \<times> stage_lineage) \<times> 'b list result) option) \<Rightarrow> ('w, 'b) cluster_ops \<Rightarrow>
   (nat \<rightharpoonup> stage_def) \<Rightarrow> stage_ticket \<Rightarrow> nat list \<Rightarrow> 'w \<times> stage_lineage \<Rightarrow> (('w \<times> stage_lineage) \<times> unit result) option" where
  "recompute_upstreams run ops stages c [] st = Some (st, Inr ())"
| "recompute_upstreams run ops stages c (up # ups) st =
     (case stages up of
        None \<Rightarrow> Some (st, Inl (Execution (''recompute: unknown stage '' @ show_nat up)))
      | Some d \<Rightarrow>
          (let probe = (if exchange d = ExForward then take 1 (t_upstream_endpoints c) else t_upstream_endpoints c) in
           case recompute_endpoints run ops stages c up d 0 probe st of
             None \<Rightarrow> None
           | Some (st', Inl e) \<Rightarrow> Some (st', Inl e)
           | Some (st', Inr _) \<Rightarrow> recompute_upstreams run ops stages c ups st'))"

definition after_recompute ::
  "('w, 'b) cluster_ops \<Rightarrow> stage_ticket \<Rightarrow> string \<Rightarrow> 'w \<times> stage_lineage \<Rightarrow> ('w \<times> stage_lineage) \<times> (error option + 'b list result)" where
  "after_recompute ops t ep st =
     (case worker_accepts_task ops ep (fst st) of
        (w1, True) \<Rightarrow>
          (case run_stage_on_worker ops ep t w1 of
             (w2, Inr b) \<Rightarrow> ((w2, snd st), Inr (Inr b))
           | (w2, Inl e) \<Rightarrow> ((w2, snd st), Inl (Some e)))
      | (w1, False) \<Rightarrow> (case no_free_slots_error ops ep w1 of (w2, e) \<Rightarrow> ((w2, snd st), Inl (Some e))))"

section \<open>One stage task\<close>

definition finish_task ::
  "('w, 'b) cluster_ops \<Rightarrow> stage_ticket \<Rightarrow> string \<Rightarrow> ('w \<times> stage_lineage) \<times> (error option + 'b list result) \<Rightarrow> ('w \<times> stage_lineage) \<times> 'b list result" where
  "finish_task ops t ep r =
     (case r of
        (st, Inr res) \<Rightarrow> (st, res)
      | ((w, l), Inl last_err) \<Rightarrow>
          (case member_endpoints ops w of (w', eps) \<Rightarrow> alternates_loop ops t [ep] eps last_err (w', l)))"

fun run_stage_inner ::
  "nat \<Rightarrow> ('w, 'b) cluster_ops \<Rightarrow> nat \<Rightarrow> (nat \<rightharpoonup> stage_def) \<Rightarrow> string \<Rightarrow> stage_ticket \<Rightarrow> 'w \<times> stage_lineage \<Rightarrow> (('w \<times> stage_lineage) \<times> 'b list result) option" where
  "run_stage_inner 0 ops mx stages ep t st = None"
| "run_stage_inner (Suc fuel) ops mx stages ep t st =
     (case attempt_loop ops t ep 0 mx None st of
        (st1, Inr res) \<Rightarrow> Some (st1, res)
      | (st1, Inl last_err) \<Rightarrow>
          if t_upstream_stage_ids t \<noteq> [] \<and> (case last_err of Some e \<Rightarrow> needs_upstream_recompute e | None \<Rightarrow> False) then
            (case recompute_upstreams (run_stage_inner fuel ops mx stages) ops stages t (t_upstream_stage_ids t) st1 of
               None \<Rightarrow> None
             | Some (st2, Inl e) \<Rightarrow> Some (finish_task ops t ep (st2, Inl (Some e)))
             | Some (st2, Inr _) \<Rightarrow> Some (finish_task ops t ep (after_recompute ops t ep st2)))
          else Some (finish_task ops t ep (st1, Inl last_err)))"

section \<open>A stage task returns\<close>

text \<open>Stages refer only to stages of smaller rank: the graph has no cycle.\<close>

definition ranked :: "(nat \<Rightarrow> nat) \<Rightarrow> (nat \<rightharpoonup> stage_def) \<Rightarrow> bool" where
  "ranked rk stages \<longleftrightarrow> (\<forall>up d. stages up = Some d \<longrightarrow> (\<forall>u \<in> set (upstream_stage_ids d). rk u < rk up))"

lemma recompute_endpoints_total:
  assumes "\<And>target i st. run target (recompute_ticket c up i d stages) st \<noteq> None"
  shows "recompute_endpoints run ops stages c up d i eps st \<noteq> None"
proof (induction eps arbitrary: i st)
  case (Cons ep eps)
  obtain w l where st: "st = (w, l)" by fastforce
  obtain w1 readable where r: "all_readable ops ep up (needed_buckets c) w = (w1, readable)" by fastforce
  obtain w2 target where t: "recompute_target ops ep w1 = (w2, target)" by fastforce
  show ?case
  proof (cases "readable \<or> target = None")
    case True
    with Cons.IH st r t show ?thesis by (cases readable) auto
  next
    case False
    then obtain tg where tg: "target = Some tg" "\<not> readable" by auto
    obtain st' res where "run tg (recompute_ticket c up i d stages) (w2, l) = Some (st', res)"
      using assms by (metis not_Some_eq surj_pair)
    with Cons.IH st r t tg show ?thesis by (cases res) auto
  qed
qed simp

lemma recompute_upstreams_total:
  assumes "\<And>up d target i st. up \<in> set ups \<Longrightarrow> stages up = Some d \<Longrightarrow> run target (recompute_ticket c up i d stages) st \<noteq> None"
  shows "recompute_upstreams run ops stages c ups st \<noteq> None"
  using assms
proof (induction ups arbitrary: st)
  case (Cons up ups)
  show ?case
  proof (cases "stages up")
    case (Some d)
    let ?probe = "if exchange d = ExForward then take 1 (t_upstream_endpoints c) else t_upstream_endpoints c"
    have "recompute_endpoints run ops stages c up d 0 ?probe st \<noteq> None"
      by (rule recompute_endpoints_total) (use Cons.prems Some in simp)
    then obtain st' res where "recompute_endpoints run ops stages c up d 0 ?probe st = Some (st', res)" by auto
    moreover have "recompute_upstreams run ops stages c ups st' \<noteq> None" by (rule Cons.IH) (use Cons.prems in simp)
    ultimately show ?thesis using Some by (cases res) (simp_all add: Let_def)
  qed simp
qed simp

text \<open>
  C21. A stage task returns, with a result or an error, whatever the workers answer: in a stage graph
  without cycles the recomputation of upstream producers, which may itself recompute their
  upstreams, nests no deeper than the graph.
\<close>

theorem run_stage_returns:
  assumes "ranked rk stages" and "\<forall>u \<in> set (t_upstream_stage_ids t). rk u < n"
  shows "\<exists>st' res. run_stage_inner (Suc n) ops mx stages ep t st = Some (st', res)"
proof -
  have "run_stage_inner (Suc n) ops mx stages ep t st \<noteq> None"
    using assms(2)
  proof (induction n arbitrary: ep t st)
    case 0
    then have "t_upstream_stage_ids t = []" by simp
    moreover obtain st1 x where "attempt_loop ops t ep 0 mx None st = (st1, x)" by fastforce
    ultimately show ?case by (cases x) (simp_all del: not_None_eq)
  next
    case (Suc n)
    have "run_stage_inner (Suc n) ops mx stages target (recompute_ticket t up i d stages) st' \<noteq> None"
      if "up \<in> set (t_upstream_stage_ids t)" "stages up = Some d" for up d target i st'
    proof (rule Suc.IH)
      have "rk up < Suc n" using Suc.prems that(1) by simp
      moreover have "\<forall>u \<in> set (upstream_stage_ids d). rk u < rk up" using assms(1) that(2) by (simp add: ranked_def)
      ultimately show "\<forall>u \<in> set (t_upstream_stage_ids (recompute_ticket t up i d stages)). rk u < n"
        by (auto simp: recompute_ticket_def)
    qed
    note r = recompute_upstreams_total [of "t_upstream_stage_ids t" stages "run_stage_inner (Suc n) ops mx stages" t ops, OF this]
    obtain st1 x where a: "attempt_loop ops t ep 0 mx None st = (st1, x)" by fastforce
    obtain st2 res where rec: "recompute_upstreams (run_stage_inner (Suc n) ops mx stages) ops stages t (t_upstream_stage_ids t) st1 = Some (st2, res)"
      using r [of st1] by (metis not_Some_eq surj_pair)
    show ?case unfolding run_stage_inner.simps(2) [of "Suc n"] a prod.case rec option.case
      by (cases x; cases res) (simp_all del: not_None_eq)
  qed
  then show ?thesis by (metis not_Some_eq surj_pair)
qed

section \<open>What a task runs\<close>


text \<open>Counting the dispatches in the state of the cluster.\<close>

definition counts_runs :: "('w, 'b) cluster_ops \<Rightarrow> ('w \<Rightarrow> nat) \<Rightarrow> nat \<Rightarrow> bool" where
  "counts_runs ops runs k \<longleftrightarrow>
     (\<forall>ep t w. runs (fst (run_stage_on_worker ops ep t w)) \<le> Suc (runs w)) \<and>
     (\<forall>ep w. runs (fst (heartbeat_worker ops ep w)) = runs w) \<and>
     (\<forall>ep w. runs (fst (health_check_worker ops ep w)) = runs w) \<and>
     (\<forall>w. runs (fst (member_endpoints ops w)) = runs w \<and> length (snd (member_endpoints ops w)) \<le> k)"

lemma counts_runs_probe:
  assumes "counts_runs ops runs k"
  shows "runs (fst (worker_accepts_task ops ep w)) = runs w" and "runs (fst (no_free_slots_error ops ep w)) = runs w"
proof -
  obtain w1 r where h: "heartbeat_worker ops ep w = (w1, r)" by fastforce
  obtain w2 r2 where c: "health_check_worker ops ep w1 = (w2, r2)" by fastforce
  have "runs w1 = runs w" "runs w2 = runs w1" using assms h c unfolding counts_runs_def by (metis fst_conv)+
  with h c show "runs (fst (worker_accepts_task ops ep w)) = runs w" "runs (fst (no_free_slots_error ops ep w)) = runs w"
    by (cases r; cases r2; simp add: worker_accepts_task_def no_free_slots_error_def)+
qed

lemma counts_runs_run: "counts_runs ops runs k \<Longrightarrow> run_stage_on_worker ops ep t w = (w', res) \<Longrightarrow> runs w' \<le> Suc (runs w)"
  by (metis counts_runs_def fst_conv)

lemma attempt_loop_runs:
  assumes "counts_runs ops runs k"
  shows "attempt_loop ops t ep a n last_err (w, l) = ((w', l'), x) \<Longrightarrow> runs w' \<le> runs w + n"
proof (induction n arbitrary: a last_err w l)
  case (Suc n)
  obtain w1 go where p: "(if 0 < a then worker_accepts_task ops ep w else (w, True)) = (w1, go)" by fastforce
  have r1: "runs w1 = runs w" using p counts_runs_probe(1) [OF assms, of ep w] by (cases "0 < a") auto
  show ?case
  proof (cases go)
    case False
    obtain w2 e where n: "no_free_slots_error ops ep w1 = (w2, e)" by fastforce
    then have "runs w2 = runs w" using counts_runs_probe(2) [OF assms, of ep w1] r1 by simp
    moreover have "attempt_loop ops t ep (Suc a) n (Some e) (w2, l) = ((w', l'), x)" using Suc.prems p n False by simp
    ultimately show ?thesis using Suc.IH by fastforce
  next
    case True
    obtain w2 res where r: "run_stage_on_worker ops ep t w1 = (w2, res)" by fastforce
    have le: "runs w2 \<le> Suc (runs w)" using counts_runs_run [OF assms r] r1 by simp
    show ?thesis
    proof (cases "\<exists>e. res = Inl e \<and> is_retryable e")
      case True
      then obtain e where "res = Inl e" "is_retryable e" by blast
      then have "attempt_loop ops t ep (Suc a) n (Some e) (w2, l) = ((w', l'), x)" using Suc.prems p \<open>go\<close> r by simp
      from Suc.IH [OF this] le show ?thesis by simp
    next
      case False
      then have "w' = w2" using Suc.prems p \<open>go\<close> r by (cases res) auto
      with le show ?thesis by simp
    qed
  qed
qed simp

lemma alternates_loop_runs:
  assumes "counts_runs ops runs k"
  shows "alternates_loop ops t tried alts last_err (w, l) = ((w', l'), x) \<Longrightarrow> runs w' \<le> runs w + length alts"
proof (induction alts arbitrary: tried last_err w l)
  case (Cons alt alts)
  obtain w1 go where p: "worker_accepts_task ops alt w = (w1, go)" by fastforce
  have r1: "runs w1 = runs w" using p counts_runs_probe(1) [OF assms, of alt w] by simp
  obtain w2 res where r: "run_stage_on_worker ops alt t w1 = (w2, res)" by fastforce
  have le: "runs w2 \<le> Suc (runs w)" using counts_runs_run [OF assms r] r1 by simp
  consider (skip) "alt \<in> set tried" | (busy) "alt \<notin> set tried" "\<not> go" | (retry) e where "alt \<notin> set tried" "go" "res = Inl e" "is_retryable e"
    | (finished) "alt \<notin> set tried" "go" "\<And>e. res = Inl e \<Longrightarrow> \<not> is_retryable e" by blast
  then show ?case
  proof cases
    case skip
    with Cons.prems Cons.IH show ?thesis by fastforce
  next
    case busy
    with Cons.prems p have "alternates_loop ops t tried alts last_err (w1, l) = ((w', l'), x)" by simp
    from Cons.IH [OF this] r1 show ?thesis by simp
  next
    case (retry e)
    with Cons.prems p r have "alternates_loop ops t (tried @ [alt]) alts (Some e) (w2, l) = ((w', l'), x)" by simp
    from Cons.IH [OF this] le show ?thesis by simp
  next
    case finished
    with Cons.prems p r have "w' = w2" by (cases res) auto
    with le show ?thesis by simp
  qed
qed simp

text \<open>
  The task of a stage without upstreams is dispatched at most as often as the retry limit allows on
  its own worker, and once on each worker of the cluster: a cluster that keeps failing does not
  make the driver retry without end.
\<close>

theorem leaf_dispatches_bounded:
  assumes "run_stage_inner fuel ops mx stages ep t (w, l) = Some ((w', l'), res)" and "t_upstream_stage_ids t = []"
    and "counts_runs ops runs k"
  shows "runs w' \<le> runs w + mx + k"
proof -
  obtain n where n: "fuel = Suc n" using assms(1) by (cases fuel) auto
  obtain w1 l1 x where a: "attempt_loop ops t ep 0 mx None (w, l) = ((w1, l1), x)" by (metis surj_pair)
  note r = attempt_loop_runs [OF assms(3) a]
  show ?thesis
  proof (cases x)
    case (Inl last_err)
    obtain w2 eps where m: "member_endpoints ops w1 = (w2, eps)" by fastforce
    then have m2: "runs w2 = runs w1" "length eps \<le> k" using assms(3) unfolding counts_runs_def by (metis fst_conv snd_conv)+
    have "alternates_loop ops t [ep] eps last_err (w2, l1) = ((w', l'), res)"
      using assms(1,2) n a Inl m by (simp add: finish_task_def)
    from alternates_loop_runs [OF assms(3) this] r m2 show ?thesis by simp
  qed (use assms(1) n a r in simp)
qed

section \<open>Instances\<close>

definition demo_ops :: "(string \<Rightarrow> unit list result) \<Rightarrow> (nat, unit) cluster_ops" where
  "demo_ops answer =
     \<lparr>run_stage_on_worker = \<lambda>ep _ w. (Suc w, answer ep),
      heartbeat_worker = \<lambda>_ w. (w, Inr \<lparr>slots_total = Some 4, slots_used = Some 0\<rparr>),
      health_check_worker = \<lambda>_ w. (w, Inr ()),
      pull_bucket_with_retry = \<lambda>_ _ _ w. (w, Inl (Io ''connect worker: refused'')),
      member_endpoints = \<lambda>w. (w, [''w1'', ''w2''])\<rparr>"

definition demo_stage_ticket :: "nat list \<Rightarrow> stage_ticket" where
  "demo_stage_ticket ups = build_stage_ticket (stage_def_new 2 ''q'' ups []) 0 2 0 [''w1'', ''w2''] True (\<lambda>_. None) (\<lambda>_. None)"

definition demo_graph :: "nat \<rightharpoonup> stage_def" where
  "demo_graph = [0 \<mapsto> stage_def_new 0 ''p'' [] [], 1 \<mapsto> stage_def_new 1 ''q'' [0] []]"

definition broken_link :: "string \<Rightarrow> unit list result" where
  "broken_link ep = (if ep = ''w2'' then Inr [] else Inl (Execution ''do_get: transport error''))"

theorem run_stage_returns_witness:
  "\<exists>st' res. run_stage_inner 3 (demo_ops broken_link) 3 demo_graph ''w1'' (demo_stage_ticket [0, 1]) (0, Map.empty) = Some (st', res)"
proof -
  have "ranked id demo_graph" by (auto simp: ranked_def demo_graph_def split: if_splits)
  moreover have "\<forall>u \<in> set (t_upstream_stage_ids (demo_stage_ticket [0, 1])). id u < 2"
    by (simp add: demo_stage_ticket_def build_stage_ticket_def)
  ultimately have "\<exists>st' res. run_stage_inner (Suc 2) (demo_ops broken_link) 3 demo_graph ''w1'' (demo_stage_ticket [0, 1]) (0, Map.empty) =
      Some (st', res)" by (rule run_stage_returns)
  moreover have "Suc 2 = (3 :: nat)" by simp
  ultimately show ?thesis by (simp only:)
qed


theorem leaf_dispatches_bounded_witness:
  "\<exists>w' l' res. run_stage_inner 1 (demo_ops broken_link) 3 demo_graph ''w1'' (demo_stage_ticket []) (0, Map.empty) = Some ((w', l'), res) \<and>
     w' \<le> 0 + 3 + 2"
proof -
  let ?r = "run_stage_inner 1 (demo_ops broken_link) 3 demo_graph ''w1'' (demo_stage_ticket []) (0, Map.empty)"
  have u: "t_upstream_stage_ids (demo_stage_ticket []) = []" by (simp add: demo_stage_ticket_def build_stage_ticket_def)
  have "(case ?r of Some _ \<Rightarrow> True | None \<Rightarrow> False)" by code_simp
  then obtain w' l' res where r: "?r = Some ((w', l'), res)" by (cases ?r) auto
  have "counts_runs (demo_ops broken_link) (\<lambda>w. w) 2" by (simp add: counts_runs_def demo_ops_def)
  from leaf_dispatches_bounded [OF r u this] r show ?thesis by blast
qed

text \<open>
  A producer that succeeds after its upstreams were recomputed is not recorded in the lineage, unlike
  one that succeeds at first or on another worker.
\<close>

lemma after_recompute_unrecorded:
  "after_recompute ops t ep st = (st', Inr (Inr b)) \<Longrightarrow> snd st' = snd st"
  by (auto simp: after_recompute_def split: prod.splits sum.splits bool.splits)

end
