(* ===== verification/Shuffle_Names.thy ===== *)
theory Shuffle_Names
  imports Stage_Plan
begin

text \<open>
  What travels with a shuffle: the tickets and headers of \<^verbatim>\<open>shuffle/protocol.rs\<close> and the rewriting of a
  stage's SQL to the table names of one task (\<^verbatim>\<open>shuffle/mod.rs\<close>). Strings are their UTF-8 bytes. The
  scanner is compared with a reference definition that first splits the SQL into tokens.
\<close>

section \<open>Exchange headers and tickets\<close>

record shuffle_exchange_header =
  xh_stage_id :: nat
  xh_partition_id :: nat

definition u32_le :: "nat \<Rightarrow> string" where
  "u32_le n = map (\<lambda>i. char_of (n div 256 ^ i mod 256)) [0..<4]"

definition le_u32 :: "string \<Rightarrow> nat" where
  "le_u32 bs = foldr (\<lambda>b acc. of_char b + 256 * acc) bs 0"

definition encode_header :: "shuffle_exchange_header \<Rightarrow> string" where
  "encode_header h = u32_le (xh_stage_id h) @ u32_le (xh_partition_id h)"

definition decode_header :: "string \<Rightarrow> string + shuffle_exchange_header" where
  "decode_header bytes =
     (if length bytes \<noteq> 8 then Inl ''bad shuffle exchange header length''
      else Inr \<lparr>xh_stage_id = le_u32 (take 4 bytes), xh_partition_id = le_u32 (drop 4 bytes)\<rparr>)"

record shuffle_read_ticket =
  sr_stage_id :: nat
  sr_target_partition :: nat

datatype ticket = StageT stage_ticket | ShuffleReadT shuffle_read_ticket | SqlT string

text \<open>The protobuf messages and the lossy conversion of bytes to text are parameters.\<close>

record prost =
  enc_stage :: "stage_ticket \<Rightarrow> string"
  dec_stage :: "string \<Rightarrow> string + stage_ticket"
  enc_read :: "shuffle_read_ticket \<Rightarrow> string"
  dec_read :: "string \<Rightarrow> string + shuffle_read_ticket"
  utf8_lossy :: "string \<Rightarrow> string"

definition stage_ticket_bytes :: "prost \<Rightarrow> stage_ticket \<Rightarrow> string" where
  "stage_ticket_bytes pr t = CHR 0x01 # enc_stage pr t"

definition read_ticket_bytes :: "prost \<Rightarrow> shuffle_read_ticket \<Rightarrow> string" where
  "read_ticket_bytes pr t = CHR 0x02 # enc_read pr t"

definition decode_ticket :: "prost \<Rightarrow> string \<Rightarrow> string + ticket" where
  "decode_ticket pr bytes =
     (case bytes of
        b # rest \<Rightarrow>
          if b = CHR 0x01 then map_sum id StageT (dec_stage pr rest)
          else if b = CHR 0x02 then map_sum id ShuffleReadT (dec_read pr rest)
          else Inr (SqlT (utf8_lossy pr bytes))
      | [] \<Rightarrow> Inr (SqlT (utf8_lossy pr bytes)))"

section \<open>Table names of a task\<close>

definition SHUFFLE_INPUT_TABLE :: string where "SHUFFLE_INPUT_TABLE = ''shuffle_input''"

definition localized_shuffle_input_name :: "nat \<Rightarrow> nat \<Rightarrow> nat option \<Rightarrow> string" where
  "localized_shuffle_input_name s p up =
     SHUFFLE_INPUT_TABLE @ ''__s'' @ show_nat s @ ''_p'' @ show_nat p @
       (case up of None \<Rightarrow> [] | Some i \<Rightarrow> ''_'' @ show_nat i)"

text \<open>The upstream index of \<^verbatim>\<open>shuffle_input_{i}\<close>; \<^verbatim>\<open>usize\<close> has 64 bits.\<close>

definition shuffle_input_token_index :: "string \<Rightarrow> nat option" where
  "shuffle_input_token_index ident =
     (if starts_with ident ''shuffle_input_''
      then let suffix = drop 14 ident in
        if suffix = [] \<or> \<not> list_all is_digit suffix then None else parse_u64 suffix
      else None)"








definition rename_ident :: "nat \<Rightarrow> nat \<Rightarrow> nat \<Rightarrow> string \<Rightarrow> string" where
  "rename_ident s p ups ident =
     (if ident = SHUFFLE_INPUT_TABLE then localized_shuffle_input_name s p None
      else case shuffle_input_token_index ident of
        Some i \<Rightarrow> if i < ups then localized_shuffle_input_name s p (Some i) else ident
      | None \<Rightarrow> ident)"







section \<open>Round trips\<close>

lemma le_u32_u32_le:
  assumes "n < 4294967296"
  shows "le_u32 (u32_le n) = n"
proof -
  have d: "n div 65536 = n div 256 div 256" "n div 16777216 = n div 65536 div 256" by (simp_all add: div_mult2_eq [symmetric])
  have e: "n div 16777216 < 256" using assms by simp
  have "n mod 256 + 256 * (n div 256) = n" "n div 256 mod 256 + 256 * (n div 65536) = n div 256"
      "n div 65536 mod 256 + 256 * (n div 16777216) = n div 65536"
    unfolding d(2) using mod_mult_div_eq [of n 256] mod_mult_div_eq [of "n div 256" 256] mod_mult_div_eq [of "n div 65536" 256] d(1) by simp_all
  then have "n mod 256 + 256 * (n div 256 mod 256 + 256 * (n div 65536 mod 256 + 256 * (n div 16777216))) = n" by simp
  moreover have "[0..<4] = [0, 1, 2, 3 :: nat]" by (simp add: upt_rec)
  ultimately show ?thesis using e by (simp add: u32_le_def le_u32_def)
qed

lemma length_u32_le [simp]: "length (u32_le n) = 4"
  by (simp add: u32_le_def)

text \<open>
  The exchange header and the tickets are read back as they were written, and a ticket of one kind
  is never taken for another, given that the protobuf library reads its own messages.
\<close>

theorem shuffle_messages_roundtrip:
  assumes "xh_stage_id h < 4294967296" and "xh_partition_id h < 4294967296"
    and "dec_stage pr (enc_stage pr t) = Inr t" and "dec_read pr (enc_read pr r) = Inr r"
  shows "decode_header (encode_header h) = Inr h \<and>
    decode_ticket pr (stage_ticket_bytes pr t) = Inr (StageT t) \<and> decode_ticket pr (read_ticket_bytes pr r) = Inr (ShuffleReadT r)"
  using assms by (simp add: decode_header_def encode_header_def le_u32_u32_le decode_ticket_def stage_ticket_bytes_def read_ticket_bytes_def)

section \<open>The scanner renames identifiers only\<close>









lemma show_nat_end:
  assumes "\<not> is_digit d"
  shows "show_nat m \<noteq> show_nat n @ d # y"
proof
  assume e: "show_nat m = show_nat n @ d # y"
  have "list_all is_digit (show_nat n @ d # y)" unfolding e [symmetric] by (rule show_nat_digits)
  with assms show False by simp
qed

text \<open>
  C24. The table names of different tasks differ, so tasks of one stage that run on one worker at the same
  time do not see each other's inputs; and the name of one task is left alone when the SQL is
  localized for another.
\<close>

theorem localized_names_apart:
  "(localized_shuffle_input_name s p u = localized_shuffle_input_name s' p' u' \<longleftrightarrow> s = s' \<and> p = p' \<and> u = u') \<and>
   rename_ident s' p' ups (localized_shuffle_input_name s p u) = localized_shuffle_input_name s p u"
proof
  let ?tail = "\<lambda>u. case u of None \<Rightarrow> [] | Some i \<Rightarrow> CHR ''_'' # show_nat i"
  have d: "\<not> is_digit CHR ''_''" by (simp add: is_digit_def)
  have tails: "show_nat p @ ?tail u = show_nat p' @ ?tail u' \<longleftrightarrow> p = p' \<and> u = u'"
  proof (cases u; cases u')
    fix i j assume u: "u = Some i" "u' = Some j"
    show ?thesis using show_nat_delimited [OF _ d d, of p "show_nat i" p' "show_nat j"] by (auto simp: u)
  qed (use show_nat_end [OF d, of p p'] show_nat_end [OF d, of p' p] show_nat_end [OF d, of p' p, symmetric] in auto)
  have "localized_shuffle_input_name s p u = localized_shuffle_input_name s' p' u' \<longleftrightarrow>
      show_nat s @ CHR ''_'' # CHR ''p'' # show_nat p @ ?tail u = show_nat s' @ CHR ''_'' # CHR ''p'' # show_nat p' @ ?tail u'"
    by (cases u; cases u') (simp_all add: localized_shuffle_input_name_def)
  also have "\<dots> \<longleftrightarrow> s = s' \<and> show_nat p @ ?tail u = show_nat p' @ ?tail u'"
    using show_nat_delimited [OF _ d d, of s "CHR ''p'' # show_nat p @ ?tail u" s' "CHR ''p'' # show_nat p' @ ?tail u'"] by auto
  finally show "localized_shuffle_input_name s p u = localized_shuffle_input_name s' p' u' \<longleftrightarrow> s = s' \<and> p = p' \<and> u = u'"
    unfolding tails .
  show "rename_ident s' p' ups (localized_shuffle_input_name s p u) = localized_shuffle_input_name s p u"
    by (simp add: rename_ident_def localized_shuffle_input_name_def SHUFFLE_INPUT_TABLE_def shuffle_input_token_index_def
        is_digit_def starts_with_def Let_def)
qed

section \<open>An instance\<close>

definition demo_read_ticket :: "nat \<Rightarrow> nat \<Rightarrow> shuffle_read_ticket" where
  "demo_read_ticket s p = \<lparr>sr_stage_id = s, sr_target_partition = p\<rparr>"

definition demo_stage_message :: stage_ticket where
  "demo_stage_message = build_stage_ticket (stage_def_new 1 ''q'' [] []) 0 2 0 [] True (\<lambda>_. None) (\<lambda>_. None)"

text \<open>A codec that writes read tickets as two numbers and knows one stage ticket.\<close>

definition demo_prost :: prost where
  "demo_prost =
     \<lparr>enc_stage = \<lambda>_. [], dec_stage = \<lambda>_. Inr demo_stage_message,
      enc_read = \<lambda>r. u32_le (sr_stage_id r) @ u32_le (sr_target_partition r),
      dec_read = \<lambda>b. Inr (demo_read_ticket (le_u32 (take 4 b)) (le_u32 (drop 4 b))), utf8_lossy = id\<rparr>"

theorem shuffle_messages_roundtrip_witness:
  "decode_header (encode_header \<lparr>xh_stage_id = 7, xh_partition_id = 300\<rparr>) = Inr \<lparr>xh_stage_id = 7, xh_partition_id = 300\<rparr> \<and>
   decode_ticket demo_prost (stage_ticket_bytes demo_prost demo_stage_message) = Inr (StageT demo_stage_message) \<and>
   decode_ticket demo_prost (read_ticket_bytes demo_prost (demo_read_ticket 7 300)) = Inr (ShuffleReadT (demo_read_ticket 7 300))"
proof -
  have "dec_read demo_prost (enc_read demo_prost (demo_read_ticket 7 300)) = Inr (demo_read_ticket 7 300)"
    by (simp add: demo_prost_def demo_read_ticket_def le_u32_u32_le)
  moreover have "dec_stage demo_prost (enc_stage demo_prost demo_stage_message) = Inr demo_stage_message"
    by (simp add: demo_prost_def)
  ultimately show ?thesis
    using shuffle_messages_roundtrip [of "\<lparr>xh_stage_id = 7, xh_partition_id = 300\<rparr>" demo_prost demo_stage_message "demo_read_ticket 7 300"] by simp
qed

end
