(* ===== verification/Autoscale.thy ===== *)
theory Autoscale
  imports Cluster_Membership Stage_Plan
begin

text \<open>
  The worker count the driver asks for before a distributed query
  (\<^verbatim>\<open>oxidant-execution/src/autoscale.rs\<close>). The counts are \<^verbatim>\<open>u32\<close>; the one addition that could overflow
  saturates.
\<close>

section \<open>Demand\<close>

definition autoscale_enabled :: "(string \<Rightarrow> string option) \<Rightarrow> bool" where
  "autoscale_enabled env = (case env ''OXIDANT_AUTOSCALE'' of Some v \<Rightarrow> v = ''1'' \<or> eq_ignore_ascii_case v ''true'' | None \<Rightarrow> False)"

definition stage_num_tasks :: "stage_def \<Rightarrow> stage_def list \<Rightarrow> cluster \<Rightarrow> nat" where
  "stage_num_tasks stage stages cl =
     (if exchange stage = ExForward then 1
      else let is_output = (\<not> list_ex (\<lambda>s. stage_id stage \<in> set (upstream_stage_ids s)) stages) in
        if is_output \<and> upstream_stage_ids stage \<noteq> [] then num_partitions cl else max (length (workers cl)) 1)"

record parallelism_demand =
  pd_shuffle_partitions :: nat
  pd_peak_stage_tasks :: nat
  pd_stages :: "(nat \<times> nat) list"

definition parallelism_demand_of :: "cluster \<Rightarrow> stage_def list \<Rightarrow> parallelism_demand" where
  "parallelism_demand_of cl stages =
     (let ds = map (\<lambda>s. (stage_id s, stage_num_tasks s stages cl)) stages in
      \<lparr>pd_shuffle_partitions = max (num_partitions cl) 1, pd_peak_stage_tasks = max (fold max (map snd ds) (if ds = [] then 1 else 0)) 1, pd_stages = ds\<rparr>)"

section \<open>Recommendation\<close>

record scale_recommendation =
  sr_current_workers :: nat
  sr_recommended_workers :: nat
  sr_peak_task_demand :: nat
  sr_task_slots_per_worker :: nat
  sr_should_scale :: bool
  sr_reason :: string

definition saturating_add_u32 :: "nat \<Rightarrow> nat \<Rightarrow> nat" where
  "saturating_add_u32 a b = nat (min (int a + int b) 4294967295)"

definition workers_for :: "nat \<Rightarrow> nat \<Rightarrow> nat" where
  "workers_for tasks slots = saturating_add_u32 tasks (slots - 1) div slots"

definition recommend_worker_count :: "nat \<Rightarrow> nat \<Rightarrow> nat \<Rightarrow> parallelism_demand \<Rightarrow> nat \<Rightarrow> scale_recommendation" where
  "recommend_worker_count current_workers min_workers max_workers demand task_slots =
     (let slots = max task_slots 1;
          mn = max min_workers 1;
          mx = max max_workers mn;
          current = min (max current_workers mn) mx;
          needed = max (max (workers_for (pd_shuffle_partitions demand) slots) (workers_for (pd_peak_stage_tasks demand) slots)) mn;
          recommended = max (min needed mx) current;
          peak = max (pd_peak_stage_tasks demand) (pd_shuffle_partitions demand);
          scale = current < recommended;
          reason = (if scale
            then ''parallelism demand peak='' @ show_nat peak @ '' partitions='' @ show_nat (pd_shuffle_partitions demand) @
              '' slots/worker='' @ show_nat slots @ '' needs '' @ show_nat needed @ '' workers (have '' @ show_nat current @ '')''
            else ''current '' @ show_nat current @ '' workers satisfy peak='' @ show_nat peak @ '' partitions='' @
              show_nat (pd_shuffle_partitions demand) @ '' with '' @ show_nat slots @ '' slots/worker'')
      in \<lparr>sr_current_workers = current, sr_recommended_workers = recommended, sr_peak_task_demand = peak,
          sr_task_slots_per_worker = slots, sr_should_scale = scale, sr_reason = reason\<rparr>)"

section \<open>Bounds\<close>

lemma workers_for_enough: "0 < slots \<Longrightarrow> tasks + slots \<le> 4294967296 \<Longrightarrow> tasks \<le> workers_for tasks slots * slots"
proof -
  assume s: "0 < slots" and "tasks + slots \<le> 4294967296"
  then have "saturating_add_u32 tasks (slots - 1) = tasks + (slots - 1)" by (simp add: saturating_add_u32_def)
  then have "workers_for tasks slots * slots + (tasks + (slots - 1)) mod slots = tasks + (slots - 1)" by (simp add: workers_for_def)
  moreover have "(tasks + (slots - 1)) mod slots < slots" using s by simp
  ultimately show ?thesis by linarith
qed

lemma recommend_fields:
  "sr_current_workers (recommend_worker_count c mn mx d slots) = min (max c (max mn 1)) (max mx (max mn 1))"
  "sr_recommended_workers (recommend_worker_count c mn mx d slots) =
     max (min (max (max (workers_for (pd_shuffle_partitions d) (max slots 1)) (workers_for (pd_peak_stage_tasks d) (max slots 1))) (max mn 1))
       (max mx (max mn 1))) (min (max c (max mn 1)) (max mx (max mn 1)))"
  "sr_peak_task_demand (recommend_worker_count c mn mx d slots) = max (pd_peak_stage_tasks d) (pd_shuffle_partitions d)"
  "sr_task_slots_per_worker (recommend_worker_count c mn mx d slots) = max slots 1"
  unfolding recommend_worker_count_def Let_def by (simp_all only: scale_recommendation.select_convs)

lemma clamped:
  fixes n c m k :: nat
  assumes "m \<le> k" and "R = max (min n k) (min (max c m) k)"
  shows "m \<le> R" "R \<le> k" "R < k \<Longrightarrow> n \<le> R"
  using assms by (auto simp: max_def min_def split: if_splits)

text \<open>
  The recommended number of workers lies within the configured bounds, never below the current
  number, and offers a slot to every task of the busiest stage and to every shuffle partition,
  unless the upper bound or the 32-bit range forbids it.
\<close>

theorem recommendation_bounds:
  assumes "rec = recommend_worker_count current mn mx demand slots" and "mn \<le> mx" and "1 \<le> mx"
    and "pd_peak_stage_tasks demand + max slots 1 \<le> 4294967296" and "pd_shuffle_partitions demand + max slots 1 \<le> 4294967296"
  shows "max mn 1 \<le> sr_recommended_workers rec \<and> sr_recommended_workers rec \<le> mx \<and>
    sr_current_workers rec \<le> sr_recommended_workers rec \<and>
    (sr_recommended_workers rec < mx \<longrightarrow>
       sr_peak_task_demand rec \<le> sr_recommended_workers rec * sr_task_slots_per_worker rec)"
proof -
  define s a b R where "s = max slots 1" and "a = workers_for (pd_shuffle_partitions demand) s"
    and "b = workers_for (pd_peak_stage_tasks demand) s" and "R = sr_recommended_workers rec"
  have "0 < s" by (simp add: s_def)
  then have e: "pd_shuffle_partitions demand \<le> a * s" "pd_peak_stage_tasks demand \<le> b * s"
    unfolding a_def b_def using assms(4,5) by (simp_all add: workers_for_enough s_def)
  have mx: "max mn 1 \<le> mx" "max mx (max mn 1) = mx" using assms(2,3) by simp_all
  have R: "R = max (min (max (max a b) (max mn 1)) mx) (min (max current (max mn 1)) mx)"
    unfolding R_def assms(1) recommend_fields mx(2) a_def b_def s_def ..
  note c = clamped [OF mx(1) R]
  have "max (pd_peak_stage_tasks demand) (pd_shuffle_partitions demand) \<le> R * s" if "R < mx"
  proof -
    have "a \<le> R" "b \<le> R" using c(3) [OF that] by simp_all
    then have "a * s \<le> R * s" "b * s \<le> R * s" by simp_all
    with e show ?thesis by (intro max.boundedI) (rule order.trans, assumption, assumption)+
  qed
  moreover have "sr_current_workers rec \<le> R" unfolding R_def assms(1) recommend_fields by (rule max.cobounded2)
  moreover have "sr_peak_task_demand rec = max (pd_peak_stage_tasks demand) (pd_shuffle_partitions demand)" "sr_task_slots_per_worker rec = s"
    unfolding assms(1) recommend_fields s_def by (rule refl)+
  ultimately show ?thesis using c(1,2) unfolding R_def by simp
qed

theorem recommendation_bounds_witness:
  "let rec = recommend_worker_count 2 2 16 \<lparr>pd_shuffle_partitions = 32, pd_peak_stage_tasks = 30, pd_stages = []\<rparr> 4 in
     sr_recommended_workers rec = 8 \<and> sr_recommended_workers rec \<le> 16 \<and>
     sr_peak_task_demand rec \<le> sr_recommended_workers rec * sr_task_slots_per_worker rec"
proof -
  define rec where "rec = recommend_worker_count 2 2 16 \<lparr>pd_shuffle_partitions = 32, pd_peak_stage_tasks = 30, pd_stages = []\<rparr> 4"
  have r: "sr_recommended_workers rec = 8"
    unfolding rec_def recommend_fields by (simp add: workers_for_def saturating_add_u32_def)
  from recommendation_bounds [OF rec_def] r show ?thesis unfolding rec_def [symmetric] Let_def by simp
qed

end
