(* ===== verification/Hive_Types.thy ===== *)
theory Hive_Types
  imports Record_Batch Lake_Sink
begin

text \<open>
  The types of a Hive or Glue catalog (\<^verbatim>\<open>oxidant-catalog/src/hive_types.rs\<close>): reading a declared type
  string as an Arrow type, declaring an Arrow schema, the storage descriptor of a format, and the
  checks on names and partition values that become paths. Catalog columns are all nullable, and
  fields carry no nullability here. How Rust prints an Arrow type in the error is a parameter.
\<close>

section \<open>Reading a declared type\<close>

definition strip_suffix_char :: "char \<Rightarrow> string \<Rightarrow> string option" where
  "strip_suffix_char c s = (if s \<noteq> [] \<and> last s = c then Some (butlast s) else None)"

definition strip_prefix :: "string \<Rightarrow> string \<Rightarrow> string option" where
  "strip_prefix p s = (if starts_with s p then Some (drop (length p) s) else None)"

text \<open>\<^verbatim>\<open>str::parse::<i8>\<close>.\<close>

definition parse_i8 :: "string \<Rightarrow> int option" where
  "parse_i8 s =
     (case s of
        c # cs \<Rightarrow>
          if c = CHR ''-''
          then if cs \<noteq> [] \<and> list_all is_digit cs \<and> digits_value cs \<le> 128 then Some (- int (digits_value cs)) else None
          else map_option int (parse_unsigned 127 s)
      | [] \<Rightarrow> None)"

definition parse_decimal_args :: "string \<Rightarrow> (nat \<times> int) option" where
  "parse_decimal_args args =
     (case split_on CHR '','' args of
        [] \<Rightarrow> None
      | p # rest \<Rightarrow>
          Option.bind (parse_unsigned 255 (trim p)) (\<lambda>p.
            Option.bind (case rest of s # _ \<Rightarrow> parse_i8 (trim s) | [] \<Rightarrow> Some 0) (\<lambda>s.
              if 1 < length rest \<or> p = 0 then None else Some (p, s))))"

definition scalar_types :: "(string \<times> data_type) list" where
  "scalar_types =
     [(''bigint'', Int64), (''long'', Int64), (''int'', Int32), (''integer'', Int32), (''smallint'', Int16), (''short'', Int16),
      (''tinyint'', Int8), (''byte'', Int8), (''double'', Float64), (''float'', Float32), (''real'', Float32),
      (''string'', Utf8), (''varchar'', Utf8), (''char'', Utf8), (''text'', Utf8), (''boolean'', Boolean), (''bool'', Boolean),
      (''date'', Date32), (''timestamp'', Timestamp Microsecond None), (''timestamp_ntz'', Timestamp Microsecond None),
      (''timestamp with local time zone'', Timestamp Microsecond (Some ''UTC'')), (''binary'', Binary)]"

definition hive_type_to_arrow :: "string \<Rightarrow> data_type option" where
  "hive_type_to_arrow ty =
     (let t = to_ascii_lowercase (trim ty) in
      case map_of scalar_types t of
        Some dt \<Rightarrow> Some dt
      | None \<Rightarrow>
          if starts_with t ''varchar('' \<or> starts_with t ''char('' then Some Utf8
          else case Option.bind (case strip_prefix ''decimal('' t of Some r \<Rightarrow> Some r | None \<Rightarrow> strip_prefix ''numeric('' t) (strip_suffix_char CHR '')'') of
            Some args \<Rightarrow> map_option (\<lambda>(p, s). Decimal128 p s) (parse_decimal_args args)
          | None \<Rightarrow> if t = ''decimal'' \<or> t = ''numeric'' then Some (Decimal128 10 0) else None)"

fun columns_to_fields :: "(string \<times> string) list \<Rightarrow> field list option" where
  "columns_to_fields [] = Some []"
| "columns_to_fields ((name, ty) # cols) =
     Option.bind (hive_type_to_arrow ty) (\<lambda>dt. map_option (\<lambda>fs. \<lparr>f_name = name, f_type = dt\<rparr> # fs) (columns_to_fields cols))"

definition columns_to_schema :: "(string \<times> string) list \<Rightarrow> field list option" where
  "columns_to_schema cols = (case columns_to_fields cols of Some (f # fs) \<Rightarrow> Some (f # fs) | _ \<Rightarrow> None)"

section \<open>Declaring a schema\<close>

fun arrow_type_to_hive :: "data_type \<Rightarrow> string option" where
  "arrow_type_to_hive Int64 = Some ''bigint''"
| "arrow_type_to_hive Int32 = Some ''int''"
| "arrow_type_to_hive Int16 = Some ''smallint''"
| "arrow_type_to_hive Int8 = Some ''tinyint''"
| "arrow_type_to_hive Float64 = Some ''double''"
| "arrow_type_to_hive Float32 = Some ''float''"
| "arrow_type_to_hive Utf8 = Some ''string''"
| "arrow_type_to_hive LargeUtf8 = Some ''string''"
| "arrow_type_to_hive Boolean = Some ''boolean''"
| "arrow_type_to_hive Date32 = Some ''date''"
| "arrow_type_to_hive Date64 = Some ''date''"
| "arrow_type_to_hive (Timestamp _ (Some _)) = Some ''timestamp with local time zone''"
| "arrow_type_to_hive (Timestamp _ None) = Some ''timestamp''"
| "arrow_type_to_hive Binary = Some ''binary''"
| "arrow_type_to_hive LargeBinary = Some ''binary''"
| "arrow_type_to_hive (Decimal128 p s) = Some (''decimal('' @ show_nat p @ '','' @ show_int s @ '')'')"
| "arrow_type_to_hive (OtherType _) = None"

fun schema_to_columns ::
  "(data_type \<Rightarrow> string) \<Rightarrow> field list \<Rightarrow> string list \<Rightarrow> ((string \<times> string) list \<times> (string \<times> string) list) result" where
  "schema_to_columns dbg [] parts = Inr ([], [])"
| "schema_to_columns dbg (f # fs) parts =
     (case arrow_type_to_hive (f_type f) of
        None \<Rightarrow> Inl (Unsupported (''column `'' @ f_name f @ ''` has type '' @ dbg (f_type f) @ '', which cannot be declared to an external catalog''))
      | Some ty \<Rightarrow>
          rbind (schema_to_columns dbg fs parts) (\<lambda>(data, part).
            Inr (if f_name f \<in> set parts then (data, (f_name f, ty) # part) else ((f_name f, ty) # data, part))))"

record hive_serde =
  hs_input_format :: string
  hs_output_format :: string
  hs_serde_lib :: string
  hs_serde_params :: "(string \<times> string) list"

definition format_serde :: "table_format \<Rightarrow> hive_serde result" where
  "format_serde fmt =
     (if fmt = Csv then Inr
        \<lparr>hs_input_format = ''org.apache.hadoop.mapred.TextInputFormat'',
         hs_output_format = ''org.apache.hadoop.hive.ql.io.HiveIgnoreKeyTextOutputFormat'',
         hs_serde_lib = ''org.apache.hadoop.hive.serde2.lazy.LazySimpleSerDe'', hs_serde_params = [(''field.delim'', '','')]\<rparr>
      else if fmt = Json then Inr
        \<lparr>hs_input_format = ''org.apache.hadoop.mapred.TextInputFormat'',
         hs_output_format = ''org.apache.hadoop.hive.ql.io.HiveIgnoreKeyTextOutputFormat'',
         hs_serde_lib = ''org.apache.hive.hcatalog.data.JsonSerDe'', hs_serde_params = []\<rparr>
      else Inr
        \<lparr>hs_input_format = ''org.apache.hadoop.hive.ql.io.parquet.MapredParquetInputFormat'',
         hs_output_format = ''org.apache.hadoop.hive.ql.io.parquet.MapredParquetOutputFormat'',
         hs_serde_lib = ''org.apache.hadoop.hive.ql.io.parquet.serde.ParquetHiveSerDe'', hs_serde_params = []\<rparr>)"

section \<open>Names that become paths\<close>

definition ascii_alphanumeric :: "char \<Rightarrow> bool" where
  "ascii_alphanumeric c \<longleftrightarrow> (let n = (of_char c :: nat) in 48 \<le> n \<and> n \<le> 57 \<or> 65 \<le> n \<and> n \<le> 90 \<or> 97 \<le> n \<and> n \<le> 122)"

definition validate_identifier :: "string \<Rightarrow> string \<Rightarrow> unit result" where
  "validate_identifier kind v =
     (if v \<noteq> [] \<and> list_all (\<lambda>c. ascii_alphanumeric c \<or> c = CHR ''_'') v then Inr ()
      else Inl (Plan (kind @ '' `'' @ v @ ''` is not a valid identifier (expected letters, digits, underscore only)'')))"

definition validate_partition_value :: "string \<Rightarrow> string \<Rightarrow> unit result" where
  "validate_partition_value key v =
     (if v = [] then Inl (Plan (''partition value for `'' @ key @ ''` is empty''))
      else if CHR ''/'' \<in> set v \<or> CHR 0x5C \<in> set v \<or> str_contains v ''..''
      then Inl (Plan (''partition value `'' @ v @ ''` for `'' @ key @ ''` is not valid (must not contain path separators or `..`)''))
      else Inr ())"

section \<open>A declared schema reads back\<close>

text \<open>What is left of a type: the wide variants, the time unit and the name of a zone are not declared.\<close>

fun declared_type :: "data_type \<Rightarrow> data_type" where
  "declared_type LargeUtf8 = Utf8"
| "declared_type Date64 = Date32"
| "declared_type LargeBinary = Binary"
| "declared_type (Timestamp _ None) = Timestamp Microsecond None"
| "declared_type (Timestamp _ (Some _)) = Timestamp Microsecond (Some ''UTC'')"
| "declared_type t = t"

text \<open>Precision and scale in the ranges of \<^verbatim>\<open>u8\<close> and \<^verbatim>\<open>i8\<close>, with a digit.\<close>

definition decimal_ok :: "data_type \<Rightarrow> bool" where
  "decimal_ok t = (case t of Decimal128 p s \<Rightarrow> 0 < p \<and> p \<le> 255 \<and> - 128 \<le> s \<and> s \<le> 127 | _ \<Rightarrow> True)"

lemma trim_plain:
  assumes "s \<noteq> []" and "\<not> is_space (hd s)" and "\<not> is_space (last s)"
  shows "trim s = s"
proof -
  have d: "dropWhile is_space xs = xs" if "xs \<noteq> []" "\<not> is_space (hd xs)" for xs using that by (cases xs) auto
  have "dropWhile is_space s = s" using d assms(1,2) by blast
  moreover have "dropWhile is_space (rev s) = rev s" using assms(1,3) by (intro d) (simp_all add: hd_rev)
  ultimately show ?thesis by (simp add: trim_def)
qed

lemma digit_not_space: "is_digit c \<Longrightarrow> \<not> is_space c"
  by (auto simp: is_digit_def is_space_def Let_def)

lemma digits_plain:
  assumes "list_all is_digit s"
  shows "CHR '','' \<notin> set s" and "to_ascii_lowercase s = s" and "s \<noteq> [] \<Longrightarrow> trim s = s" and "CHR ''-'' \<notin> set s"
proof -
  have c: "\<not> is_digit CHR '',''" "\<not> is_digit CHR ''-''" by (simp_all add: is_digit_def)
  show "CHR '','' \<notin> set s" "CHR ''-'' \<notin> set s" using assms c by (auto simp: list_all_iff)
  have "ascii_lower c = c" if "is_digit c" for c using that by (auto simp: ascii_lower_def is_digit_def Let_def)
  then show "to_ascii_lowercase s = s" using assms by (induction s) (auto simp: to_ascii_lowercase_def)
  show "trim s = s" if "s \<noteq> []"
    using assms that by (intro trim_plain) (auto simp: list_all_iff digit_not_space)
qed

lemmas show_nat_plain [simp] = digits_plain [OF show_nat_digits] digits_plain(3) [OF show_nat_digits show_nat_nonempty]

lemma show_int_plain [simp]:
  "CHR '','' \<notin> set (show_int s)" "to_ascii_lowercase (show_int s) = show_int s" "trim (show_int s) = show_int s" "show_int s \<noteq> []"
proof -
  have l: "ascii_lower CHR ''-'' = CHR ''-''" "\<not> is_space CHR ''-''" by (simp_all add: ascii_lower_def is_space_def)
  have e: "\<not> is_space (last (show_nat n))" for n
    using show_nat_digits [of n] digit_not_space by (auto simp: list_all_iff)
  show "CHR '','' \<notin> set (show_int s)" "show_int s \<noteq> []" by (simp_all add: show_int_def)
  show "to_ascii_lowercase (show_int s) = show_int s"
    using l(1) show_nat_plain(2) by (auto simp: show_int_def to_ascii_lowercase_def)
  show "trim (show_int s) = show_int s"
    using l(2) e trim_plain [of "CHR ''-'' # show_nat (nat (- s))"] by (simp add: show_int_def)
qed

lemma parse_i8_show_int: "- 128 \<le> s \<Longrightarrow> s \<le> 127 \<Longrightarrow> parse_i8 (show_int s) = Some s"
proof (cases "s < 0")
  case True
  assume "- 128 \<le> s"
  then have "nat (- s) \<le> 128" by simp
  with True show ?thesis by (simp add: show_int_def parse_i8_def show_nat_digits)
next
  case False
  assume "s \<le> 127"
  then have p: "parse_unsigned 127 (show_nat (nat s)) = Some (nat s)" by (intro parse_show_nat) simp
  obtain c cs where n: "show_nat (nat s) = c # cs" using show_nat_nonempty by (cases "show_nat (nat s)") auto
  have "c \<noteq> CHR ''-''" using show_nat_plain(4) [of "nat s"] n by auto
  with False p n show ?thesis by (simp add: show_int_def parse_i8_def)
qed

lemma decimal_reads_back:
  assumes "0 < p" and "p \<le> 255" and "- 128 \<le> s" and "s \<le> 127"
  shows "hive_type_to_arrow (''decimal('' @ show_nat p @ '','' @ show_int s @ '')'') = Some (Decimal128 p s)"
proof -
  let ?args = "show_nat p @ CHR '','' # show_int s"
  let ?t = "''decimal('' @ ?args @ '')''"
  have "trim ?t = ?t" by (rule trim_plain) (simp_all add: is_space_def)
  moreover have "to_ascii_lowercase (''decimal('' @ show_nat p @ '','' @ show_int s @ '')'') = ''decimal('' @ show_nat p @ '','' @ show_int s @ '')''"
    unfolding to_ascii_lowercase_append show_nat_plain(2) show_int_plain(2)
    by (simp add: to_ascii_lowercase_def ascii_lower_def)
  then have "to_ascii_lowercase ?t = ?t" by simp
  ultimately have t: "to_ascii_lowercase (trim ?t) = ?t" by (simp only:)
  have none: "map_of scalar_types ?t = None" by (simp add: scalar_types_def)
  have "\<not> starts_with ?t ''varchar(''" "\<not> starts_with ?t ''char(''" "strip_prefix ''decimal('' ?t = Some (?args @ '')'')"
    by (simp_all add: starts_with_def strip_prefix_def)
  moreover have "strip_suffix_char CHR '')'' (?args @ '')'') = Some ?args" by (simp add: strip_suffix_char_def butlast_append)
  moreover have "split_on CHR '','' ?args = [show_nat p, show_int s]" by (simp add: split_on_append split_on_none)
  then have "parse_decimal_args ?args = Some (p, s)"
    using assms parse_show_nat [of p 255] parse_i8_show_int [of s] by (simp add: parse_decimal_args_def)
  ultimately have "hive_type_to_arrow ?t = Some (Decimal128 p s)" unfolding hive_type_to_arrow_def Let_def t none by simp
  then show ?thesis by simp
qed

lemma scalar_reads_back:
  "hive_type_to_arrow ''bigint'' = Some Int64" "hive_type_to_arrow ''int'' = Some Int32" "hive_type_to_arrow ''smallint'' = Some Int16"
  "hive_type_to_arrow ''tinyint'' = Some Int8" "hive_type_to_arrow ''double'' = Some Float64" "hive_type_to_arrow ''float'' = Some Float32"
  "hive_type_to_arrow ''string'' = Some Utf8" "hive_type_to_arrow ''boolean'' = Some Boolean" "hive_type_to_arrow ''date'' = Some Date32"
  "hive_type_to_arrow ''binary'' = Some Binary" "hive_type_to_arrow ''timestamp'' = Some (Timestamp Microsecond None)"
  "hive_type_to_arrow ''timestamp with local time zone'' = Some (Timestamp Microsecond (Some ''UTC''))"
  by code_simp+

lemma declared_reads_back:
  "arrow_type_to_hive t = Some h \<Longrightarrow> decimal_ok t \<Longrightarrow> hive_type_to_arrow h = Some (declared_type t)"
proof (induction t rule: arrow_type_to_hive.induct)
  case (16 p s)
  then show ?case using decimal_reads_back [of p s] by (auto simp: decimal_ok_def)
qed (auto simp: scalar_reads_back)

lemma columns_to_fields_append:
  "columns_to_fields (xs @ ys) = Option.bind (columns_to_fields xs) (\<lambda>fs. map_option (\<lambda>gs. fs @ gs) (columns_to_fields ys))"
proof (induction xs)
  case (Cons x xs)
  obtain n ty where "x = (n, ty)" by fastforce
  with Cons.IH show ?case
    by (cases "hive_type_to_arrow ty"; cases "columns_to_fields xs"; cases "columns_to_fields ys") simp_all
qed (cases "columns_to_fields ys"; simp)

definition declared_field :: "field \<Rightarrow> field" where
  "declared_field f = \<lparr>f_name = f_name f, f_type = declared_type (f_type f)\<rparr>"

lemma schema_to_columns_fields:
  "schema_to_columns dbg fs parts = Inr (data, part) \<Longrightarrow> \<forall>f \<in> set fs. decimal_ok (f_type f) \<Longrightarrow>
   columns_to_fields data = Some (map declared_field (filter (\<lambda>f. f_name f \<notin> set parts) fs)) \<and>
   columns_to_fields part = Some (map declared_field (filter (\<lambda>f. f_name f \<in> set parts) fs))"
proof (induction fs arbitrary: data part)
  case (Cons f fs)
  obtain ty where ty: "arrow_type_to_hive (f_type f) = Some ty" using Cons.prems(1) by (auto split: option.splits)
  with Cons.prems(1) obtain d p where r: "schema_to_columns dbg fs parts = Inr (d, p)"
      "(data, part) = (if f_name f \<in> set parts then (d, (f_name f, ty) # p) else ((f_name f, ty) # d, p))" by auto
  have "hive_type_to_arrow ty = Some (declared_type (f_type f))" using declared_reads_back [OF ty] Cons.prems(2) by simp
  with Cons.IH [OF r(1)] Cons.prems(2) r(2) show ?case by (cases "f_name f \<in> set parts") (simp_all add: declared_field_def)
qed simp

text \<open>
  C25. A schema declared to a Hive or Glue catalog reads back, data columns first and partition columns
  after them, each group in the order of the schema, with every column's name and with its type up
  to what the catalog's vocabulary drops: the wide variants of text, binary and dates, the unit of
  a timestamp and the name of its zone.
\<close>

theorem declared_schema_reads_back:
  assumes "schema_to_columns dbg fs parts = Inr (data, part)" and "fs \<noteq> []" and "\<forall>f \<in> set fs. decimal_ok (f_type f)"
  shows "columns_to_schema (data @ part) =
    Some (map declared_field (filter (\<lambda>f. f_name f \<notin> set parts) fs @ filter (\<lambda>f. f_name f \<in> set parts) fs))"
proof -
  let ?fs = "filter (\<lambda>f. f_name f \<notin> set parts) fs @ filter (\<lambda>f. f_name f \<in> set parts) fs"
  have "columns_to_fields (data @ part) = Some (map declared_field ?fs)"
    using schema_to_columns_fields [OF assms(1,3)] by (simp add: columns_to_fields_append)
  moreover have "?fs \<noteq> []" using assms(2) by (cases fs) auto
  then have "map declared_field ?fs \<noteq> []" by blast
  ultimately show ?thesis unfolding columns_to_schema_def by (cases "map declared_field ?fs") simp_all
qed

definition demo_fields :: "field list" where
  "demo_fields = [\<lparr>f_name = ''day'', f_type = Date64\<rparr>, \<lparr>f_name = ''fare'', f_type = Decimal128 10 (- 2)\<rparr>, \<lparr>f_name = ''at'', f_type = Timestamp Second None\<rparr>]"

theorem declared_schema_reads_back_witness:
  "\<exists>data part. schema_to_columns (\<lambda>_. []) demo_fields [''day''] = Inr (data, part) \<and>
     columns_to_schema (data @ part) = Some [\<lparr>f_name = ''fare'', f_type = Decimal128 10 (- 2)\<rparr>,
       \<lparr>f_name = ''at'', f_type = Timestamp Microsecond None\<rparr>, \<lparr>f_name = ''day'', f_type = Date32\<rparr>]"
proof -
  obtain data part where d: "schema_to_columns (\<lambda>_. []) demo_fields [''day''] = Inr (data, part)"
    by (simp add: demo_fields_def)
  from declared_schema_reads_back [OF d] d show ?thesis
    by (auto simp: demo_fields_def decimal_ok_def declared_field_def simp del: schema_to_columns.simps)
qed

text \<open>A name the catalog accepts cannot leave its directory, nor can a partition value.\<close>

lemma validated_names_stay:
  "validate_identifier kind v = Inr () \<Longrightarrow> v \<noteq> [] \<and> CHR ''/'' \<notin> set v \<and> CHR ''.'' \<notin> set v"
  by (auto simp: validate_identifier_def ascii_alphanumeric_def list_all_iff split: if_splits)

end
