(* ===== verification/Spec2Isabelle.thy ===== *)
theory Spec2Isabelle
  imports Stage_Dag Cluster_Membership Aqe Hive_Thrift Pgoutput Cron_Schedule Table_Graph
    Config_Interpolate Lake_Delivery
    Shuffle_Worker Task_Scheduler Shuffle_Names Autoscale Hive_Types
begin

text \<open>
  A verification library for the Oxidant query engine.
\<close>

end
